(* ===== verification/Prelude.thy ===== *)
theory Prelude
  imports Main "HOL-Library.Sublist"
begin

text \<open>
  Shared vocabulary of the development: the collections the component theories fill, the byte and
  string types, and the generic facts on lists, options and memory updates that more than one
  component uses.
\<close>

named_theorems wf_intros "operations that preserve a component's invariant"
named_theorems view_simps "what an operation does to a component's abstract view"

type_synonym byte = char
  \<comment> \<open>\<open>std::byte\<close> and \<open>char\<close> are both eight bits wide and the code reinterprets one as the other\<close>

type_synonym mem = "byte list"

subsection \<open>Copying into memory\<close>

definition mem_write :: "nat \<Rightarrow> byte list \<Rightarrow> mem \<Rightarrow> mem" where
  "mem_write p bs m = take p m @ bs @ drop (p + length bs) m"

definition mem_read :: "nat \<Rightarrow> nat \<Rightarrow> mem \<Rightarrow> byte list" where
  "mem_read p n m = take n (drop p m)"

lemma length_mem_write [simp]:
  "p + length bs \<le> length m \<Longrightarrow> length (mem_write p bs m) = length m"
  by (simp add: mem_write_def)

lemma length_mem_read [simp]: "p + n \<le> length m \<Longrightarrow> length (mem_read p n m) = n"
  by (simp add: mem_read_def)

lemma mem_write_Nil [simp]: "mem_write p [] m = m"
  by (simp add: mem_write_def)

lemma mem_read_0 [simp]: "mem_read p 0 m = []"
  by (simp add: mem_read_def)

lemma mem_read_write_extend:
  assumes "p \<le> q" and "q + length bs \<le> length m"
  shows "mem_read p (q - p + length bs) (mem_write q bs m) = mem_read p (q - p) m @ bs"
proof -
  have "drop p (mem_write q bs m) = drop p (take q m) @ bs @ drop (q + length bs) m"
    using assms by (simp add: mem_write_def)
  moreover have "length (drop p (take q m)) = q - p"
    using assms by simp
  ultimately have "mem_read p (q - p + length bs) (mem_write q bs m) = drop p (take q m) @ bs"
    by (simp add: mem_read_def)
  then show ?thesis
    using assms by (simp add: mem_read_def drop_take)
qed

lemma mem_read_write_start:
  "length bs + k \<le> length m \<Longrightarrow> mem_read 0 (length bs) (mem_write 0 bs m) = bs"
  by (simp add: mem_read_def mem_write_def)

lemma mem_read_take: "k \<le> n \<Longrightarrow> take k (mem_read p n m) = mem_read p k m"
  by (simp add: mem_read_def min_def)

lemma mem_read_drop: "drop k (mem_read p n m) = mem_read (p + k) (n - k) m"
  by (simp add: mem_read_def drop_take add.commute)

subsection \<open>Lists and options\<close>

lemma takeWhile_all: "(\<And>x. x \<in> set xs \<Longrightarrow> P x) \<Longrightarrow> takeWhile P xs = xs"
  by (induction xs) auto

lemma dropWhile_hd: "dropWhile P xs \<noteq> [] \<Longrightarrow> \<not> P (hd (dropWhile P xs))"
  by (induction xs) auto

lemma dropWhile_no_change: "xs = [] \<or> \<not> P (hd xs) \<Longrightarrow> dropWhile P xs = xs"
  by (cases xs) auto

lemma length_dropWhile_Cons_less: "length (dropWhile P xs) < Suc (length xs)"
  by (simp add: length_dropWhile_le le_imp_less_Suc)

lemma filter_upt_length: "length (filter P xs) \<le> length xs"
  by simp

lemma case_option_bind:
  "(case x of None \<Rightarrow> None | Some y \<Rightarrow> f y) = Option.bind x f"
  by (cases x) simp_all

lemma bind_eq_SomeE:
  assumes "Option.bind x f = Some z"
  obtains y where "x = Some y" and "f y = Some z"
  using assms by (cases x) auto

end
