(* ===== verification/Cpp_Std.thy ===== *)
theory Cpp_Std
  imports Prelude "HOL-Library.Word"
begin

text \<open>
  The parts of the C++ standard library the sources call: \<open>std::tolower\<close> and \<open>std::toupper\<close> in the
  C locale, \<open>find\<close> of \<open>std::string\<close> and \<open>std::string_view\<close>, trimming loops, \<open>std::from_chars\<close> on
  unsigned integers and \<open>std::to_string\<close>. \<open>npos\<close> is \<open>None\<close> here except where the code hands the
  raw value to its caller.
\<close>

subsection \<open>Limits\<close>

definition size_max :: nat where "size_max = 2 ^ 64 - 1"
definition uint16_max :: nat where "uint16_max = 2 ^ 16 - 1"
definition npos :: nat where "npos = size_max"

subsection \<open>Character classification\<close>

definition tolower :: "char \<Rightarrow> char" where
  "tolower c = (let n = (of_char c :: nat)
                in if 65 \<le> n \<and> n \<le> 90 then char_of (n + 32) else c)"

definition toupper :: "char \<Rightarrow> char" where
  "toupper c = (let n = (of_char c :: nat)
                in if 97 \<le> n \<and> n \<le> 122 then char_of (n - 32) else c)"

lemma tolower_idem [simp]: "tolower (tolower c) = tolower c"
  by (auto simp: tolower_def Let_def of_char_of)

lemma toupper_idem [simp]: "toupper (toupper c) = toupper c"
  by (auto simp: toupper_def Let_def of_char_of)

text \<open>
  The comparison every case-insensitive loop of the sources makes: sizes first, then character by
  character after lowering both.
\<close>

definition iequal :: "string \<Rightarrow> string \<Rightarrow> bool" where
  "iequal a b \<longleftrightarrow> length a = length b \<and> list_all2 (\<lambda>x y. tolower x = tolower y) a b"

lemma iequal_map: "iequal a b \<longleftrightarrow> map tolower a = map tolower b"
proof -
  have "list_all2 (\<lambda>x y. tolower x = tolower y) a b \<longleftrightarrow> map tolower a = map tolower b"
    by (simp add: list_all2_map1 list_all2_map2 list.rel_eq [symmetric] list.rel_map)
  moreover have "map tolower a = map tolower b \<Longrightarrow> length a = length b"
    using map_eq_imp_length_eq by blast
  ultimately show ?thesis by (auto simp: iequal_def)
qed

lemma iequal_refl [simp]: "iequal a a"
  by (simp add: iequal_map)

lemma iequal_sym: "iequal a b \<longleftrightarrow> iequal b a"
  by (auto simp: iequal_map)

lemma iequal_trans: "iequal a b \<Longrightarrow> iequal b c \<Longrightarrow> iequal a c"
  by (simp add: iequal_map)

lemma iequal_length: "iequal a b \<Longrightarrow> length a = length b"
  by (simp add: iequal_def)

lemma iequal_cong: "iequal a b \<Longrightarrow> iequal a c \<longleftrightarrow> iequal b c"
  by (simp add: iequal_map)

subsection \<open>Searching\<close>

fun find_char :: "char \<Rightarrow> string \<Rightarrow> nat option" where
  "find_char c [] = None"
| "find_char c (x # xs) = (if x = c then Some 0 else map_option Suc (find_char c xs))"

fun find_str :: "string \<Rightarrow> string \<Rightarrow> nat option" where
  "find_str p [] = (if p = [] then Some 0 else None)"
| "find_str p (x # xs) = (if prefix p (x # xs) then Some 0 else map_option Suc (find_str p xs))"

definition crlf :: string where
  "crlf = [CHR 0x0D, CHR 0x0A]"

lemma length_crlf [simp]: "length crlf = 2"
  by (simp add: crlf_def)

lemma crlf_not_Nil [simp]: "crlf \<noteq> []"
  by (simp add: crlf_def)

lemma find_char_None: "find_char c s = None \<longleftrightarrow> c \<notin> set s"
  by (induction s) auto

lemma find_char_SomeD:
  "find_char c s = Some i \<Longrightarrow> i < length s \<and> s ! i = c \<and> c \<notin> set (take i s)"
  by (induction s arbitrary: i) (auto split: if_splits)

lemma find_char_less: "find_char c s = Some i \<Longrightarrow> i < length s"
  by (simp add: find_char_SomeD)

lemma find_char_split:
  assumes "find_char c s = Some i"
  shows "s = take i s @ c # drop (Suc i) s" and "c \<notin> set (take i s)"
  using find_char_SomeD [OF assms] id_take_nth_drop [of i s] by auto

lemma find_char_append [simp]:
  "c \<notin> set a \<Longrightarrow> find_char c (a @ c # b) = Some (length a)"
  by (induction a) auto

lemma find_char_append_Some: "find_char c a = Some i \<Longrightarrow> find_char c (a @ b) = Some i"
  by (induction a arbitrary: i) (auto split: if_splits)

lemma find_str_bound: "find_str p s = Some i \<Longrightarrow> i + length p \<le> length s"
proof (induction s arbitrary: i)
  case Nil
  then show ?case by (auto split: if_splits)
next
  case (Cons x xs)
  show ?case
  proof (cases "prefix p (x # xs)")
    case True
    then show ?thesis using Cons.prems by (auto dest: prefix_length_le)
  next
    case False
    then obtain j where "find_str p xs = Some j" and "i = Suc j"
      using Cons.prems by auto
    then show ?thesis using Cons.IH by fastforce
  qed
qed

lemma find_str_append: "find_str p a = Some i \<Longrightarrow> find_str p (a @ b) = Some i"
proof (induction a arbitrary: i)
  case Nil
  then show ?case by (cases b) (auto split: if_splits)
next
  case (Cons x xs)
  have ext: "prefix p (x # xs @ b)" if "prefix p (x # xs)"
    using that prefix_prefix [of p "x # xs" b] by simp
  show ?case
  proof (cases "prefix p (x # xs)")
    case True
    then show ?thesis using Cons.prems ext by simp
  next
    case False
    then obtain j where j: "find_str p xs = Some j" "i = Suc j"
      using Cons.prems by auto
    have "\<not> prefix p (x # xs @ b)"
    proof
      assume pre: "prefix p (x # xs @ b)"
      have "length p \<le> length (x # xs)"
        using find_str_bound [OF j(1)] by simp
      then have "prefix p (x # xs)"
        using pre prefix_length_prefix [of p "x # xs @ b" "x # xs"] by simp
      with False show False by simp
    qed
    then show ?thesis using j Cons.IH by simp
  qed
qed

text \<open>The line reader's search: a line without a carriage return ends at its own CRLF.\<close>

lemma find_crlf_line:
  "CHR 0x0D \<notin> set l \<Longrightarrow> find_str crlf (l @ crlf @ rest) = Some (length l)"
  by (induction l) (auto simp: crlf_def)

lemma find_crlf_line': "CHR 0x0D \<notin> set l \<Longrightarrow> find_str crlf (l @ CHR 0x0D # CHR 0x0A # rest) = Some (length l)"
  using find_crlf_line [of l rest] by (simp add: crlf_def)

subsection \<open>Trimming\<close>

definition ltrim :: "(char \<Rightarrow> bool) \<Rightarrow> string \<Rightarrow> string" where
  "ltrim P s = dropWhile P s"

definition rtrim :: "(char \<Rightarrow> bool) \<Rightarrow> string \<Rightarrow> string" where
  "rtrim P s = rev (dropWhile P (rev s))"

definition trimmed :: "(char \<Rightarrow> bool) \<Rightarrow> string \<Rightarrow> bool" where
  "trimmed P s \<longleftrightarrow> (s = [] \<or> (\<not> P (hd s) \<and> \<not> P (last s)))"

lemma ltrim_trimmed: "trimmed P s \<Longrightarrow> ltrim P s = s"
  by (cases s) (auto simp: trimmed_def ltrim_def)

lemma rtrim_trimmed: "trimmed P s \<Longrightarrow> rtrim P s = s"
  by (cases s rule: rev_cases) (auto simp: trimmed_def rtrim_def)

lemma ltrim_Cons: "P c \<Longrightarrow> ltrim P (c # s) = ltrim P s"
  by (simp add: ltrim_def)

lemma trimmed_rtrim_ltrim: "trimmed P (rtrim P (ltrim P s))"
proof (cases "ltrim P s")
  case Nil
  then show ?thesis by (simp add: rtrim_def trimmed_def)
next
  case (Cons c t)
  have nc: "\<not> P c"
    using dropWhile_hd [of P s] Cons by (metis list.discI list.sel(1) ltrim_def)
  let ?r = "dropWhile P (rev (c # t))"
  have ne: "?r \<noteq> []"
    using nc by (auto simp: dropWhile_eq_Nil_conv)
  define w where "w = takeWhile P (rev (c # t))"
  have w: "rev (c # t) = w @ ?r"
    by (simp only: w_def takeWhile_dropWhile_id)
  have "c # t = rev ?r @ rev w"
    using arg_cong [OF w, of rev] by (simp only: rev_rev_ident rev_append)
  then have hd_c: "hd (rev ?r) = c"
    using ne by (metis hd_append2 list.sel(1) rev_is_Nil_conv)
  have "last (rev ?r) = hd ?r"
    using ne by (simp add: last_rev)
  moreover have "\<not> P (hd ?r)"
    using dropWhile_hd [OF ne] .
  ultimately show ?thesis
    using nc hd_c ne Cons by (simp add: rtrim_def trimmed_def)
qed

subsection \<open>Numbers\<close>

definition digit_of :: "nat \<Rightarrow> char \<Rightarrow> nat option" where
  "digit_of base c =
     (let n = (of_char c :: nat);
          v = (if 48 \<le> n \<and> n \<le> 57 then n - 48
               else if 97 \<le> n \<and> n \<le> 122 then n - 87
               else if 65 \<le> n \<and> n \<le> 90 then n - 55 else base)
      in if v < base then Some v else None)"

fun digits_prefix :: "nat \<Rightarrow> string \<Rightarrow> nat list" where
  "digits_prefix base [] = []"
| "digits_prefix base (c # cs) =
     (case digit_of base c of None \<Rightarrow> [] | Some d \<Rightarrow> d # digits_prefix base cs)"

definition digits_value :: "nat \<Rightarrow> nat list \<Rightarrow> nat" where
  "digits_value base ds = foldl (\<lambda>a d. a * base + d) 0 ds"

text \<open>
  \<open>std::from_chars\<close> into an unsigned type whose largest value is \<open>hi\<close>: the longest prefix of
  digits, with no sign and no blanks; no digit is \<open>invalid_argument\<close>, a value above \<open>hi\<close> is
  \<open>result_out_of_range\<close>, both \<open>None\<close> here (no caller tells them apart or reads \<open>ptr\<close>).
\<close>

definition from_chars :: "nat \<Rightarrow> nat \<Rightarrow> string \<Rightarrow> nat option" where
  "from_chars base hi s =
     (let ds = digits_prefix base s
      in if ds = [] then None
         else let v = digits_value base ds in if v \<le> hi then Some v else None)"

definition digit_char :: "nat \<Rightarrow> char" where
  "digit_char d = (if d < 10 then char_of (48 + d) else char_of (87 + d))"

function to_base :: "nat \<Rightarrow> nat \<Rightarrow> string" where
  "to_base base n =
     (if n < base \<or> base < 2 then [digit_char n]
      else to_base base (n div base) @ [digit_char (n mod base)])"
  by pat_completeness auto
termination
  by (relation "measure snd") (auto intro!: div_less_dividend)

declare to_base.simps [simp del]

definition to_string :: "nat \<Rightarrow> string" where
  "to_string n = to_base 10 n"

definition to_hex :: "nat \<Rightarrow> string" where
  "to_hex n = to_base 16 n"

lemma digit_of_digit_char: "d < base \<Longrightarrow> base \<le> 16 \<Longrightarrow> digit_of base (digit_char d) = Some d"
  by (auto simp: digit_of_def digit_char_def Let_def of_char_of)

lemma digit_char_class:
  "d < 16 \<Longrightarrow> (48 \<le> (of_char (digit_char d) :: nat) \<and> (of_char (digit_char d) :: nat) \<le> 57)
     \<or> (97 \<le> (of_char (digit_char d) :: nat) \<and> (of_char (digit_char d) :: nat) \<le> 102)"
  by (auto simp: digit_char_def of_char_of)

lemma to_base_not_Nil [simp]: "to_base base n \<noteq> []"
  by (subst to_base.simps) simp

lemma to_string_not_Nil [simp]: "to_string n \<noteq> []"
  by (simp add: to_string_def)

lemma to_base_unfold:
  assumes "2 \<le> base"
  shows "to_base base n =
    (if n < base then [digit_char n] else to_base base (n div base) @ [digit_char (n mod base)])"
  using assms by (subst to_base.simps) simp

lemma set_to_base:
  assumes "c \<in> set (to_base base n)" and base: "2 \<le> base"
  shows "\<exists>d < base. c = digit_char d"
  using assms(1)
proof (induction n rule: less_induct)
  case (less n)
  show ?case
  proof (cases "n < base")
    case True
    then show ?thesis using less.prems by (auto simp: to_base_unfold [OF base, of n])
  next
    case False
    then have "c \<in> set (to_base base (n div base)) \<or> c = digit_char (n mod base)"
      using less.prems by (auto simp: to_base_unfold [OF base, of n])
    moreover have "n div base < n" and "n mod base < base"
      using False base by (auto intro!: div_less_dividend)
    ultimately show ?thesis using less.IH by blast
  qed
qed

lemma digits_prefix_append:
  "list_all (\<lambda>c. digit_of base c \<noteq> None) a \<Longrightarrow>
   digits_prefix base (a @ b) = digits_prefix base a @ digits_prefix base b"
  by (induction a) auto

lemma list_all_digits_to_base:
  assumes "2 \<le> base" and "base \<le> 16"
  shows "list_all (\<lambda>c. digit_of base c \<noteq> None) (to_base base n)"
proof -
  have "digit_of base c \<noteq> None" if "c \<in> set (to_base base n)" for c
    using set_to_base [OF that assms(1)] digit_of_digit_char assms(2) by force
  then show ?thesis by (simp add: list_all_iff)
qed

lemma digits_value_append [simp]:
  "digits_value base (ds @ [d]) = digits_value base ds * base + d"
  by (simp add: digits_value_def)

lemma digits_value_to_base:
  assumes base: "2 \<le> base" "base \<le> 16"
  shows "digits_value base (digits_prefix base (to_base base n)) = n"
proof (induction n rule: less_induct)
  case (less n)
  show ?case
  proof (cases "n < base")
    case True
    then show ?thesis
      using base by (simp add: to_base_unfold [of base n] digit_of_digit_char digits_value_def)
  next
    case False
    then have "n div base < n"
      using base by (auto intro!: div_less_dividend)
    then have "digits_value base (digits_prefix base (to_base base (n div base))) = n div base"
      by (rule less.IH)
    moreover have "digits_prefix base (to_base base n) =
        digits_prefix base (to_base base (n div base)) @ [n mod base]"
      using False base
      by (simp add: to_base_unfold [of base n] digits_prefix_append [OF list_all_digits_to_base]
          digit_of_digit_char)
    ultimately show ?thesis by simp
  qed
qed

lemma digits_prefix_to_base:
  assumes "2 \<le> base" and "base \<le> 16" and "digits_prefix base rest = []"
  shows "digits_prefix base (to_base base n @ rest) = digits_prefix base (to_base base n)"
  using assms by (simp add: digits_prefix_append [OF list_all_digits_to_base])

text \<open>Printing a number and reading it back, followed by anything that is not a digit.\<close>

lemma from_chars_to_base:
  assumes base: "2 \<le> base" "base \<le> 16" and rest: "digits_prefix base rest = []"
  shows "from_chars base hi (to_base base n @ rest) = (if n \<le> hi then Some n else None)"
proof -
  have "digits_prefix base (to_base base n) \<noteq> []"
    using list_all_digits_to_base [OF base, of n] to_base_not_Nil [of base n]
    by (cases "to_base base n") auto
  then show ?thesis
    by (simp add: from_chars_def digits_prefix_to_base [OF base rest] digits_value_to_base [OF base]
        Let_def)
qed

lemma from_chars_to_string:
  "from_chars 10 hi (to_string n) = (if n \<le> hi then Some n else None)"
  using from_chars_to_base [of 10 "[]" hi n] by (simp add: to_string_def)

lemma from_chars_le: "from_chars base hi s = Some v \<Longrightarrow> v \<le> hi"
  by (auto simp: from_chars_def Let_def split: if_splits)

text \<open>The characters \<open>to_string\<close> and \<open>to_hex\<close> produce: no separator, blank or line end among them.\<close>

lemma set_to_base_class:
  assumes "c \<in> set (to_base base n)" and "2 \<le> base" and "base \<le> 16"
  shows "(48 \<le> (of_char c :: nat) \<and> (of_char c :: nat) \<le> 57)
     \<or> (97 \<le> (of_char c :: nat) \<and> (of_char c :: nat) \<le> 102)"
proof -
  obtain d where "d < 16" and "c = digit_char d"
    using set_to_base [OF assms(1,2)] assms(3) by (auto intro: less_le_trans)
  then show ?thesis using digit_char_class by simp
qed

end
