(* ===== verification/Error_Code.thy ===== *)
theory Error_Code
  imports Cpp_Std
begin

text \<open>
  \<open>include/vynx_http/error_code.h\<close>, \<open>src/error_code.cpp\<close> and \<open>include/vynx_http/result.h\<close>: the
  error codes with their messages, and the two shapes of \<open>result\<close>. A \<open>result<T>\<close> is a sum whose left
  side is the error; a \<open>result<void>\<close> holds one error code and counts as a success when that code is
  \<open>ok\<close>, so it is modelled as the code itself.
\<close>

subsection \<open>The enumeration\<close>

datatype error_code =
    ec_ok
  | connection_refused
  | connection_timeout
  | connection_reset
  | dns_resolution_failed
  | socket_error
  | address_unavailable
  | tls_handshake_failed
  | tls_certificate_error
  | tls_hostname_mismatch
  | tls_protocol_error
  | http_parse_error
  | http_invalid_method
  | http_invalid_version
  | http_invalid_header
  | http_invalid_body
  | http_chunked_encoding_error
  | http_content_length_mismatch
  | h2_frame_error
  | h2_compression_error
  | h2_stream_error
  | h2_flow_control_error
  | buffer_overflow
  | buffer_underflow
  | allocation_failed
  | resource_exhausted
  | operation_cancelled
  | operation_timeout
  | invalid_state
  | invalid_argument
  | decompression_error
  | compression_error
  | invalid_content_encoding

definition all_error_codes :: "error_code list" where
  "all_error_codes =
     [ec_ok, connection_refused, connection_timeout, connection_reset, dns_resolution_failed,
      socket_error, address_unavailable, tls_handshake_failed, tls_certificate_error,
      tls_hostname_mismatch, tls_protocol_error, http_parse_error, http_invalid_method,
      http_invalid_version, http_invalid_header, http_invalid_body, http_chunked_encoding_error,
      http_content_length_mismatch, h2_frame_error, h2_compression_error, h2_stream_error,
      h2_flow_control_error, buffer_overflow, buffer_underflow, allocation_failed,
      resource_exhausted, operation_cancelled, operation_timeout, invalid_state, invalid_argument,
      decompression_error, compression_error, invalid_content_encoding]"

text \<open>The underlying \<open>int\<close> of an enumerator: its position, since only the first one is given.\<close>

fun index_in :: "'a \<Rightarrow> 'a list \<Rightarrow> nat" where
  "index_in x [] = 0"
| "index_in x (y # ys) = (if x = y then 0 else Suc (index_in x ys))"

definition ec_value :: "error_code \<Rightarrow> int" where
  "ec_value c = int (index_in c all_error_codes)"

fun ec_message :: "error_code \<Rightarrow> string" where
  "ec_message ec_ok = ''success''"
| "ec_message connection_refused = ''connection refused''"
| "ec_message connection_timeout = ''connection timeout''"
| "ec_message connection_reset = ''connection reset''"
| "ec_message dns_resolution_failed = ''dns resolution failed''"
| "ec_message socket_error = ''socket error''"
| "ec_message address_unavailable = ''address unavailable''"
| "ec_message tls_handshake_failed = ''tls handshake failed''"
| "ec_message tls_certificate_error = ''tls certificate error''"
| "ec_message tls_hostname_mismatch = ''tls hostname mismatch''"
| "ec_message tls_protocol_error = ''tls protocol error''"
| "ec_message http_parse_error = ''http parse error''"
| "ec_message http_invalid_method = ''http invalid method''"
| "ec_message http_invalid_version = ''http invalid version''"
| "ec_message http_invalid_header = ''http invalid header''"
| "ec_message http_invalid_body = ''http invalid body''"
| "ec_message http_chunked_encoding_error = ''http chunked encoding error''"
| "ec_message http_content_length_mismatch = ''http content length mismatch''"
| "ec_message h2_frame_error = ''h2 frame error''"
| "ec_message h2_compression_error = ''h2 compression error''"
| "ec_message h2_stream_error = ''h2 stream error''"
| "ec_message h2_flow_control_error = ''h2 flow control error''"
| "ec_message buffer_overflow = ''buffer overflow''"
| "ec_message buffer_underflow = ''buffer underflow''"
| "ec_message allocation_failed = ''allocation failed''"
| "ec_message resource_exhausted = ''resource exhausted''"
| "ec_message operation_cancelled = ''operation cancelled''"
| "ec_message operation_timeout = ''operation timeout''"
| "ec_message invalid_state = ''invalid state''"
| "ec_message invalid_argument = ''invalid argument''"
| "ec_message decompression_error = ''decompression error''"
| "ec_message compression_error = ''compression error''"
| "ec_message invalid_content_encoding = ''invalid content encoding''"

text \<open>
  \<open>error_category::message\<close> casts any \<open>int\<close> to the enumeration; a value that is no enumerator falls
  into the default case.
\<close>

definition category_message :: "int \<Rightarrow> string" where
  "category_message ev =
     (case List.find (\<lambda>c. ec_value c = ev) all_error_codes of
        Some c \<Rightarrow> ec_message c
      | None \<Rightarrow> ''unknown error'')"

definition category_name :: string where
  "category_name = ''vynx_http''"

definition make_error_code :: "error_code \<Rightarrow> int \<times> string" where
  "make_error_code c = (ec_value c, category_name)"

definition make_error_condition :: "error_code \<Rightarrow> int \<times> string" where
  "make_error_condition c = (ec_value c, category_name)"

subsection \<open>\<open>result<T>\<close>\<close>

type_synonym 'a result = "error_code + 'a"

definition res_ok :: "'a result \<Rightarrow> bool" where
  "res_ok r = (case r of Inl _ \<Rightarrow> False | Inr _ \<Rightarrow> True)"

definition res_has_error :: "'a result \<Rightarrow> bool" where
  "res_has_error r = (case r of Inl _ \<Rightarrow> True | Inr _ \<Rightarrow> False)"

text \<open>The accessors throw \<open>std::runtime_error\<close> on the wrong alternative: \<open>None\<close>.\<close>

definition res_value :: "'a result \<Rightarrow> 'a option" where
  "res_value r = (case r of Inl _ \<Rightarrow> None | Inr v \<Rightarrow> Some v)"

definition res_error :: "'a result \<Rightarrow> error_code option" where
  "res_error r = (case r of Inl e \<Rightarrow> Some e | Inr _ \<Rightarrow> None)"

definition res_value_or :: "'a result \<Rightarrow> 'a \<Rightarrow> 'a" where
  "res_value_or r d = (case r of Inl _ \<Rightarrow> d | Inr v \<Rightarrow> v)"

definition res_and_then :: "'a result \<Rightarrow> ('a \<Rightarrow> 'b result) \<Rightarrow> 'b result" where
  "res_and_then r f = (case r of Inl e \<Rightarrow> Inl e | Inr v \<Rightarrow> f v)"

definition res_map :: "('a \<Rightarrow> 'b) \<Rightarrow> 'a result \<Rightarrow> 'b result" where
  "res_map f r = (case r of Inl e \<Rightarrow> Inl e | Inr v \<Rightarrow> Inr (f v))"

subsection \<open>\<open>result<void>\<close>\<close>

type_synonym vresult = error_code

definition v_ok :: "vresult \<Rightarrow> bool" where
  "v_ok r \<longleftrightarrow> r = ec_ok"

definition v_has_error :: "vresult \<Rightarrow> bool" where
  "v_has_error r \<longleftrightarrow> r \<noteq> ec_ok"

definition v_error :: "vresult \<Rightarrow> error_code option" where
  "v_error r = (if v_ok r then None else Some r)"

definition make_result_void :: vresult where
  "make_result_void = ec_ok"

lemmas vresult_defs = v_ok_def v_has_error_def make_result_void_def

subsection \<open>Facts\<close>

lemma all_error_codes_complete [simp]: "c \<in> set all_error_codes"
  by (cases c) (simp_all add: all_error_codes_def)

lemma index_in_inj: "x \<in> set xs \<Longrightarrow> index_in x xs = index_in y xs \<Longrightarrow> x = y"
  by (induction xs) (auto split: if_splits)

lemma ec_value_inj: "ec_value a = ec_value b \<longleftrightarrow> a = b"
  using index_in_inj [of a all_error_codes b] by (auto simp: ec_value_def)

lemma find_ec_value: "List.find (\<lambda>d. ec_value d = ec_value c) all_error_codes = Some c"
proof -
  have "List.find (\<lambda>d. ec_value d = ec_value c) all_error_codes \<noteq> None"
    by (auto simp: find_None_iff)
  then show ?thesis
    by (auto simp: find_Some_iff ec_value_inj)
qed

lemma category_message_ec_value: "category_message (ec_value c) = ec_message c"
  by (simp add: category_message_def find_ec_value)

lemma ec_message_inj: "ec_message a = ec_message b \<Longrightarrow> a = b"
proof -
  have "distinct (map ec_message all_error_codes)"
    by (simp add: all_error_codes_def)
  then have "inj_on ec_message (set all_error_codes)"
    by (simp add: distinct_map)
  then show "ec_message a = ec_message b \<Longrightarrow> a = b"
    by (simp add: inj_on_def)
qed

end
