(* ===== verification/Platform.thy ===== *)
theory Platform
  imports Error_Code Cpp_Std
begin

text \<open>
  \<open>include/vynx_http/platform.h\<close> and \<open>src/platform.cpp\<close>: the event flags, the poller interface as a
  record of operations over the outside world \<open>'w\<close>, and the three pollers that implement it over the
  system calls of their platform. A \<open>void*\<close> is a natural number, the null pointer is 0.
\<close>

unbundle bit_operations_syntax

type_synonym native_handle = int
type_synonym ptr = nat

definition invalid_handle :: native_handle where
  "invalid_handle = -1"

type_synonym timer_id = "64 word"

definition invalid_timer_id :: timer_id where
  "invalid_timer_id = 0"

subsection \<open>Event flags\<close>

type_synonym event_type = "32 word"

definition ev_none :: event_type where "ev_none = 0"
definition ev_read :: event_type where "ev_read = 1"
definition ev_write :: event_type where "ev_write = 2"
definition ev_accept :: event_type where "ev_accept = 4"
definition ev_connect :: event_type where "ev_connect = 8"
definition ev_error :: event_type where "ev_error = 16"
definition ev_hangup :: event_type where "ev_hangup = 32"

lemmas ev_defs = ev_none_def ev_read_def ev_write_def ev_accept_def ev_connect_def ev_error_def ev_hangup_def

definition ev_or :: "event_type \<Rightarrow> event_type \<Rightarrow> event_type" where
  "ev_or a b = a OR b"

definition ev_and :: "event_type \<Rightarrow> event_type \<Rightarrow> event_type" where
  "ev_and a b = a AND b"

definition has_flag :: "event_type \<Rightarrow> event_type \<Rightarrow> bool" where
  "has_flag events flag \<longleftrightarrow> events AND flag \<noteq> 0"

record event_data =
  ed_handle :: native_handle
  ed_events :: event_type
  ed_user_data :: ptr

subsection \<open>The poller interface\<close>

text \<open>\<open>wait\<close> fills the caller's array; the entries it filled are the list it returns.\<close>

record 'w poller =
  po_add :: "native_handle \<Rightarrow> event_type \<Rightarrow> ptr \<Rightarrow> 'w \<Rightarrow> vresult \<times> 'w"
  po_modify :: "native_handle \<Rightarrow> event_type \<Rightarrow> ptr \<Rightarrow> 'w \<Rightarrow> vresult \<times> 'w"
  po_remove :: "native_handle \<Rightarrow> 'w \<Rightarrow> vresult \<times> 'w"
  po_wait :: "nat \<Rightarrow> int \<Rightarrow> 'w \<Rightarrow> event_data list result \<times> 'w"

definition int_cast :: "int \<Rightarrow> int" where
  "int_cast i = sint (of_int i :: 32 word)"

lemma int_cast_id: "- (2 ^ 31) \<le> i \<Longrightarrow> i < 2 ^ 31 \<Longrightarrow> int_cast i = i"
  by (simp add: int_cast_def signed_of_int signed_take_bit_int_eq_self)

lemma int_cast_lt: "int_cast i < 2 ^ 31"
  using sint_lt [of "of_int i :: 32 word"] by (simp add: int_cast_def)

datatype wait_errno = EINTR | Wait_other

subsection \<open>epoll\<close>

datatype epoll_ctl_op = EPOLL_CTL_ADD | EPOLL_CTL_MOD | EPOLL_CTL_DEL

definition EPOLLIN :: "32 word" where "EPOLLIN = 1"
definition EPOLLOUT :: "32 word" where "EPOLLOUT = 4"
definition EPOLLERR :: "32 word" where "EPOLLERR = 8"
definition EPOLLHUP :: "32 word" where "EPOLLHUP = 0x10"
definition EPOLLRDHUP :: "32 word" where "EPOLLRDHUP = 0x2000"

lemmas epoll_flags = EPOLLIN_def EPOLLOUT_def EPOLLERR_def EPOLLHUP_def EPOLLRDHUP_def

record 'w epoll_api =
  ea_create :: "'w \<Rightarrow> int \<times> 'w"
  ea_close :: "int \<Rightarrow> 'w \<Rightarrow> 'w"
  ea_ctl :: "int \<Rightarrow> epoll_ctl_op \<Rightarrow> native_handle \<Rightarrow> (32 word \<times> ptr) option \<Rightarrow> 'w \<Rightarrow> int \<times> 'w"
  ea_wait :: "int \<Rightarrow> int \<Rightarrow> int \<Rightarrow> 'w \<Rightarrow> (int \<times> wait_errno \<times> (32 word \<times> ptr) list) \<times> 'w"

definition epoll_convert_events :: "event_type \<Rightarrow> 32 word" where
  "epoll_convert_events events =
     (let r0 = 0;
          r1 = (if has_flag events ev_read then r0 OR EPOLLIN else r0);
          r2 = (if has_flag events ev_write then r1 OR EPOLLOUT else r1);
          r3 = (if has_flag events ev_error then r2 OR EPOLLERR else r2);
          r4 = (if has_flag events ev_hangup then r3 OR EPOLLHUP else r3)
      in r4 OR EPOLLRDHUP)"

definition epoll_convert_back_events :: "32 word \<Rightarrow> event_type" where
  "epoll_convert_back_events events =
     (let r0 = ev_none;
          r1 = (if events AND EPOLLIN \<noteq> 0 then ev_or r0 ev_read else r0);
          r2 = (if events AND EPOLLOUT \<noteq> 0 then ev_or r1 ev_write else r1);
          r3 = (if events AND EPOLLERR \<noteq> 0 then ev_or r2 ev_error else r2)
      in if events AND (EPOLLHUP OR EPOLLRDHUP) \<noteq> 0 then ev_or r3 ev_hangup else r3)"

definition epoll_add :: "'w epoll_api \<Rightarrow> int \<Rightarrow> native_handle \<Rightarrow> event_type \<Rightarrow> ptr \<Rightarrow> 'w \<Rightarrow> vresult \<times> 'w" where
  "epoll_add api epfd h events ud w =
     (case ea_ctl api epfd EPOLL_CTL_ADD h (Some (epoll_convert_events events, ud)) w of
        (rc, w1) \<Rightarrow> (if rc = -1 then socket_error else make_result_void, w1))"

definition epoll_modify :: "'w epoll_api \<Rightarrow> int \<Rightarrow> native_handle \<Rightarrow> event_type \<Rightarrow> ptr \<Rightarrow> 'w \<Rightarrow> vresult \<times> 'w" where
  "epoll_modify api epfd h events ud w =
     (case ea_ctl api epfd EPOLL_CTL_MOD h (Some (epoll_convert_events events, ud)) w of
        (rc, w1) \<Rightarrow> (if rc = -1 then socket_error else make_result_void, w1))"

definition epoll_remove :: "'w epoll_api \<Rightarrow> int \<Rightarrow> native_handle \<Rightarrow> 'w \<Rightarrow> vresult \<times> 'w" where
  "epoll_remove api epfd h w =
     (case ea_ctl api epfd EPOLL_CTL_DEL h None w of
        (rc, w1) \<Rightarrow> (if rc = -1 then socket_error else make_result_void, w1))"

definition epoll_wait :: "'w epoll_api \<Rightarrow> int \<Rightarrow> nat \<Rightarrow> int \<Rightarrow> 'w \<Rightarrow> event_data list result \<times> 'w" where
  "epoll_wait api epfd max_events timeout_ms w =
     (case ea_wait api epfd (int_cast (int max_events)) timeout_ms w of
        ((n, err, evs), w1) \<Rightarrow>
          (if n = -1 then (if err = EINTR then Inr [] else Inl socket_error)
           else Inr (map (\<lambda>ev. \<lparr>ed_handle = -1, ed_events = epoll_convert_back_events (fst ev),
                                ed_user_data = snd ev\<rparr>) (take (nat n) evs)),
           w1))"

definition epoll_poller :: "'w epoll_api \<Rightarrow> int \<Rightarrow> 'w poller" where
  "epoll_poller api epfd =
     \<lparr>po_add = epoll_add api epfd, po_modify = epoll_modify api epfd,
      po_remove = epoll_remove api epfd, po_wait = epoll_wait api epfd\<rparr>"

definition create_epoll_poller :: "'w epoll_api \<Rightarrow> 'w \<Rightarrow> 'w poller result \<times> 'w" where
  "create_epoll_poller api w =
     (case ea_create api w of
        (fd, w1) \<Rightarrow> (if fd = -1 then Inl allocation_failed else Inr (epoll_poller api fd), w1))"

definition epoll_destroy :: "'w epoll_api \<Rightarrow> int \<Rightarrow> 'w \<Rightarrow> 'w" where
  "epoll_destroy api epfd w = (if epfd \<noteq> -1 then ea_close api epfd w else w)"

subsection \<open>kqueue\<close>

definition EVFILT_READ :: "16 word" where "EVFILT_READ = -1"
definition EVFILT_WRITE :: "16 word" where "EVFILT_WRITE = -2"
definition EV_ADD :: "16 word" where "EV_ADD = 1"
definition EV_DELETE :: "16 word" where "EV_DELETE = 2"
definition EV_ENABLE :: "16 word" where "EV_ENABLE = 4"
definition EV_ERROR :: "16 word" where "EV_ERROR = 0x4000"
definition EV_EOF :: "16 word" where "EV_EOF = 0x8000"

lemmas kqueue_flags = EVFILT_READ_def EVFILT_WRITE_def EV_ADD_def EV_DELETE_def EV_ENABLE_def EV_ERROR_def EV_EOF_def

record kevent =
  kv_ident :: int
  kv_filter :: "16 word"
  kv_flags :: "16 word"
  kv_udata :: ptr

text \<open>\<open>ka_wait\<close> is the call with no changes; its timeout is a pair of seconds and nanoseconds.\<close>

record 'w kqueue_api =
  ka_create :: "'w \<Rightarrow> int \<times> 'w"
  ka_close :: "int \<Rightarrow> 'w \<Rightarrow> 'w"
  ka_change :: "int \<Rightarrow> kevent \<Rightarrow> 'w \<Rightarrow> int \<times> 'w"
  ka_wait :: "int \<Rightarrow> int \<Rightarrow> (int \<times> int) option \<Rightarrow> 'w \<Rightarrow> (int \<times> wait_errno \<times> kevent list) \<times> 'w"

definition kq_convert_filter :: "event_type \<Rightarrow> 16 word" where
  "kq_convert_filter events =
     (if has_flag events ev_read then EVFILT_READ
      else if has_flag events ev_write then EVFILT_WRITE else EVFILT_READ)"

definition kq_convert_back_events :: "kevent \<Rightarrow> event_type" where
  "kq_convert_back_events k =
     (let r0 = ev_none;
          r1 = (if kv_filter k = EVFILT_READ then ev_or r0 ev_read else r0);
          r2 = (if kv_filter k = EVFILT_WRITE then ev_or r1 ev_write else r1);
          r3 = (if kv_flags k AND EV_ERROR \<noteq> 0 then ev_or r2 ev_error else r2)
      in if kv_flags k AND EV_EOF \<noteq> 0 then ev_or r3 ev_hangup else r3)"

definition kq_add :: "'w kqueue_api \<Rightarrow> int \<Rightarrow> native_handle \<Rightarrow> event_type \<Rightarrow> ptr \<Rightarrow> 'w \<Rightarrow> vresult \<times> 'w" where
  "kq_add api kq h events ud w =
     (case ka_change api kq \<lparr>kv_ident = h, kv_filter = kq_convert_filter events,
                             kv_flags = EV_ADD OR EV_ENABLE, kv_udata = ud\<rparr> w of
        (rc, w1) \<Rightarrow> (if rc = -1 then socket_error else make_result_void, w1))"

definition kq_remove :: "'w kqueue_api \<Rightarrow> int \<Rightarrow> native_handle \<Rightarrow> 'w \<Rightarrow> vresult \<times> 'w" where
  "kq_remove api kq h w =
     (case ka_change api kq \<lparr>kv_ident = h, kv_filter = EVFILT_READ, kv_flags = EV_DELETE, kv_udata = 0\<rparr> w of
        (_, w1) \<Rightarrow>
          (case ka_change api kq \<lparr>kv_ident = h, kv_filter = EVFILT_WRITE, kv_flags = EV_DELETE, kv_udata = 0\<rparr> w1 of
             (_, w2) \<Rightarrow> (make_result_void, w2)))"

definition kq_modify :: "'w kqueue_api \<Rightarrow> int \<Rightarrow> native_handle \<Rightarrow> event_type \<Rightarrow> ptr \<Rightarrow> 'w \<Rightarrow> vresult \<times> 'w" where
  "kq_modify api kq h events ud w =
     (case kq_remove api kq h w of
        (r, w1) \<Rightarrow> if v_has_error r then (r, w1) else kq_add api kq h events ud w1)"

definition kq_timeout :: "int \<Rightarrow> (int \<times> int) option" where
  "kq_timeout timeout_ms =
     (if timeout_ms \<ge> 0 then Some (timeout_ms div 1000, (timeout_ms mod 1000) * 1000000) else None)"

definition kq_wait :: "'w kqueue_api \<Rightarrow> int \<Rightarrow> nat \<Rightarrow> int \<Rightarrow> 'w \<Rightarrow> event_data list result \<times> 'w" where
  "kq_wait api kq max_events timeout_ms w =
     (case ka_wait api kq (int_cast (int max_events)) (kq_timeout timeout_ms) w of
        ((n, err, evs), w1) \<Rightarrow>
          (if n = -1 then (if err = EINTR then Inr [] else Inl socket_error)
           else Inr (map (\<lambda>k. \<lparr>ed_handle = int_cast (kv_ident k), ed_events = kq_convert_back_events k,
                               ed_user_data = kv_udata k\<rparr>) (take (nat n) evs)),
           w1))"

definition kqueue_poller :: "'w kqueue_api \<Rightarrow> int \<Rightarrow> 'w poller" where
  "kqueue_poller api kq =
     \<lparr>po_add = kq_add api kq, po_modify = kq_modify api kq,
      po_remove = kq_remove api kq, po_wait = kq_wait api kq\<rparr>"

definition create_kqueue_poller :: "'w kqueue_api \<Rightarrow> 'w \<Rightarrow> 'w poller result \<times> 'w" where
  "create_kqueue_poller api w =
     (case ka_create api w of
        (fd, w1) \<Rightarrow> (if fd = -1 then Inl allocation_failed else Inr (kqueue_poller api fd), w1))"

definition kqueue_destroy :: "'w kqueue_api \<Rightarrow> int \<Rightarrow> 'w \<Rightarrow> 'w" where
  "kqueue_destroy api kq w = (if kq \<noteq> -1 then ka_close api kq w else w)"

subsection \<open>I/O completion ports\<close>

text \<open>
  A port is a handle, \<open>None\<close> for \<open>nullptr\<close>. \<open>ia_get\<close> returns whether the call succeeded, whether the
  error of a failed call is \<open>WAIT_TIMEOUT\<close>, and the completion keys of the entries.
\<close>

record 'w iocp_api =
  ia_create :: "'w \<Rightarrow> nat option \<times> 'w"
  ia_associate :: "native_handle \<Rightarrow> nat \<Rightarrow> ptr \<Rightarrow> 'w \<Rightarrow> nat option \<times> 'w"
  ia_get :: "nat \<Rightarrow> 32 word \<Rightarrow> 32 word \<Rightarrow> 'w \<Rightarrow> (bool \<times> bool \<times> ptr list) \<times> 'w"
  ia_close :: "nat \<Rightarrow> 'w \<Rightarrow> 'w"

definition INFINITE :: "32 word" where "INFINITE = 0xFFFFFFFF"

definition iocp_add :: "'w iocp_api \<Rightarrow> nat \<Rightarrow> native_handle \<Rightarrow> event_type \<Rightarrow> ptr \<Rightarrow> 'w \<Rightarrow> vresult \<times> 'w" where
  "iocp_add api port h events ud w =
     (case ia_associate api h port ud w of
        (r, w1) \<Rightarrow> (if r = None then socket_error else make_result_void, w1))"

definition iocp_modify :: "'w iocp_api \<Rightarrow> nat \<Rightarrow> native_handle \<Rightarrow> event_type \<Rightarrow> ptr \<Rightarrow> 'w \<Rightarrow> vresult \<times> 'w" where
  "iocp_modify api port h events ud w = iocp_add api port h events ud w"

definition iocp_remove :: "native_handle \<Rightarrow> 'w \<Rightarrow> vresult \<times> 'w" where
  "iocp_remove h w = (make_result_void, w)"

definition iocp_wait :: "'w iocp_api \<Rightarrow> nat \<Rightarrow> nat \<Rightarrow> int \<Rightarrow> 'w \<Rightarrow> event_data list result \<times> 'w" where
  "iocp_wait api port max_events timeout_ms w =
     (case ia_get api port (of_nat max_events) (if timeout_ms \<ge> 0 then of_int timeout_ms else INFINITE) w of
        ((success, timed_out, keys), w1) \<Rightarrow>
          (if \<not> success then (if timed_out then Inr [] else Inl socket_error)
           else Inr (map (\<lambda>k. \<lparr>ed_handle = -1, ed_events = ev_read, ed_user_data = k\<rparr>) keys),
           w1))"

definition iocp_poller :: "'w iocp_api \<Rightarrow> nat \<Rightarrow> 'w poller" where
  "iocp_poller api port =
     \<lparr>po_add = iocp_add api port, po_modify = iocp_modify api port,
      po_remove = iocp_remove, po_wait = iocp_wait api port\<rparr>"

definition create_iocp_poller :: "'w iocp_api \<Rightarrow> 'w \<Rightarrow> 'w poller result \<times> 'w" where
  "create_iocp_poller api w =
     (case ia_create api w of
        (None, w1) \<Rightarrow> (Inl allocation_failed, w1)
      | (Some port, w1) \<Rightarrow> (Inr (iocp_poller api port), w1))"

definition iocp_destroy :: "'w iocp_api \<Rightarrow> nat option \<Rightarrow> 'w \<Rightarrow> 'w" where
  "iocp_destroy api port w = (case port of None \<Rightarrow> w | Some p \<Rightarrow> ia_close api p w)"

subsection \<open>The poller of the platform\<close>

datatype 'w platform = Linux "'w epoll_api" | Apple "'w kqueue_api" | Windows "'w iocp_api" | Other_platform

definition create_poller :: "'w platform \<Rightarrow> 'w \<Rightarrow> 'w poller result \<times> 'w" where
  "create_poller pf w =
     (case pf of
        Linux api \<Rightarrow> create_epoll_poller api w
      | Apple api \<Rightarrow> create_kqueue_poller api w
      | Windows api \<Rightarrow> create_iocp_poller api w
      | Other_platform \<Rightarrow> (Inl invalid_state, w))"

definition poller_create :: "'w platform \<Rightarrow> 'w \<Rightarrow> 'w poller result \<times> 'w" where
  "poller_create pf w = create_poller pf w"

end
