(* ===== verification/Tcp_Socket.thy ===== *)
theory Tcp_Socket
  imports Error_Code Cpp_Std
begin

text \<open>
  \<open>include/vynx_http/tcp_socket.h\<close> and \<open>src/tcp_socket.cpp\<close>, the POSIX branch. The system calls are the
  fields of a record over the state \<open>'w\<close> of the outside world: each takes the world and returns its
  result, \<open>errno\<close> where the code reads it, and the world after the call.
\<close>

datatype socket_state = Disconnected | Connecting | Connected | Closing | Sock_error

record socket_options =
  so_keep_alive :: bool
  so_no_delay :: bool
  so_keep_alive_idle :: int
  so_keep_alive_interval :: int
  so_keep_alive_count :: int
  so_receive_buffer_size :: int
  so_send_buffer_size :: int
  so_connect_timeout :: int
  so_read_timeout :: int
  so_write_timeout :: int

definition socket_options_default :: socket_options where
  "socket_options_default =
     \<lparr>so_keep_alive = True, so_no_delay = True, so_keep_alive_idle = 60000, so_keep_alive_interval = 30000,
      so_keep_alive_count = 3, so_receive_buffer_size = 0, so_send_buffer_size = 0,
      so_connect_timeout = 30000, so_read_timeout = 60000, so_write_timeout = 60000\<rparr>"

record ipv4_address =
  v4_bytes :: "8 word list"
  v4_port :: "16 word"

record ipv6_address =
  v6_bytes :: "8 word list"
  v6_port :: "16 word"
  v6_scope_id :: "32 word"

datatype socket_address = Ipv4 ipv4_address | Ipv6 ipv6_address

record socket_stats =
  ss_bytes_sent :: "64 word"
  ss_bytes_received :: "64 word"
  ss_packets_sent :: "64 word"
  ss_packets_received :: "64 word"
  ss_connected_time :: int
  ss_last_active_time :: int

definition socket_stats_default :: socket_stats where
  "socket_stats_default =
     \<lparr>ss_bytes_sent = 0, ss_bytes_received = 0, ss_packets_sent = 0, ss_packets_received = 0,
      ss_connected_time = 0, ss_last_active_time = 0\<rparr>"

record tcp_socket =
  sk_fd :: int
  sk_state :: socket_state
  sk_options :: socket_options
  sk_stats :: socket_stats
  sk_driver :: "nat option"
  sk_non_blocking :: bool

subsection \<open>The system calls\<close>

datatype errno = EAGAIN | EWOULDBLOCK | EINPROGRESS | EALREADY | ENOTCONN | E_other

datatype sockopt = SO_KEEPALIVE | TCP_NODELAY

datatype shut_how = SHUT_RD | SHUT_WR | SHUT_RDWR

text \<open>
  The socket addresses of the system, by their family: ports are stored in network order, so the functions
  that convert them swap the two bytes, the machine being little-endian.
\<close>

record sockaddr_in =
  sin_port :: "16 word"
  sin_addr :: "8 word list"

record sockaddr_in6 =
  sin6_port :: "16 word"
  sin6_flowinfo :: "32 word"
  sin6_addr :: "8 word list"
  sin6_scope_id :: "32 word"

datatype sockaddr = AF_inet sockaddr_in | AF_inet6 sockaddr_in6 | AF_other

definition htons :: "16 word \<Rightarrow> 16 word" where
  "htons p = or (push_bit 8 p) (drop_bit 8 p)"

definition ntohs :: "16 word \<Rightarrow> 16 word" where
  "ntohs p = htons p"

definition address_to_sockaddr :: "socket_address \<Rightarrow> sockaddr" where
  "address_to_sockaddr addr =
     (case addr of
        Ipv4 a \<Rightarrow> AF_inet \<lparr>sin_port = htons (v4_port a), sin_addr = v4_bytes a\<rparr>
      | Ipv6 a \<Rightarrow> AF_inet6 \<lparr>sin6_port = htons (v6_port a), sin6_flowinfo = 0, sin6_addr = v6_bytes a,
                            sin6_scope_id = v6_scope_id a\<rparr>)"

definition address_of_in :: "sockaddr_in \<Rightarrow> ipv4_address" where
  "address_of_in a = \<lparr>v4_bytes = sin_addr a, v4_port = ntohs (sin_port a)\<rparr>"

definition address_of_in6 :: "sockaddr_in6 \<Rightarrow> ipv6_address" where
  "address_of_in6 a = \<lparr>v6_bytes = sin6_addr a, v6_port = ntohs (sin6_port a), v6_scope_id = sin6_scope_id a\<rparr>"

record 'w os_api =
  os_socket :: "'w \<Rightarrow> int \<times> 'w"
  os_close :: "int \<Rightarrow> 'w \<Rightarrow> int \<times> 'w"
  os_connect :: "int \<Rightarrow> sockaddr \<Rightarrow> 'w \<Rightarrow> (int \<times> errno) \<times> 'w"
  os_send :: "int \<Rightarrow> byte list \<Rightarrow> 'w \<Rightarrow> (int \<times> errno) \<times> 'w"
  os_recv :: "int \<Rightarrow> nat \<Rightarrow> 'w \<Rightarrow> (int \<times> errno \<times> byte list) \<times> 'w"
  os_shutdown :: "int \<Rightarrow> shut_how \<Rightarrow> 'w \<Rightarrow> (int \<times> errno) \<times> 'w"
  os_getfl :: "int \<Rightarrow> 'w \<Rightarrow> int \<times> 'w"
  os_setfl :: "int \<Rightarrow> int \<Rightarrow> 'w \<Rightarrow> int \<times> 'w"
  os_setsockopt :: "int \<Rightarrow> sockopt \<Rightarrow> bool \<Rightarrow> 'w \<Rightarrow> int \<times> 'w"
  os_getsockname :: "int \<Rightarrow> 'w \<Rightarrow> (int \<times> sockaddr) \<times> 'w"
  os_getpeername :: "int \<Rightarrow> 'w \<Rightarrow> (int \<times> sockaddr) \<times> 'w"
  os_getaddrinfo :: "string \<Rightarrow> string \<Rightarrow> 'w \<Rightarrow> (int \<times> sockaddr list) \<times> 'w"
  os_now :: "'w \<Rightarrow> int \<times> 'w"

text \<open>\<open>O_NONBLOCK\<close> is a bit of the file status flags; its place is the platform's, here that of Linux.\<close>

definition o_nonblock :: int where
  "o_nonblock = 2048"

subsection \<open>Resolving an address\<close>

fun first_inet :: "sockaddr list \<Rightarrow> ipv4_address option" where
  "first_inet [] = None"
| "first_inet (AF_inet a # as) = Some (address_of_in a)"
| "first_inet (_ # as) = first_inet as"

fun first_inet6 :: "sockaddr list \<Rightarrow> ipv6_address option" where
  "first_inet6 [] = None"
| "first_inet6 (AF_inet6 a # as) = Some (address_of_in6 a)"
| "first_inet6 (_ # as) = first_inet6 as"

definition resolve_address :: "'w os_api \<Rightarrow> string \<Rightarrow> 16 word \<Rightarrow> 'w \<Rightarrow> socket_address result \<times> 'w" where
  "resolve_address os host port w =
     (case os_getaddrinfo os host (to_string (unat port)) w of
        ((status, infos), w') \<Rightarrow>
          (if status \<noteq> 0 then Inl dns_resolution_failed
           else case first_inet infos of
                  Some a \<Rightarrow> Inr (Ipv4 a)
                | None \<Rightarrow> (case first_inet6 infos of
                             Some a \<Rightarrow> Inr (Ipv6 a)
                           | None \<Rightarrow> Inl dns_resolution_failed), w'))"

subsection \<open>The operations\<close>

definition tcp_invalid :: tcp_socket where
  "tcp_invalid =
     \<lparr>sk_fd = -1, sk_state = Disconnected, sk_options = socket_options_default,
      sk_stats = socket_stats_default, sk_driver = None, sk_non_blocking = False\<rparr>"

definition tcp_create :: "'w os_api \<Rightarrow> 'w \<Rightarrow> tcp_socket result \<times> 'w" where
  "tcp_create os w =
     (case os_socket os w of
        (fd, w') \<Rightarrow> (if fd = -1 then Inl socket_error
                     else Inr (tcp_invalid\<lparr>sk_fd := fd, sk_state := Disconnected\<rparr>), w'))"

definition tcp_from_fd :: "'w os_api \<Rightarrow> int \<Rightarrow> 'w \<Rightarrow> tcp_socket result \<times> 'w" where
  "tcp_from_fd os fd w =
     (case os_now os w of
        (t, w') \<Rightarrow> (Inr (tcp_invalid\<lparr>sk_fd := fd, sk_state := Connected,
                      sk_stats := socket_stats_default\<lparr>ss_connected_time := t, ss_last_active_time := t\<rparr>\<rparr>), w'))"

definition tcp_connect :: "'w os_api \<Rightarrow> string \<Rightarrow> 16 word \<Rightarrow> tcp_socket \<Rightarrow> 'w \<Rightarrow> vresult \<times> tcp_socket \<times> 'w" where
  "tcp_connect os host port s w =
     (if sk_state s \<noteq> Disconnected then (invalid_state, s, w)
      else case resolve_address os host port w of
             (Inl e, w1) \<Rightarrow> (e, s, w1)
           | (Inr addr, w1) \<Rightarrow>
               let s1 = s\<lparr>sk_state := Connecting\<rparr>
               in case os_connect os (sk_fd s1) (address_to_sockaddr addr) w1 of
                    ((rc, err), w2) \<Rightarrow>
                      if rc = 0
                      then (case os_now os w2 of
                              (t, w3) \<Rightarrow> (make_result_void,
                                s1\<lparr>sk_state := Connected,
                                   sk_stats := (sk_stats s1)\<lparr>ss_connected_time := t, ss_last_active_time := t\<rparr>\<rparr>,
                                w3))
                      else if err = EINPROGRESS \<or> err = EALREADY then (make_result_void, s1, w2)
                      else (connection_refused, s1\<lparr>sk_state := Sock_error\<rparr>, w2))"

definition tcp_send :: "'w os_api \<Rightarrow> byte list \<Rightarrow> tcp_socket \<Rightarrow> 'w \<Rightarrow> nat result \<times> tcp_socket \<times> 'w" where
  "tcp_send os data s w =
     (if sk_state s \<noteq> Connected then (Inl invalid_state, s, w)
      else case os_send os (sk_fd s) data w of
             ((n, err), w1) \<Rightarrow>
               if n \<ge> 0
               then (case os_now os w1 of
                       (t, w2) \<Rightarrow> (Inr (nat n),
                         s\<lparr>sk_stats := (sk_stats s)\<lparr>ss_bytes_sent := ss_bytes_sent (sk_stats s) + of_int n,
                             ss_packets_sent := ss_packets_sent (sk_stats s) + 1, ss_last_active_time := t\<rparr>\<rparr>,
                         w2))
               else if err = EAGAIN \<or> err = EWOULDBLOCK then (Inr 0, s, w1)
               else (Inl socket_error, s, w1))"

text \<open>The bytes received are what the call stored at the start of the caller's buffer of \<open>room\<close> bytes.\<close>

definition tcp_receive :: "'w os_api \<Rightarrow> nat \<Rightarrow> tcp_socket \<Rightarrow> 'w \<Rightarrow> (nat result \<times> byte list) \<times> tcp_socket \<times> 'w" where
  "tcp_receive os room s w =
     (if sk_state s \<noteq> Connected then ((Inl invalid_state, []), s, w)
      else case os_recv os (sk_fd s) room w of
             ((n, err, data), w1) \<Rightarrow>
               if n > 0
               then (case os_now os w1 of
                       (t, w2) \<Rightarrow> ((Inr (nat n), data),
                         s\<lparr>sk_stats := (sk_stats s)\<lparr>ss_bytes_received := ss_bytes_received (sk_stats s) + of_int n,
                             ss_packets_received := ss_packets_received (sk_stats s) + 1,
                             ss_last_active_time := t\<rparr>\<rparr>,
                         w2))
               else if n = 0 then ((Inl connection_reset, []), s\<lparr>sk_state := Disconnected\<rparr>, w1)
               else if err = EAGAIN \<or> err = EWOULDBLOCK then ((Inr 0, []), s, w1)
               else ((Inl socket_error, []), s, w1))"

definition tcp_close :: "'w os_api \<Rightarrow> tcp_socket \<Rightarrow> 'w \<Rightarrow> vresult \<times> tcp_socket \<times> 'w" where
  "tcp_close os s w =
     (if sk_fd s = -1 then (make_result_void, s, w)
      else let s1 = s\<lparr>sk_state := Closing\<rparr>
           in case os_close os (sk_fd s1) w of
                (rc, w1) \<Rightarrow>
                  if rc \<noteq> 0 then (socket_error, s1\<lparr>sk_state := Sock_error\<rparr>, w1)
                  else (make_result_void, s1\<lparr>sk_fd := -1, sk_state := Disconnected\<rparr>, w1))"

text \<open>The destructor closes a descriptor that is still there and ignores the outcome.\<close>

definition tcp_destroy :: "'w os_api \<Rightarrow> tcp_socket \<Rightarrow> 'w \<Rightarrow> 'w" where
  "tcp_destroy os s w = (if sk_fd s \<noteq> -1 then snd (os_close os (sk_fd s) w) else w)"

definition tcp_shutdown :: "'w os_api \<Rightarrow> bool \<Rightarrow> bool \<Rightarrow> tcp_socket \<Rightarrow> 'w \<Rightarrow> vresult \<times> 'w" where
  "tcp_shutdown os snd_side rcv_side s w =
     (if sk_fd s = -1 then (make_result_void, w)
      else case (if snd_side \<and> rcv_side then Some SHUT_RDWR
                 else if snd_side then Some SHUT_WR
                 else if rcv_side then Some SHUT_RD else None) of
             None \<Rightarrow> (make_result_void, w)
           | Some how \<Rightarrow>
               (case os_shutdown os (sk_fd s) how w of
                  ((rc, err), w1) \<Rightarrow>
                    (if rc \<noteq> 0 \<and> err \<noteq> ENOTCONN then socket_error else make_result_void, w1)))"

definition addr_of_name :: "int \<times> sockaddr \<Rightarrow> socket_address result" where
  "addr_of_name r =
     (if fst r \<noteq> 0 then Inl socket_error
      else case snd r of
             AF_inet a \<Rightarrow> Inr (Ipv4 (address_of_in a))
           | AF_inet6 a \<Rightarrow> Inr (Ipv6 (address_of_in6 a))
           | AF_other \<Rightarrow> Inl invalid_argument)"

definition tcp_local_address :: "'w os_api \<Rightarrow> tcp_socket \<Rightarrow> 'w \<Rightarrow> socket_address result \<times> 'w" where
  "tcp_local_address os s w =
     (if sk_fd s = -1 then (Inl invalid_state, w)
      else case os_getsockname os (sk_fd s) w of (r, w1) \<Rightarrow> (addr_of_name r, w1))"

definition tcp_remote_address :: "'w os_api \<Rightarrow> tcp_socket \<Rightarrow> 'w \<Rightarrow> socket_address result \<times> 'w" where
  "tcp_remote_address os s w =
     (if sk_fd s = -1 then (Inl invalid_state, w)
      else case os_getpeername os (sk_fd s) w of (r, w1) \<Rightarrow> (addr_of_name r, w1))"

definition tcp_set_options :: "'w os_api \<Rightarrow> socket_options \<Rightarrow> tcp_socket \<Rightarrow> 'w \<Rightarrow> vresult \<times> tcp_socket \<times> 'w" where
  "tcp_set_options os opts s w =
     (case os_setsockopt os (sk_fd s) SO_KEEPALIVE (so_keep_alive opts) w of
        (rc1, w1) \<Rightarrow>
          if rc1 \<noteq> 0 then (socket_error, s, w1)
          else case os_setsockopt os (sk_fd s) TCP_NODELAY (so_no_delay opts) w1 of
                 (rc2, w2) \<Rightarrow>
                   if rc2 \<noteq> 0 then (socket_error, s, w2)
                   else (make_result_void, s\<lparr>sk_options := opts\<rparr>, w2))"

definition tcp_set_non_blocking :: "'w os_api \<Rightarrow> bool \<Rightarrow> tcp_socket \<Rightarrow> 'w \<Rightarrow> vresult \<times> tcp_socket \<times> 'w" where
  "tcp_set_non_blocking os enable s w =
     (case os_getfl os (sk_fd s) w of
        (flags, w1) \<Rightarrow>
          if flags = -1 then (socket_error, s, w1)
          else let flags' = (if enable then or flags o_nonblock else and flags (not o_nonblock))
               in case os_setfl os (sk_fd s) flags' w1 of
                    (rc, w2) \<Rightarrow>
                      if rc = -1 then (socket_error, s, w2)
                      else (make_result_void, s\<lparr>sk_non_blocking := enable\<rparr>, w2))"

definition tcp_set_event_driver :: "nat option \<Rightarrow> tcp_socket \<Rightarrow> tcp_socket" where
  "tcp_set_event_driver d s = s\<lparr>sk_driver := d\<rparr>"

definition tcp_valid :: "tcp_socket \<Rightarrow> bool" where
  "tcp_valid s \<longleftrightarrow> sk_fd s \<noteq> -1"

text \<open>\<open>inet_ntop\<close> is a parameter for either family.\<close>

definition address_to_string :: "(8 word list \<Rightarrow> string) \<Rightarrow> (8 word list \<Rightarrow> string) \<Rightarrow> socket_address \<Rightarrow> string" where
  "address_to_string ntop4 ntop6 addr =
     (case addr of
        Ipv4 a \<Rightarrow> ntop4 (v4_bytes a) @ '':'' @ to_string (unat (v4_port a))
      | Ipv6 a \<Rightarrow> ''['' @ ntop6 (v6_bytes a) @ '']:'' @ to_string (unat (v6_port a)))"

subsection \<open>Addresses in and out of the system\<close>

lemma htons_htons [simp]: "htons (htons p) = p"
  by (rule bit_word_eqI) (auto simp: htons_def bit_simps)

lemma ntohs_htons [simp]: "ntohs (htons p) = p" "htons (ntohs p) = p"
  by (simp_all add: ntohs_def)

text \<open>The low byte, the first in memory, is the high byte of the port.\<close>

lemma htons_network_order: "(ucast (htons p) :: 8 word) = ucast (drop_bit 8 p)"
  by (rule bit_word_eqI) (auto simp: htons_def bit_simps)

lemma sockaddr_roundtrip: "addr_of_name (0, address_to_sockaddr a) = Inr a"
  by (cases a) (simp_all add: addr_of_name_def address_to_sockaddr_def address_of_in_def address_of_in6_def)

text \<open>\<open>connect\<close> hands the system the first IPv4 answer as it came, or else the first IPv6 answer without its flow label.\<close>

lemma address_of_in_back [simp]: "address_to_sockaddr (Ipv4 (address_of_in a)) = AF_inet a"
  by (simp add: address_to_sockaddr_def address_of_in_def)

lemma address_of_in6_back [simp]: "address_to_sockaddr (Ipv6 (address_of_in6 a)) = AF_inet6 (a\<lparr>sin6_flowinfo := 0\<rparr>)"
  by (simp add: address_to_sockaddr_def address_of_in6_def)

subsection \<open>The state machine\<close>

text \<open>
  The operations that change the state of one socket. An operation applies to the socket alone; the
  world it finds may have changed in between.
\<close>

inductive tcp_step :: "'w os_api \<Rightarrow> tcp_socket \<Rightarrow> tcp_socket \<Rightarrow> bool" for os where
  step_connect: "tcp_connect os host port s w = (r, s', w') \<Longrightarrow> tcp_step os s s'"
| step_send: "tcp_send os data s w = (r, s', w') \<Longrightarrow> tcp_step os s s'"
| step_receive: "tcp_receive os n s w = (r, s', w') \<Longrightarrow> tcp_step os s s'"
| step_close: "tcp_close os s w = (r, s', w') \<Longrightarrow> tcp_step os s s'"
| step_options: "tcp_set_options os opts s w = (r, s', w') \<Longrightarrow> tcp_step os s s'"
| step_non_blocking: "tcp_set_non_blocking os e s w = (r, s', w') \<Longrightarrow> tcp_step os s s'"
| step_driver: "tcp_step os s (tcp_set_event_driver d s)"

inductive_simps tcp_step_iff: "tcp_step os s s'"

definition may_follow :: "socket_state \<Rightarrow> socket_state \<Rightarrow> bool" where
  "may_follow a b \<longleftrightarrow>
     a = b \<or> (a = Disconnected \<and> b \<in> {Connecting, Connected, Sock_error})
     \<or> (a = Connected \<and> b = Disconnected) \<or> b = Sock_error \<or> b = Disconnected"

lemma tcp_send_frame: "tcp_send os data s w = (r, s', w') \<Longrightarrow> sk_state s' = sk_state s \<and> sk_fd s' = sk_fd s"
  by (auto simp: tcp_send_def split: if_splits prod.splits)

lemma tcp_receive_frame:
  "tcp_receive os n s w = (r, s', w') \<Longrightarrow>
   sk_fd s' = sk_fd s \<and> (sk_state s' = sk_state s \<or> sk_state s = Connected \<and> sk_state s' = Disconnected)"
  by (auto simp: tcp_receive_def split: if_splits prod.splits)

lemma tcp_set_options_frame:
  "tcp_set_options os opts s w = (r, s', w') \<Longrightarrow> sk_state s' = sk_state s \<and> sk_fd s' = sk_fd s"
  by (auto simp: tcp_set_options_def split: if_splits prod.splits)

lemma tcp_set_non_blocking_frame:
  "tcp_set_non_blocking os e s w = (r, s', w') \<Longrightarrow> sk_state s' = sk_state s \<and> sk_fd s' = sk_fd s"
  by (auto simp: tcp_set_non_blocking_def Let_def split: if_splits prod.splits)

lemma tcp_connect_frame:
  "tcp_connect os host port s w = (r, s', w') \<Longrightarrow>
   sk_fd s' = sk_fd s \<and> (sk_state s' = sk_state s
     \<or> sk_state s = Disconnected \<and> sk_state s' \<in> {Connecting, Connected, Sock_error})"
  by (auto simp: tcp_connect_def Let_def split: if_splits prod.splits sum.splits)

lemma tcp_connect_ok:
  "tcp_connect os host port s w = (r, s', w') \<Longrightarrow> v_ok r \<Longrightarrow>
   sk_state s' = Connected \<or> sk_state s' = Connecting"
  by (auto simp: tcp_connect_def Let_def resolve_address_def vresult_defs
      split: if_splits prod.splits sum.splits option.splits)

lemma tcp_close_frame:
  "tcp_close os s w = (r, s', w') \<Longrightarrow>
   (r = ec_ok \<longrightarrow> sk_fd s' = -1) \<and> (r = ec_ok \<and> sk_fd s \<noteq> -1 \<longrightarrow> sk_state s' = Disconnected)
   \<and> (r \<noteq> ec_ok \<longrightarrow> sk_fd s' = sk_fd s \<and> sk_state s' = Sock_error \<and> sk_fd s \<noteq> -1)
   \<and> (sk_fd s = -1 \<longrightarrow> s' = s)"
  by (auto simp: tcp_close_def Let_def vresult_defs split: if_splits prod.splits)

lemma tcp_close_next: "tcp_close os s w = (r, s', w') \<Longrightarrow> may_follow (sk_state s) (sk_state s')"
  by (auto simp: tcp_close_def Let_def may_follow_def split: if_splits prod.splits)

lemma tcp_step_next: "tcp_step os s s' \<Longrightarrow> may_follow (sk_state s) (sk_state s')"
  by (induction rule: tcp_step.induct)
    (auto simp: may_follow_def tcp_set_event_driver_def
      dest: tcp_connect_frame tcp_send_frame tcp_receive_frame tcp_set_options_frame
        tcp_set_non_blocking_frame tcp_close_next)

text \<open>A connect that is in progress stays so: nothing but \<open>close\<close> leaves the state, and nothing is sent or received in it.\<close>

lemma connecting_only_closes:
  "tcp_step os s s' \<Longrightarrow> sk_state s = Connecting \<Longrightarrow>
   sk_state s' = Connecting \<or> (\<exists>w r w'. tcp_close os s w = (r, s', w'))"
  by (induction rule: tcp_step.induct)
    (auto simp: tcp_set_event_driver_def
      dest: tcp_connect_frame tcp_send_frame tcp_receive_frame tcp_set_options_frame tcp_set_non_blocking_frame)

lemma connecting_no_transfer:
  "sk_state s = Connecting \<Longrightarrow>
   tcp_send os data s w = (Inl invalid_state, s, w) \<and> tcp_receive os n s w = ((Inl invalid_state, []), s, w)"
  by (simp add: tcp_send_def tcp_receive_def)

end
