(* ===== verification/Event_Loop.thy ===== *)
theory Event_Loop
  imports Platform Tcp_Socket
begin

text \<open>
  \<open>include/vynx_http/event_loop.h\<close> and \<open>src/event_loop.cpp\<close>. Timer callbacks and posted tasks are
  closures: the loop stores their identities \<open>'c\<close> and \<open>'k\<close>, and the environment says what a call of
  one does to the loop and to the rest of the world \<open>'w\<close>. A handler is a pointer. Times are
  nanoseconds of the steady clock.

  The loop over the timers in \<open>process_timers\<close> is a range-for over a vector: when a callback adds or
  removes elements, its iterators are invalid. The result is \<open>None\<close> then, and also when an event goes
  to a null handler. Other threads are left out here, \<open>Loop_Threads\<close>
  brings them back; callbacks do not throw.
\<close>

record loop_config =
  lc_max_events :: nat
  lc_default_timeout_ms :: int
  lc_enable_profiling :: bool

definition loop_config_default :: loop_config where
  "loop_config_default = \<lparr>lc_max_events = 1024, lc_default_timeout_ms = 100, lc_enable_profiling = False\<rparr>"

record 'c timer_entry =
  te_id :: timer_id
  te_expiry :: int
  te_interval :: int
  te_callback :: 'c
  te_repeating :: bool
  te_cancelled :: bool

record loop_stats =
  ls_events_processed :: "64 word"
  ls_timers_fired :: "64 word"
  ls_tasks_executed :: "64 word"
  ls_start_time :: int

record ('c, 'k, 'w) event_loop =
  el_config :: loop_config
  el_poller :: "'w poller"
  el_running :: bool
  el_stopped :: bool
  el_handlers :: "native_handle \<rightharpoonup> ptr"
  el_timers :: "'c timer_entry list"
  el_next_timer_id :: timer_id
  el_task_queue :: "'k list"
  el_stats :: loop_stats

type_synonym ('c, 'k, 'w) loop_state = "('c, 'k, 'w) event_loop \<times> 'w"

record ('c, 'k, 'w) loop_env =
  le_now :: "'w \<Rightarrow> int \<times> 'w"
  le_timer :: "'c \<Rightarrow> timer_id \<Rightarrow> ('c, 'k, 'w) loop_state \<Rightarrow> ('c, 'k, 'w) loop_state"
  le_task :: "'k \<Rightarrow> ('c, 'k, 'w) loop_state \<Rightarrow> ('c, 'k, 'w) loop_state"
  le_event :: "ptr \<Rightarrow> native_handle \<Rightarrow> event_type \<Rightarrow> ('c, 'k, 'w) loop_state \<Rightarrow> ('c, 'k, 'w) loop_state"

subsection \<open>Creation\<close>

definition loop_impl :: "('c, 'k, 'w) loop_env \<Rightarrow> loop_config \<Rightarrow> 'w poller \<Rightarrow> 'w \<Rightarrow> ('c, 'k, 'w) loop_state" where
  "loop_impl env cfg po w =
     (case le_now env w of
        (t, w1) \<Rightarrow>
          (\<lparr>el_config = cfg, el_poller = po, el_running = False, el_stopped = False, el_handlers = Map.empty,
            el_timers = [], el_next_timer_id = 1, el_task_queue = [],
            el_stats = \<lparr>ls_events_processed = 0, ls_timers_fired = 0, ls_tasks_executed = 0, ls_start_time = t\<rparr>\<rparr>,
           w1))"

definition loop_create ::
  "('c, 'k, 'w) loop_env \<Rightarrow> 'w platform \<Rightarrow> loop_config \<Rightarrow> 'w \<Rightarrow> ('c, 'k, 'w) event_loop result \<times> 'w" where
  "loop_create env pf cfg w =
     (case poller_create pf w of
        (Inl _, w1) \<Rightarrow> (Inl allocation_failed, w1)
      | (Inr po, w1) \<Rightarrow> (case loop_impl env cfg po w1 of (l, w2) \<Rightarrow> (Inr l, w2)))"

subsection \<open>Timers\<close>

definition timer_due :: "int \<Rightarrow> 'c timer_entry \<Rightarrow> bool" where
  "timer_due now t \<longleftrightarrow> \<not> te_cancelled t \<and> now \<ge> te_expiry t"

text \<open>What the loop body does to a timer whose callback has returned.\<close>

definition rearm :: "int \<Rightarrow> 'c timer_entry \<Rightarrow> 'c timer_entry" where
  "rearm now t = (if te_repeating t then t\<lparr>te_expiry := now + te_interval t\<rparr> else t\<lparr>te_cancelled := True\<rparr>)"

definition count_fired :: "loop_stats \<Rightarrow> loop_stats" where
  "count_fired st = st\<lparr>ls_timers_fired := ls_timers_fired st + 1\<rparr>"

text \<open>The callbacks are called through the iterator, so index by index; the vector must keep its elements.\<close>

fun fire_timers :: "('c, 'k, 'w) loop_env \<Rightarrow> int \<Rightarrow> nat list \<Rightarrow> ('c, 'k, 'w) loop_state \<Rightarrow> ('c, 'k, 'w) loop_state option" where
  "fire_timers env now [] s = Some s"
| "fire_timers env now (i # is) (l, w) =
     (let t = el_timers l ! i in
      if \<not> timer_due now t then fire_timers env now is (l, w)
      else case le_timer env (te_callback t) (te_id t) (l, w) of
             (l1, w1) \<Rightarrow>
               if map te_id (el_timers l1) \<noteq> map te_id (el_timers l) then None
               else fire_timers env now is
                      (l1\<lparr>el_stats := count_fired (el_stats l1),
                          el_timers := (el_timers l1)[i := rearm now (el_timers l1 ! i)]\<rparr>, w1))"

definition remove_cancelled :: "'c timer_entry list \<Rightarrow> 'c timer_entry list" where
  "remove_cancelled ts = filter (\<lambda>t. \<not> te_cancelled t) ts"

definition process_timers :: "('c, 'k, 'w) loop_env \<Rightarrow> ('c, 'k, 'w) loop_state \<Rightarrow> ('c, 'k, 'w) loop_state option" where
  "process_timers env s =
     (case le_now env (snd s) of
        (now, w1) \<Rightarrow>
          map_option (\<lambda>(l, w). (l\<lparr>el_timers := remove_cancelled (el_timers l)\<rparr>, w))
            (fire_timers env now [0..<length (el_timers (fst s))] (fst s, w1)))"

subsection \<open>Tasks\<close>

definition count_task :: "loop_stats \<Rightarrow> loop_stats" where
  "count_task st = st\<lparr>ls_tasks_executed := ls_tasks_executed st + 1\<rparr>"

definition run_task :: "('c, 'k, 'w) loop_env \<Rightarrow> 'k \<Rightarrow> ('c, 'k, 'w) loop_state \<Rightarrow> ('c, 'k, 'w) loop_state" where
  "run_task env k s = (case le_task env k s of (l, w) \<Rightarrow> (l\<lparr>el_stats := count_task (el_stats l)\<rparr>, w))"

definition process_tasks :: "('c, 'k, 'w) loop_env \<Rightarrow> ('c, 'k, 'w) loop_state \<Rightarrow> ('c, 'k, 'w) loop_state" where
  "process_tasks env s = fold (run_task env) (el_task_queue (fst s)) ((fst s)\<lparr>el_task_queue := []\<rparr>, snd s)"

subsection \<open>The timeout of a wait\<close>

text \<open>\<open>duration_cast\<close> truncates towards zero, the cast to \<open>int\<close> keeps the low 32 bits.\<close>

definition duration_ms :: "int \<Rightarrow> int" where
  "duration_ms d = sgn d * (\<bar>d\<bar> div 1000000)"

definition time_point_max :: int where
  "time_point_max = 2 ^ 63 - 1"

definition min_expiry :: "'c timer_entry list \<Rightarrow> int" where
  "min_expiry ts = foldl (\<lambda>m t. if \<not> te_cancelled t \<and> te_expiry t < m then te_expiry t else m) time_point_max ts"

definition calculate_timeout :: "('c, 'k, 'w) loop_env \<Rightarrow> ('c, 'k, 'w) event_loop \<Rightarrow> 'w \<Rightarrow> int \<times> 'w" where
  "calculate_timeout env l w =
     (if el_timers l = [] then (lc_default_timeout_ms (el_config l), w)
      else case le_now env w of
             (now, w1) \<Rightarrow> (max 0 (int_cast (duration_ms (min_expiry (el_timers l) - now))), w1))"

subsection \<open>One iteration and the loop\<close>

definition count_event :: "loop_stats \<Rightarrow> loop_stats" where
  "count_event st = st\<lparr>ls_events_processed := ls_events_processed st + 1\<rparr>"

fun dispatch_events :: "('c, 'k, 'w) loop_env \<Rightarrow> event_data list \<Rightarrow> ('c, 'k, 'w) loop_state \<Rightarrow> ('c, 'k, 'w) loop_state option" where
  "dispatch_events env [] s = Some s"
| "dispatch_events env (e # es) (l, w) =
     (case el_handlers l (ed_handle e) of
        None \<Rightarrow> dispatch_events env es (l, w)
      | Some h \<Rightarrow>
          if h = 0 then None
          else case le_event env h (ed_handle e) (ed_events e) (l, w) of
                 (l1, w1) \<Rightarrow> dispatch_events env es (l1\<lparr>el_stats := count_event (el_stats l1)\<rparr>, w1))"

definition max_events :: nat where
  "max_events = 1024"

definition run_once :: "('c, 'k, 'w) loop_env \<Rightarrow> int \<Rightarrow> ('c, 'k, 'w) loop_state \<Rightarrow> (vresult \<times> ('c, 'k, 'w) loop_state) option" where
  "run_once env timeout_ms s =
     (case process_tasks env s of
        (l1, w1) \<Rightarrow>
          case po_wait (el_poller l1) max_events timeout_ms w1 of
            (Inl e, w2) \<Rightarrow> Some (e, (l1, w2))
          | (Inr events, w2) \<Rightarrow>
              (case dispatch_events env events (l1, w2) of
                 None \<Rightarrow> None
               | Some s3 \<Rightarrow> map_option (\<lambda>s4. (make_result_void, s4)) (process_timers env s3)))"

text \<open>The \<open>while\<close> loop of \<open>run\<close>; it may go on for ever, and the result is \<open>None\<close> then.\<close>

partial_function (option) run_loop ::
  "('c, 'k, 'w) loop_env \<Rightarrow> ('c, 'k, 'w) loop_state \<Rightarrow> (vresult \<times> ('c, 'k, 'w) loop_state) option" where
  "run_loop env s =
     (if el_stopped (fst s) then Some (make_result_void, ((fst s)\<lparr>el_running := False\<rparr>, snd s))
      else case calculate_timeout env (fst s) (snd s) of
             (t, w1) \<Rightarrow>
               (case run_once env t (fst s, w1) of
                  None \<Rightarrow> None
                | Some (r, s2) \<Rightarrow>
                    if v_has_error r then Some (r, ((fst s2)\<lparr>el_running := False\<rparr>, snd s2))
                    else run_loop env s2))"

definition run :: "('c, 'k, 'w) loop_env \<Rightarrow> ('c, 'k, 'w) loop_state \<Rightarrow> (vresult \<times> ('c, 'k, 'w) loop_state) option" where
  "run env s =
     (if el_running (fst s) then Some (invalid_state, s)
      else run_loop env ((fst s)\<lparr>el_running := True, el_stopped := False\<rparr>, snd s))"

subsection \<open>The other operations\<close>

definition el_stop :: "('c, 'k, 'w) event_loop \<Rightarrow> ('c, 'k, 'w) event_loop" where
  "el_stop l = l\<lparr>el_stopped := True\<rparr>"

definition el_post :: "'k \<Rightarrow> ('c, 'k, 'w) event_loop \<Rightarrow> ('c, 'k, 'w) event_loop" where
  "el_post k l = l\<lparr>el_task_queue := el_task_queue l @ [k]\<rparr>"

text \<open>The object may have been moved from: \<open>None\<close> for a null \<open>impl_\<close>.\<close>

definition loop_stop :: "('c, 'k, 'w) event_loop option \<Rightarrow> ('c, 'k, 'w) event_loop option" where
  "loop_stop = map_option el_stop"

definition loop_is_running :: "('c, 'k, 'w) event_loop option \<Rightarrow> bool" where
  "loop_is_running lo = (case lo of Some l \<Rightarrow> el_running l | None \<Rightarrow> False)"

definition loop_post :: "'k \<Rightarrow> ('c, 'k, 'w) event_loop option \<Rightarrow> ('c, 'k, 'w) event_loop option" where
  "loop_post k = map_option (el_post k)"

definition loop_get_stats :: "('c, 'k, 'w) event_loop option \<Rightarrow> loop_stats" where
  "loop_get_stats lo = (case lo of Some l \<Rightarrow> el_stats l
     | None \<Rightarrow> \<lparr>ls_events_processed = 0, ls_timers_fired = 0, ls_tasks_executed = 0, ls_start_time = 0\<rparr>)"

definition loop_get_poller :: "('c, 'k, 'w) event_loop option \<Rightarrow> 'w poller option" where
  "loop_get_poller = map_option el_poller"

definition ms_ns :: "int \<Rightarrow> int" where
  "ms_ns ms = ms * 1000000"

definition add_timer :: "int \<Rightarrow> int \<Rightarrow> 'c \<Rightarrow> bool \<Rightarrow> ('c, 'k, 'w) event_loop \<Rightarrow> timer_id \<times> ('c, 'k, 'w) event_loop" where
  "add_timer expiry interval cb rep l =
     (el_next_timer_id l,
      l\<lparr>el_next_timer_id := el_next_timer_id l + 1,
        el_timers := el_timers l @ [\<lparr>te_id = el_next_timer_id l, te_expiry = expiry, te_interval = interval,
          te_callback = cb, te_repeating = rep, te_cancelled = False\<rparr>]\<rparr>)"

definition schedule_timer ::
  "('c, 'k, 'w) loop_env \<Rightarrow> int \<Rightarrow> 'c \<Rightarrow> bool \<Rightarrow> ('c, 'k, 'w) loop_state \<Rightarrow> timer_id \<times> ('c, 'k, 'w) loop_state" where
  "schedule_timer env delay cb rep s =
     (case le_now env (snd s) of
        (now, w1) \<Rightarrow> (case add_timer (now + ms_ns delay) (ms_ns delay) cb rep (fst s) of (tid, l) \<Rightarrow> (tid, (l, w1))))"

definition schedule_timer_interval ::
  "('c, 'k, 'w) loop_env \<Rightarrow> int \<Rightarrow> int \<Rightarrow> 'c \<Rightarrow> ('c, 'k, 'w) loop_state \<Rightarrow> timer_id \<times> ('c, 'k, 'w) loop_state" where
  "schedule_timer_interval env delay interval cb s =
     (case le_now env (snd s) of
        (now, w1) \<Rightarrow> (case add_timer (now + ms_ns delay) (ms_ns interval) cb True (fst s) of (tid, l) \<Rightarrow> (tid, (l, w1))))"

fun cancel_in :: "timer_id \<Rightarrow> 'c timer_entry list \<Rightarrow> 'c timer_entry list option" where
  "cancel_in tid [] = None"
| "cancel_in tid (t # ts) =
     (if te_id t = tid then Some (t\<lparr>te_cancelled := True\<rparr> # ts) else map_option ((#) t) (cancel_in tid ts))"

definition cancel_timer :: "timer_id \<Rightarrow> ('c, 'k, 'w) event_loop \<Rightarrow> vresult \<times> ('c, 'k, 'w) event_loop" where
  "cancel_timer tid l =
     (case cancel_in tid (el_timers l) of
        None \<Rightarrow> (invalid_argument, l)
      | Some ts \<Rightarrow> (make_result_void, l\<lparr>el_timers := ts\<rparr>))"

definition register_socket ::
  "tcp_socket \<Rightarrow> event_type \<Rightarrow> ptr \<Rightarrow> ('c, 'k, 'w) loop_state \<Rightarrow> vresult \<times> ('c, 'k, 'w) loop_state" where
  "register_socket sock events h s =
     (if sk_fd sock = invalid_handle then (invalid_state, s)
      else case po_add (el_poller (fst s)) (sk_fd sock) events h (snd s) of
             (r, w1) \<Rightarrow>
               if v_has_error r then (r, (fst s, w1))
               else (make_result_void, ((fst s)\<lparr>el_handlers := (el_handlers (fst s))(sk_fd sock \<mapsto> h)\<rparr>, w1)))"

definition modify_socket :: "tcp_socket \<Rightarrow> event_type \<Rightarrow> ('c, 'k, 'w) loop_state \<Rightarrow> vresult \<times> ('c, 'k, 'w) loop_state" where
  "modify_socket sock events s =
     (if sk_fd sock = invalid_handle then (invalid_state, s)
      else case el_handlers (fst s) (sk_fd sock) of
             None \<Rightarrow> (invalid_argument, s)
           | Some h \<Rightarrow> (case po_modify (el_poller (fst s)) (sk_fd sock) events h (snd s) of (r, w1) \<Rightarrow> (r, (fst s, w1))))"

definition unregister_socket :: "tcp_socket \<Rightarrow> ('c, 'k, 'w) loop_state \<Rightarrow> vresult \<times> ('c, 'k, 'w) loop_state" where
  "unregister_socket sock s =
     (if sk_fd sock = invalid_handle then (invalid_state, s)
      else case po_remove (el_poller (fst s)) (sk_fd sock) (snd s) of
             (r, w1) \<Rightarrow>
               if v_has_error r then (r, (fst s, w1))
               else (make_result_void, ((fst s)\<lparr>el_handlers := (el_handlers (fst s))(sk_fd sock := None)\<rparr>, w1)))"

text \<open>\<open>event_loop_scope\<close> stops the loop when it goes out of scope.\<close>

definition loop_scope_end :: "('c, 'k, 'w) event_loop option \<Rightarrow> ('c, 'k, 'w) event_loop option" where
  "loop_scope_end lo = loop_stop lo"

end
