(* ===== verification/Event_Loop_Facts.thy ===== *)
theory Event_Loop_Facts
  imports Event_Loop
begin

text \<open>
  Facts about the event loop: the operations a callback may call and the states they lead to, the
  timers that fire in a pass, the timeout of a wait, and what the pollers let through to the handlers.
\<close>

subsection \<open>Runs of the loop's operations\<close>

text \<open>
  What the owner of a loop, or a callback holding a reference to it, may do between two steps of the
  loop: call an operation, or change the rest of the world. The identifiers are 64 bits wide; the
  relation stops handing them out before they wrap around.
\<close>

inductive api_step :: "('c, 'k, 'w) loop_env \<Rightarrow> ('c, 'k, 'w) loop_state \<Rightarrow> ('c, 'k, 'w) loop_state \<Rightarrow> bool" for env where
  api_schedule: "el_next_timer_id (fst s) \<noteq> - 1 \<Longrightarrow> schedule_timer env delay cb rep s = (tid, s') \<Longrightarrow> api_step env s s'"
| api_schedule_interval: "el_next_timer_id (fst s) \<noteq> - 1 \<Longrightarrow>
    schedule_timer_interval env delay interval cb s = (tid, s') \<Longrightarrow> api_step env s s'"
| api_cancel: "cancel_timer tid (fst s) = (r, l') \<Longrightarrow> api_step env s (l', snd s)"
| api_post: "api_step env s (el_post k (fst s), snd s)"
| api_stop: "api_step env s (el_stop (fst s), snd s)"
| api_register: "register_socket sock events h s = (r, s') \<Longrightarrow> api_step env s s'"
| api_modify: "modify_socket sock events s = (r, s') \<Longrightarrow> api_step env s s'"
| api_unregister: "unregister_socket sock s = (r, s') \<Longrightarrow> api_step env s s'"
| api_world: "api_step env s (fst s, w)"

inductive_cases api_stepE: "api_step env s s'"

definition timers_use_api :: "('c, 'k, 'w) loop_env \<Rightarrow> bool" where
  "timers_use_api env \<longleftrightarrow> (\<forall>c i s. (api_step env)\<^sup>*\<^sup>* s (le_timer env c i s))"

definition callbacks_use_api :: "('c, 'k, 'w) loop_env \<Rightarrow> bool" where
  "callbacks_use_api env \<longleftrightarrow>
     timers_use_api env \<and> (\<forall>k s. (api_step env)\<^sup>*\<^sup>* s (le_task env k s))
     \<and> (\<forall>p h e s. (api_step env)\<^sup>*\<^sup>* s (le_event env p h e s))"

inductive loop_reachable :: "('c, 'k, 'w) loop_env \<Rightarrow> ('c, 'k, 'w) loop_state \<Rightarrow> bool" for env where
  loop_new: "loop_impl env cfg po w = s \<Longrightarrow> loop_reachable env s"
| loop_api: "loop_reachable env s \<Longrightarrow> api_step env s s' \<Longrightarrow> loop_reachable env s'"
| loop_once: "loop_reachable env s \<Longrightarrow> run_once env t s = Some (r, s') \<Longrightarrow> loop_reachable env s'"
| loop_run: "loop_reachable env s \<Longrightarrow> run env s = Some (r, s') \<Longrightarrow> loop_reachable env s'"

text \<open>Identifiers grow along the vector and stay below the next one; no handler sits at the invalid handle.\<close>

definition ids_ok :: "timer_id \<Rightarrow> 'c timer_entry list \<Rightarrow> bool" where
  "ids_ok nxt ts \<longleftrightarrow> sorted_wrt (<) (map te_id ts) \<and> (\<forall>t \<in> set ts. 0 < te_id t \<and> te_id t < nxt)"

definition loop_ok :: "('c, 'k, 'w) event_loop \<Rightarrow> bool" where
  "loop_ok l \<longleftrightarrow> el_next_timer_id l \<noteq> 0 \<and> ids_ok (el_next_timer_id l) (el_timers l) \<and> el_handlers l invalid_handle = None"

lemma ids_ok_alt: "ids_ok nxt ts \<longleftrightarrow> sorted_wrt (<) (map te_id ts) \<and> (\<forall>i \<in> set (map te_id ts). 0 < i \<and> i < nxt)"
  by (simp add: ids_ok_def)

lemma ids_ok_cong: "map te_id ts = map te_id us \<Longrightarrow> ids_ok nxt ts = ids_ok nxt us"
  by (simp add: ids_ok_alt)

lemma ids_ok_filter: "ids_ok nxt ts \<Longrightarrow> ids_ok nxt (filter P ts)"
  by (auto simp: ids_ok_def sorted_wrt_map intro: sorted_wrt_filter)

lemma ids_ok_distinct: "ids_ok nxt ts \<Longrightarrow> distinct (map te_id ts)"
  unfolding ids_ok_def by (meson strict_sorted_iff strict_sorted_imp_sorted)

lemma add_timer_ok:
  assumes "loop_ok l" and "el_next_timer_id l \<noteq> - 1" and "add_timer expiry interval cb rep l = (tid, l')"
  shows "loop_ok l'" and "tid = el_next_timer_id l" and "tid \<notin> te_id ` set (el_timers l)"
proof -
  have lt: "el_next_timer_id l < el_next_timer_id l + 1"
    using assms(2) by (metis add.commute lessI unatSuc word_less_nat_alt add_eq_0_iff)
  have nz: "el_next_timer_id l \<noteq> 0" "0 < el_next_timer_id l"
    using assms(1) by (auto simp: loop_ok_def word_neq_0_conv)
  have ids: "ids_ok (el_next_timer_id l) (el_timers l)" using assms(1) by (simp add: loop_ok_def)
  have "\<And>t. t \<in> set (el_timers l) \<Longrightarrow> 0 < te_id t \<and> te_id t < el_next_timer_id l \<and> te_id t < el_next_timer_id l + 1"
    using ids lt by (auto simp: ids_ok_def intro: less_trans)
  then have "ids_ok (el_next_timer_id l + 1) (el_timers l')"
    using assms(3) ids lt nz by (auto simp: ids_ok_def add_timer_def sorted_wrt_append)
  then show "loop_ok l'"
    using assms(1,3) lt by (auto simp: loop_ok_def add_timer_def)
  show "tid = el_next_timer_id l" using assms(3) by (simp add: add_timer_def)
  then show "tid \<notin> te_id ` set (el_timers l)" using ids by (auto simp: ids_ok_def)
qed

lemma cancel_in_ids: "cancel_in tid ts = Some us \<Longrightarrow> map te_id us = map te_id ts"
  by (induction ts arbitrary: us) (auto split: if_splits)

lemma cancel_timer_ok: "loop_ok l \<Longrightarrow> cancel_timer tid l = (r, l') \<Longrightarrow> loop_ok l'"
  by (auto simp: cancel_timer_def loop_ok_def split: option.splits dest!: cancel_in_ids intro: ids_ok_cong [THEN iffD2])

lemma api_step_ok: "api_step env s s' \<Longrightarrow> loop_ok (fst s) \<Longrightarrow> loop_ok (fst s')"
proof (induction rule: api_step.induct)
  case (api_schedule s delay cb rep tid s')
  then show ?case
    by (auto simp: schedule_timer_def split: prod.splits dest: add_timer_ok(1))
next
  case (api_schedule_interval s delay interval cb tid s')
  then show ?case
    by (auto simp: schedule_timer_interval_def split: prod.splits dest: add_timer_ok(1))
next
  case (api_cancel tid s r l')
  then show ?case by (auto dest: cancel_timer_ok)
next
  case (api_register sock events h s r s')
  then show ?case by (auto simp: register_socket_def loop_ok_def split: if_splits prod.splits)
next
  case (api_modify sock events s r s')
  then show ?case by (auto simp: modify_socket_def split: if_splits prod.splits option.splits)
next
  case (api_unregister sock s r s')
  then show ?case by (auto simp: unregister_socket_def loop_ok_def split: if_splits prod.splits)
qed (simp_all add: el_post_def el_stop_def loop_ok_def)

lemma api_steps_ok: "(api_step env)\<^sup>*\<^sup>* s s' \<Longrightarrow> loop_ok (fst s) \<Longrightarrow> loop_ok (fst s')"
  by (induction rule: rtranclp_induct) (auto dest: api_step_ok)

lemma timer_callback_ok: "timers_use_api env \<Longrightarrow> loop_ok (fst s) \<Longrightarrow> loop_ok (fst (le_timer env c i s))"
  using api_steps_ok unfolding timers_use_api_def by blast

lemma callbacks_ok:
  assumes "callbacks_use_api env"
  shows "timers_use_api env" and "loop_ok (fst s) \<Longrightarrow> loop_ok (fst (le_task env k s))"
    and "loop_ok (fst s) \<Longrightarrow> loop_ok (fst (le_event env p h e s))"
  using assms api_steps_ok unfolding callbacks_use_api_def by blast+

lemma loop_ok_upd [simp]:
  "loop_ok (l\<lparr>el_stats := st\<rparr>) = loop_ok l" "loop_ok (l\<lparr>el_task_queue := q\<rparr>) = loop_ok l"
  "loop_ok (l\<lparr>el_running := b\<rparr>) = loop_ok l" "loop_ok (l\<lparr>el_stopped := b\<rparr>) = loop_ok l"
  by (simp_all add: loop_ok_def)

lemma rearm_id [simp]: "te_id (rearm now t) = te_id t"
  by (simp add: rearm_def)

lemma map_update_same: "f x = f (xs ! i) \<Longrightarrow> map f (xs[i := x]) = map f xs"
  by (cases "i < length xs") (auto simp: map_update list_update_same_conv list_update_beyond)

lemma fire_timers_ok:
  "timers_use_api env \<Longrightarrow> fire_timers env now is s = Some s' \<Longrightarrow> loop_ok (fst s) \<Longrightarrow> loop_ok (fst s')"
proof (induction env now "is" s rule: fire_timers.induct)
  case (2 env now i js l w)
  show ?case
  proof (cases "timer_due now (el_timers l ! i)")
    case False
    then show ?thesis using 2 by simp
  next
    case True
    obtain l1 w1 where c: "le_timer env (te_callback (el_timers l ! i)) (te_id (el_timers l ! i)) (l, w) = (l1, w1)"
      by fastforce
    have "loop_ok l1" using timer_callback_ok [OF 2(3), of "(l, w)"] 2(5) c by (metis fst_conv)
    then have "loop_ok (l1\<lparr>el_stats := count_fired (el_stats l1),
        el_timers := (el_timers l1)[i := rearm now (el_timers l1 ! i)]\<rparr>)"
      by (auto simp: loop_ok_def intro: ids_ok_cong [THEN iffD1, rotated] simp: map_update_same)
    then show ?thesis using 2 True c by (auto simp: Let_def split: if_splits)
  qed
qed simp

lemma process_timers_ok:
  assumes "timers_use_api env" and "process_timers env s = Some s'" and "loop_ok (fst s)"
  shows "loop_ok (fst s')"
  using assms fire_timers_ok [OF assms(1)]
  by (fastforce simp: process_timers_def remove_cancelled_def loop_ok_def split: prod.splits intro: ids_ok_filter)

lemma run_task_ok: "callbacks_use_api env \<Longrightarrow> loop_ok (fst s) \<Longrightarrow> loop_ok (fst (run_task env k s))"
  using callbacks_ok(2) [of env s k] by (auto simp: run_task_def split: prod.split)

lemma process_tasks_ok:
  assumes "callbacks_use_api env" and "loop_ok (fst s)"
  shows "loop_ok (fst (process_tasks env s))"
proof -
  have "loop_ok (fst s0) \<Longrightarrow> loop_ok (fst (fold (run_task env) ks s0))" for ks s0
  proof (induction ks arbitrary: s0)
    case (Cons k ks)
    show ?case using Cons.IH [OF run_task_ok [OF assms(1) Cons.prems, of k]] by simp
  qed simp
  then show ?thesis using assms(2) by (simp add: process_tasks_def)
qed

lemma dispatch_events_ok:
  "callbacks_use_api env \<Longrightarrow> dispatch_events env es s = Some s' \<Longrightarrow> loop_ok (fst s) \<Longrightarrow> loop_ok (fst s')"
proof (induction env es s rule: dispatch_events.induct)
  case (2 env e es l w)
  show ?case
  proof (cases "el_handlers l (ed_handle e)")
    case None
    then show ?thesis using 2 by simp
  next
    case (Some h)
    obtain l1 w1 where c: "le_event env h (ed_handle e) (ed_events e) (l, w) = (l1, w1)" by fastforce
    have "loop_ok l1" using callbacks_ok(3) [OF 2(3), of "(l, w)"] 2(5) c by (metis fst_conv)
    then show ?thesis using 2 Some c by (auto split: if_splits)
  qed
qed simp

lemma run_once_ok:
  assumes "callbacks_use_api env" and "run_once env t s = Some (r, s')" and "loop_ok (fst s)"
  shows "loop_ok (fst s')"
proof -
  have "loop_ok (fst (process_tasks env s))" by (rule process_tasks_ok [OF assms(1,3)])
  then show ?thesis
    using assms(2) dispatch_events_ok [OF assms(1)] process_timers_ok [OF callbacks_ok(1) [OF assms(1)]]
    by (fastforce simp: run_once_def split: prod.splits sum.splits option.splits)
qed

lemma run_loop_ok:
  assumes "callbacks_use_api env" and "run_loop env s = Some (r, s')" and "loop_ok (fst s)"
  shows "loop_ok (fst s')"
proof -
  let ?P = "\<lambda>env s y. callbacks_use_api env \<longrightarrow> loop_ok (fst s) \<longrightarrow> loop_ok (fst (snd y))"
  have "?P env s (r, s')"
  proof (rule run_loop.raw_induct [where P = ?P, OF _ assms(2)], goal_cases)
    case (1 self env s y)
    have once: "callbacks_use_api env \<Longrightarrow> loop_ok l \<Longrightarrow> run_once env t (l, w) = Some (r2, (l2, w2)) \<Longrightarrow> loop_ok l2"
      for l t w r2 l2 w2
      using run_once_ok [of env t "(l, w)"] by simp
    from 1 show ?case
      by (cases y) (fastforce split: if_splits prod.splits option.splits dest: once)
  qed
  then show ?thesis using assms by simp
qed

lemma loop_impl_ok: "loop_impl env cfg po w = s \<Longrightarrow> loop_ok (fst s)"
  by (auto simp: loop_impl_def loop_ok_def ids_ok_def split: prod.splits)

lemma loop_reachable_ok: "loop_reachable env s \<Longrightarrow> callbacks_use_api env \<Longrightarrow> loop_ok (fst s)"
proof (induction rule: loop_reachable.induct)
  case (loop_run s r s')
  then show ?case by (auto simp: run_def split: if_splits dest: run_loop_ok)
qed (auto intro: loop_impl_ok api_step_ok run_once_ok)

subsection \<open>One pass over the timers\<close>

definition due_timers :: "int \<Rightarrow> 'c timer_entry list \<Rightarrow> 'c timer_entry list" where
  "due_timers now ts = filter (timer_due now) ts"

definition pass_timer :: "int \<Rightarrow> 'c timer_entry \<Rightarrow> 'c timer_entry" where
  "pass_timer now t = (if timer_due now t then rearm now t else t)"

definition after_pass :: "int \<Rightarrow> 'c timer_entry list \<Rightarrow> 'c timer_entry list" where
  "after_pass now ts = remove_cancelled (map (pass_timer now) ts)"

definition call_timers :: "('c \<Rightarrow> timer_id \<Rightarrow> 'w \<Rightarrow> 'w) \<Rightarrow> 'c timer_entry list \<Rightarrow> 'w \<Rightarrow> 'w" where
  "call_timers eff ts w = fold (\<lambda>t. eff (te_callback t) (te_id t)) ts w"

lemma after_pass_iff:
  "t \<in> set (after_pass now ts) \<longleftrightarrow>
     (\<exists>u \<in> set ts. \<not> te_cancelled u \<and>
        (if now \<ge> te_expiry u then te_repeating u \<and> t = u\<lparr>te_expiry := now + te_interval u\<rparr> else t = u))"
  by (auto simp: after_pass_def remove_cancelled_def pass_timer_def timer_due_def rearm_def split: if_splits)

lemma fire_timers_keeps:
  assumes "\<And>c i l w. P l \<Longrightarrow> P (fst (le_timer env c i (l, w)))"
    and "\<And>l st ts. P (l\<lparr>el_stats := st, el_timers := ts\<rparr>) \<longleftrightarrow> P l"
  shows "fire_timers env now js (l, w) = Some (l', w') \<Longrightarrow> P l \<Longrightarrow> P l'"
proof (induction js arbitrary: l w)
  case (Cons i js)
  obtain l1 w1 where c: "le_timer env (te_callback (el_timers l ! i)) (te_id (el_timers l ! i)) (l, w) = (l1, w1)"
    by fastforce
  then have "P l1" using assms(1) [OF Cons.prems(2)] by (metis fst_conv)
  then show ?case
    using Cons.prems Cons.IH c assms(2) by (auto simp: Let_def split: if_splits)
qed simp

lemma process_timers_keeps:
  assumes "\<And>c i l w. P l \<Longrightarrow> P (fst (le_timer env c i (l, w)))"
    and "\<And>l st ts. P (l\<lparr>el_stats := st, el_timers := ts\<rparr>) \<longleftrightarrow> P l"
    and "\<And>l ts. P (l\<lparr>el_timers := ts\<rparr>) \<longleftrightarrow> P l"
    and "process_timers env (l, w) = Some (l', w')" and "P l"
  shows "P l'"
  using assms(3-5) fire_timers_keeps [of P env, OF assms(1,2)]
  by (fastforce simp: process_timers_def split: prod.splits)

text \<open>Callbacks that leave the vector of timers alone and act on the world whatever the loop holds.\<close>

locale quiet_callbacks =
  fixes env :: "('c, 'k, 'w) loop_env"
    and lf :: "'c \<Rightarrow> timer_id \<Rightarrow> 'w \<Rightarrow> ('c, 'k, 'w) event_loop \<Rightarrow> ('c, 'k, 'w) event_loop"
    and eff :: "'c \<Rightarrow> timer_id \<Rightarrow> 'w \<Rightarrow> 'w"
  assumes timer_call: "le_timer env c i (l, w) = (lf c i w l, eff c i w)"
    and timers_kept: "el_timers (lf c i w l) = el_timers l"
begin

lemma fire_timers_pass:
  "k \<le> length (el_timers l) \<Longrightarrow>
   \<exists>l'. fire_timers env now [k..<length (el_timers l)] (l, w)
          = Some (l', call_timers eff (due_timers now (drop k (el_timers l))) w)
     \<and> el_timers l' = take k (el_timers l) @ map (pass_timer now) (drop k (el_timers l))"
proof (induction "length (el_timers l) - k" arbitrary: k l w)
  case 0
  then show ?case by (simp add: due_timers_def call_timers_def)
next
  case (Suc n)
  let ?ts = "el_timers l" and ?t = "el_timers l ! k"
  have k: "k < length ?ts" "n = length ?ts - Suc k" "Suc k \<le> length ?ts" using Suc by auto
  have upt: "[k..<length ?ts] = k # [Suc k..<length ?ts]" using k by (simp add: upt_rec)
  have dr: "drop k ?ts = ?t # drop (Suc k) ?ts" using k by (simp add: Cons_nth_drop_Suc)
  show ?case
  proof (cases "timer_due now ?t")
    case False
    then show ?thesis
      using Suc.hyps(1) [OF k(2,3), of w] k
      by (auto simp: upt dr due_timers_def pass_timer_def take_Suc_conv_app_nth)
  next
    case True
    let ?l1 = "lf (te_callback ?t) (te_id ?t) w l" and ?w1 = "eff (te_callback ?t) (te_id ?t) w"
    let ?l2 = "?l1\<lparr>el_stats := count_fired (el_stats ?l1), el_timers := ?ts[k := rearm now ?t]\<rparr>"
    have "n = length (el_timers ?l2) - Suc k" "Suc k \<le> length (el_timers ?l2)" using k by simp_all
    from Suc.hyps(1) [OF this, of ?w1] obtain l' where
      l': "fire_timers env now [Suc k..<length ?ts] (?l2, ?w1)
             = Some (l', call_timers eff (due_timers now (drop (Suc k) ?ts)) ?w1)"
        "el_timers l' = take (Suc k) (?ts[k := rearm now ?t]) @ map (pass_timer now) (drop (Suc k) ?ts)"
      by (auto simp: drop_update_cancel)
    have "fire_timers env now [k..<length ?ts] (l, w) = fire_timers env now [Suc k..<length ?ts] (?l2, ?w1)"
      using True by (simp add: upt timer_call timers_kept Let_def)
    moreover have "take (Suc k) (?ts[k := rearm now ?t]) = take k ?ts @ [pass_timer now ?t]"
      using k True by (simp add: take_Suc_conv_app_nth pass_timer_def)
    ultimately show ?thesis
      using l' True by (simp add: dr due_timers_def call_timers_def)
  qed
qed

text \<open>A pass calls the callbacks of the due timers in the order of the vector, once each.\<close>

lemma process_timers_pass:
  assumes "le_now env w = (now, w1)"
  shows "\<exists>l'. process_timers env (l, w) = Some (l', call_timers eff (due_timers now (el_timers l)) w1)
    \<and> el_timers l' = after_pass now (el_timers l)"
  using fire_timers_pass [of 0 l now w1] assms by (auto simp: process_timers_def after_pass_def)

end

text \<open>Some callback stops the loop while the world is in a certain condition, and nothing restarts it.\<close>

locale stopping_callbacks = quiet_callbacks env lf eff
  for env :: "('c, 'k, 'w) loop_env" and lf eff +
  fixes stopper :: 'c and armed :: "'w \<Rightarrow> bool"
  assumes armed_kept: "armed w \<Longrightarrow> armed (eff c i w)"
    and stays_stopped: "el_stopped l \<Longrightarrow> el_stopped (lf c i w l)"
    and stops: "armed w \<Longrightarrow> el_stopped (lf stopper i w l)"
begin

lemma fire_timers_stop:
  "fire_timers env now js (l, w) = Some (l', w') \<Longrightarrow> armed w \<Longrightarrow>
   el_stopped l \<or> (\<exists>i \<in> set js. timer_due now (el_timers l ! i) \<and> te_callback (el_timers l ! i) = stopper) \<Longrightarrow>
   distinct js \<Longrightarrow> el_stopped l'"
proof (induction js arbitrary: l w)
  case (Cons i js)
  let ?t = "el_timers l ! i"
  show ?case
  proof (cases "timer_due now ?t")
    case False
    then show ?thesis using Cons by auto
  next
    case True
    let ?l1 = "lf (te_callback ?t) (te_id ?t) w l" and ?w1 = "eff (te_callback ?t) (te_id ?t) w"
    let ?l2 = "?l1\<lparr>el_stats := count_fired (el_stats ?l1), el_timers := (el_timers l)[i := rearm now ?t]\<rparr>"
    have "el_timers ?l2 ! j = el_timers l ! j" if "j \<in> set js" for j
      using that Cons.prems(4) by (cases "i = j") auto
    then have "el_stopped ?l2 \<or> (\<exists>j \<in> set js. timer_due now (el_timers ?l2 ! j) \<and> te_callback (el_timers ?l2 ! j) = stopper)"
      using Cons.prems(3) stays_stopped [of l] stops [OF Cons.prems(2), of "te_id ?t" l] by auto
    moreover have "fire_timers env now js (?l2, ?w1) = Some (l', w')"
      using Cons.prems(1) True by (simp add: timer_call timers_kept Let_def)
    ultimately show ?thesis
      using Cons.IH [of ?l2 ?w1] Cons.prems(2,4) armed_kept by simp
  qed
qed simp

lemma process_timers_stop:
  assumes "process_timers env (l, w) = Some (l', w')" and "le_now env w = (now, w1)" and "armed w1"
    and "t \<in> set (el_timers l)" and "timer_due now t" and "te_callback t = stopper"
  shows "el_stopped l'"
proof -
  obtain i where "i < length (el_timers l)" "el_timers l ! i = t" using assms(4) by (auto simp: in_set_conv_nth)
  then show ?thesis
    using assms fire_timers_stop [of now "[0..<length (el_timers l)]" l w1]
    by (fastforce simp: process_timers_def)
qed

end

subsection \<open>The timeout of a wait\<close>

definition live :: "'c timer_entry list \<Rightarrow> 'c timer_entry set" where
  "live ts = {t \<in> set ts. \<not> te_cancelled t}"

lemma min_expiry_le: "t \<in> live ts \<Longrightarrow> min_expiry ts \<le> te_expiry t"
  and min_expiry_in: "min_expiry ts = time_point_max \<or> min_expiry ts \<in> te_expiry ` live ts"
proof -
  define f where "f = (\<lambda>m (t :: 'a timer_entry). if \<not> te_cancelled t \<and> te_expiry t < m then te_expiry t else m)"
  have f: "min_expiry us = foldl f time_point_max us" for us :: "'a timer_entry list"
    by (simp add: min_expiry_def f_def)
  have dec: "foldl f m us \<le> m" for us m
  proof (induction us arbitrary: m)
    case (Cons t us)
    have "foldl f (f m t) us \<le> f m t" by (rule Cons.IH)
    moreover have "f m t \<le> m" by (simp add: f_def)
    ultimately show ?case by simp
  qed simp
  have "t \<in> live us \<Longrightarrow> foldl f m us \<le> te_expiry t" for us m and t :: "'a timer_entry"
    using dec by (induction us arbitrary: m) (fastforce simp: live_def f_def intro: order_trans)+
  then show "t \<in> live ts \<Longrightarrow> min_expiry ts \<le> te_expiry t" by (simp add: f)
  have "foldl f m us = m \<or> foldl f m us \<in> te_expiry ` live us" for us m
    by (induction us arbitrary: m) (fastforce simp: live_def f_def)+
  then show "min_expiry ts = time_point_max \<or> min_expiry ts \<in> te_expiry ` live ts" by (simp add: f)
qed

lemma duration_ms_bounds:
  "0 \<le> d \<Longrightarrow> duration_ms d * 1000000 \<le> d \<and> d < duration_ms d * 1000000 + 1000000"
  "d < 0 \<Longrightarrow> duration_ms d \<le> 0"
  "0 \<le> d \<Longrightarrow> 0 \<le> duration_ms d"
proof -
  show "0 \<le> d \<Longrightarrow> duration_ms d * 1000000 \<le> d \<and> d < duration_ms d * 1000000 + 1000000"
    by (cases "d = 0") (auto simp: duration_ms_def sgn_if)
  show "d < 0 \<Longrightarrow> duration_ms d \<le> 0" by (simp add: duration_ms_def sgn_if)
  show "0 \<le> d \<Longrightarrow> 0 \<le> duration_ms d" by (simp add: duration_ms_def sgn_if)
qed

lemma min_expiry_earliest:
  assumes "t \<in> live ts" and "\<forall>u \<in> live ts. te_expiry u \<le> time_point_max"
  shows "\<exists>u \<in> live ts. te_expiry u = min_expiry ts"
  using min_expiry_in [of ts] min_expiry_le [OF assms(1)] assms by force

text \<open>
  While the earliest timer is less than 24 days away and not overdue by more, the wait ends no later
  than that timer and less than a millisecond before it.
\<close>

lemma calculate_timeout_wakes:
  assumes now: "le_now env w = (now, w1)" and t: "t \<in> live (el_timers l)"
    and range: "\<forall>u \<in> live (el_timers l). te_expiry u \<le> time_point_max \<and> now - te_expiry u \<le> 2 ^ 31 * 1000000"
    and near: "te_expiry t - now < 2 ^ 31 * 1000000"
  shows "\<exists>r. calculate_timeout env l w = (r, w1) \<and> 0 \<le> r \<and> r < 2 ^ 31
    \<and> (\<forall>u \<in> live (el_timers l). r * 1000000 \<le> max 0 (te_expiry u - now))
    \<and> (\<exists>u \<in> live (el_timers l). te_expiry u - now < r * 1000000 + 1000000)"
proof -
  obtain e where e: "e \<in> live (el_timers l)" "te_expiry e = min_expiry (el_timers l)"
    using min_expiry_earliest [OF t] range by blast
  define d where "d = te_expiry e - now"
  have d: "d < 2 ^ 31 * 1000000" "- d \<le> 2 ^ 31 * 1000000"
    using range e min_expiry_le [OF t] near by (auto simp: d_def)
  have ne: "el_timers l \<noteq> []" using t by (auto simp: live_def)
  have c: "calculate_timeout env l w = (max 0 (int_cast (duration_ms d)), w1)"
    using ne now e(2) by (simp add: calculate_timeout_def d_def)
  have "int_cast (duration_ms d) = duration_ms d"
  proof (rule int_cast_id)
    show "- (2 ^ 31) \<le> duration_ms d"
      using d(2) by (auto simp: duration_ms_def sgn_if)
    show "duration_ms d < 2 ^ 31" using d(1) by (auto simp: duration_ms_def sgn_if)
  qed
  then have r: "max 0 (int_cast (duration_ms d)) = (if d < 0 then 0 else duration_ms d)"
    using duration_ms_bounds(2,3) [of d] by auto
  have "d \<le> te_expiry u - now" if "u \<in> live (el_timers l)" for u
    using min_expiry_le [OF that] e(2) by (simp add: d_def)
  moreover have "duration_ms d < 2 ^ 31" using d(1) by (auto simp: duration_ms_def sgn_if)
  moreover have "(if d < 0 then 0 else duration_ms d) * 1000000 \<le> max 0 d"
      "d < (if d < 0 then 0 else duration_ms d) * 1000000 + 1000000" "0 \<le> (if d < 0 then 0 else duration_ms d)"
    using duration_ms_bounds(1,3) [of d] by auto
  ultimately show ?thesis
    unfolding c r using e(1)
    by (intro exI [of _ "if d < 0 then 0 else duration_ms d"] conjI ballI bexI [of _ e])
      (force simp: d_def [symmetric])+
qed

subsection \<open>What reaches the handlers\<close>

lemma dispatch_unknown:
  "\<forall>e \<in> set es. el_handlers l (ed_handle e) = None \<Longrightarrow> dispatch_events env es (l, w) = Some (l, w)"
  by (induction es) auto

lemma epoll_handles: "epoll_wait api fd n t w = (Inr es, w') \<Longrightarrow> e \<in> set es \<Longrightarrow> ed_handle e = invalid_handle"
  by (auto simp: epoll_wait_def invalid_handle_def split: if_splits prod.splits)

lemma iocp_handles: "iocp_wait api port n t w = (Inr es, w') \<Longrightarrow> e \<in> set es \<Longrightarrow> ed_handle e = invalid_handle"
  by (auto simp: iocp_wait_def invalid_handle_def split: if_splits prod.splits)

definition handles_lost :: "'w poller \<Rightarrow> bool" where
  "handles_lost po \<longleftrightarrow> (\<forall>n t w es w'. po_wait po n t w = (Inr es, w') \<longrightarrow> (\<forall>e \<in> set es. ed_handle e = invalid_handle))"

lemma epoll_handles_lost: "handles_lost (epoll_poller api fd)"
  and iocp_handles_lost: "handles_lost (iocp_poller iapi port)"
  unfolding handles_lost_def
  using epoll_handles [of api fd] iocp_handles [of iapi port] by (auto simp: epoll_poller_def iocp_poller_def)

lemma api_step_poller: "api_step env s s' \<Longrightarrow> el_poller (fst s') = el_poller (fst s)"
  by (induction rule: api_step.induct)
    (auto simp: schedule_timer_def schedule_timer_interval_def add_timer_def cancel_timer_def el_post_def el_stop_def
      register_socket_def modify_socket_def unregister_socket_def split: if_splits prod.splits option.splits)

lemma api_steps_poller: "(api_step env)\<^sup>*\<^sup>* s s' \<Longrightarrow> el_poller (fst s') = el_poller (fst s)"
  by (induction rule: rtranclp_induct) (auto dest: api_step_poller)

lemma process_tasks_poller:
  assumes "callbacks_use_api env"
  shows "el_poller (fst (process_tasks env s)) = el_poller (fst s)"
proof -
  have task: "el_poller (fst (run_task env k s)) = el_poller (fst s)" for k s
  proof -
    have "(api_step env)\<^sup>*\<^sup>* s (le_task env k s)" using assms unfolding callbacks_use_api_def by blast
    then show ?thesis using api_steps_poller [of env s "le_task env k s"] by (simp add: run_task_def case_prod_unfold)
  qed
  have "el_poller (fst (fold (run_task env) ks s)) = el_poller (fst s)" for ks s
    by (induction ks arbitrary: s) (simp_all add: task)
  then show ?thesis by (simp add: process_tasks_def)
qed

text \<open>With a poller that loses the handles an iteration is tasks, wait and timers: no handler is called.\<close>

lemma run_once_handles_lost:
  assumes "callbacks_use_api env" and "loop_ok (fst s)" and "handles_lost (el_poller (fst s))"
  shows "run_once env t s =
    (case process_tasks env s of
       (l1, w1) \<Rightarrow> case po_wait (el_poller (fst s)) max_events t w1 of
         (Inl e, w2) \<Rightarrow> Some (e, (l1, w2))
       | (Inr _, w2) \<Rightarrow> map_option (\<lambda>s4. (ec_ok, s4)) (process_timers env (l1, w2)))"
proof -
  obtain l1 w1 where p: "process_tasks env s = (l1, w1)" by fastforce
  have po: "el_poller l1 = el_poller (fst s)" using process_tasks_poller [OF assms(1), of s] p by simp
  have hs: "el_handlers l1 invalid_handle = None"
    using process_tasks_ok [OF assms(1,2)] p by (simp add: loop_ok_def)
  have "dispatch_events env es (l1, w2) = Some (l1, w2)"
    if "po_wait (el_poller (fst s)) max_events t w1 = (Inr es, w2)" for es w2
  proof -
    have "\<forall>e \<in> set es. ed_handle e = invalid_handle" using that assms(3) unfolding handles_lost_def by blast
    then show ?thesis using hs by (intro dispatch_unknown) simp
  qed
  then show ?thesis
    by (simp add: run_once_def p po vresult_defs split: prod.split sum.split)
qed

text \<open>With a poller that reports them, every event goes to the handler of its socket.\<close>

text \<open>The calls a batch of events asks for, by the handlers registered; events of other sockets are skipped.\<close>

fun handler_calls :: "(native_handle \<rightharpoonup> ptr) \<Rightarrow> event_data list \<Rightarrow> (ptr \<times> native_handle \<times> event_type) list" where
  "handler_calls hs [] = []"
| "handler_calls hs (e # es) =
     (case hs (ed_handle e) of
        None \<Rightarrow> handler_calls hs es
      | Some h \<Rightarrow> (h, ed_handle e, ed_events e) # handler_calls hs es)"

definition call_handler ::
  "('c, 'k, 'w) loop_env \<Rightarrow> ptr \<times> native_handle \<times> event_type \<Rightarrow> ('c, 'k, 'w) loop_state \<Rightarrow> ('c, 'k, 'w) loop_state" where
  "call_handler env c s =
     (case c of (h, fd, e) \<Rightarrow> case le_event env h fd e s of (l, w) \<Rightarrow> (l\<lparr>el_stats := count_event (el_stats l)\<rparr>, w))"

definition no_null_handler :: "('c, 'k, 'w) event_loop \<Rightarrow> bool" where
  "no_null_handler l \<longleftrightarrow> (\<forall>fd. el_handlers l fd \<noteq> Some 0)"

text \<open>An event goes to the handler its descriptor has when its turn comes.\<close>

definition deliver ::
  "('c, 'k, 'w) loop_env \<Rightarrow> event_data \<Rightarrow> ('c, 'k, 'w) loop_state \<Rightarrow> ('c, 'k, 'w) loop_state" where
  "deliver env e s =
     (case el_handlers (fst s) (ed_handle e) of None \<Rightarrow> s | Some h \<Rightarrow> call_handler env (h, ed_handle e, ed_events e) s)"

definition events_keep_no_null :: "('c, 'k, 'w) loop_env \<Rightarrow> bool" where
  "events_keep_no_null env \<longleftrightarrow>
     (\<forall>h fd e s. no_null_handler (fst s) \<longrightarrow> no_null_handler (fst (le_event env h fd e s)))"

lemma deliver_no_null:
  assumes "events_keep_no_null env" and "no_null_handler (fst s)"
  shows "no_null_handler (fst (deliver env e s))"
proof (cases "el_handlers (fst s) (ed_handle e)")
  case (Some h)
  obtain l w where c: "le_event env h (ed_handle e) (ed_events e) s = (l, w)" by fastforce
  then have "no_null_handler l" using assms unfolding events_keep_no_null_def by (metis fst_conv)
  then show ?thesis using c Some by (simp add: deliver_def call_handler_def no_null_handler_def)
qed (simp add: deliver_def assms(2))

lemma dispatch_delivers:
  assumes "events_keep_no_null env"
  shows "no_null_handler (fst s) \<Longrightarrow> dispatch_events env es s = Some (fold (deliver env) es s)"
proof (induction es arbitrary: s)
  case Nil
  then show ?case by (cases s) simp
next
  case (Cons e es)
  obtain l w where s: "s = (l, w)" by fastforce
  have "dispatch_events env (e # es) s = dispatch_events env es (deliver env e s)"
  proof (cases "el_handlers l (ed_handle e)")
    case (Some h)
    then have "h \<noteq> 0" using Cons.prems s unfolding no_null_handler_def by (metis fst_conv)
    then show ?thesis using Some s by (simp add: deliver_def call_handler_def split: prod.split)
  qed (simp add: s deliver_def)
  then show ?case using Cons.IH [OF deliver_no_null [OF assms Cons.prems]] by (simp del: dispatch_events.simps)
qed

text \<open>Handlers that leave the registrations alone: the events go to the handlers of the start.\<close>

definition events_keep_handlers :: "('c, 'k, 'w) loop_env \<Rightarrow> bool" where
  "events_keep_handlers env \<longleftrightarrow> (\<forall>h fd e s. el_handlers (fst (le_event env h fd e s)) = el_handlers (fst s))"

lemma call_handler_handlers:
  "events_keep_handlers env \<Longrightarrow> el_handlers (fst (call_handler env c s)) = el_handlers (fst s)"
  unfolding call_handler_def events_keep_handlers_def
  by (cases c) (metis (mono_tags, lifting) case_prod_beta event_loop.select_convs(5) event_loop.update_convs(9)
      event_loop.surjective fst_conv)

lemma deliver_kept:
  assumes "events_keep_handlers env"
  shows "fold (deliver env) es s = fold (call_handler env) (handler_calls (el_handlers (fst s)) es) s"
proof (induction es arbitrary: s)
  case (Cons e es)
  show ?case
  proof (cases "el_handlers (fst s) (ed_handle e)")
    case (Some h)
    let ?s = "call_handler env (h, ed_handle e, ed_events e) s"
    have "el_handlers (fst ?s) = el_handlers (fst s)" by (rule call_handler_handlers [OF assms])
    then show ?thesis using Cons.IH [of ?s] Some by (simp add: deliver_def)
  qed (use Cons.IH in \<open>simp add: deliver_def\<close>)
qed simp

subsection \<open>What kqueue reports\<close>

definition kq_event :: "kevent \<Rightarrow> event_data" where
  "kq_event k = \<lparr>ed_handle = int_cast (kv_ident k), ed_events = kq_convert_back_events k, ed_user_data = kv_udata k\<rparr>"

lemma kq_convert_back_flags:
  "has_flag (kq_convert_back_events k) ev_read \<longleftrightarrow> kv_filter k = EVFILT_READ"
  "has_flag (kq_convert_back_events k) ev_write \<longleftrightarrow> kv_filter k = EVFILT_WRITE"
  "has_flag (kq_convert_back_events k) ev_error \<longleftrightarrow> kv_flags k AND EV_ERROR \<noteq> 0"
  "has_flag (kq_convert_back_events k) ev_hangup \<longleftrightarrow> kv_flags k AND EV_EOF \<noteq> 0"
  by (simp_all add: kq_convert_back_events_def has_flag_def ev_or_def ev_defs EVFILT_READ_def EVFILT_WRITE_def Let_def)

lemma run_once_kqueue:
  assumes "events_keep_no_null env" and "el_poller (fst (process_tasks env s)) = kqueue_poller api kq"
    and "no_null_handler (fst (process_tasks env s))"
  shows "run_once env t s =
    (case process_tasks env s of
       (l1, w1) \<Rightarrow> case ka_wait api kq 1024 (kq_timeout t) w1 of
         ((n, err, evs), w2) \<Rightarrow>
           if n = -1 \<and> err \<noteq> EINTR then Some (socket_error, (l1, w2))
           else map_option (\<lambda>s4. (ec_ok, s4)) (process_timers env
             (fold (deliver env) (map kq_event (if n = -1 then [] else take (nat n) evs)) (l1, w2))))"
proof -
  obtain l1 w1 where p: "process_tasks env s = (l1, w1)" by fastforce
  have d: "dispatch_events env es (l1, w2) = Some (fold (deliver env) es (l1, w2))" for es w2
    using dispatch_delivers [OF assms(1), of "(l1, w2)" es] assms(3) p by simp
  have "int_cast (int max_events) = 1024" by (simp add: max_events_def int_cast_id)
  then show ?thesis
    using assms(2) p
    by (simp add: run_once_def kqueue_poller_def kq_wait_def kq_event_def [abs_def] d vresult_defs
        split: prod.split)
qed

subsection \<open>Returning from the loop\<close>

lemma run_loop_returns:
  assumes wf: "wf R"
    and step: "\<And>s. I s \<Longrightarrow> \<not> el_stopped (fst s) \<Longrightarrow>
      \<exists>t w1 s'. calculate_timeout env (fst s) (snd s) = (t, w1) \<and> run_once env t (fst s, w1) = Some (ec_ok, s')
        \<and> I s' \<and> (el_stopped (fst s') \<or> (s', s) \<in> R)"
  shows "I s \<Longrightarrow> \<exists>s'. run_loop env s = Some (ec_ok, s') \<and> \<not> el_running (fst s')"
  using wf
proof (induction s rule: wf_induct_rule)
  case (less s)
  show ?case
  proof (cases "el_stopped (fst s)")
    case True
    then show ?thesis by (simp add: run_loop.simps vresult_defs)
  next
    case False
    from step [OF less.prems False] obtain t w1 s' where
      s': "calculate_timeout env (fst s) (snd s) = (t, w1)" "run_once env t (fst s, w1) = Some (ec_ok, s')"
        "I s'" "el_stopped (fst s') \<or> (s', s) \<in> R"
      by blast
    have "run_loop env s = run_loop env s'"
      using False s'(1,2) by (subst run_loop.simps) (simp add: vresult_defs)
    moreover have "\<exists>s2. run_loop env s' = Some (ec_ok, s2) \<and> \<not> el_running (fst s2)"
      using s'(3,4) less.IH [of s'] by (cases "el_stopped (fst s')") (auto simp: run_loop.simps [of env s'] vresult_defs)
    ultimately show ?thesis by simp
  qed
qed

end
