(* ===== verification/Timeout_Manager.thy ===== *)
theory Timeout_Manager
  imports Event_Loop_Facts "HOL-Library.AList"
begin

text \<open>
  \<open>include/vynx_http/timeout_manager.h\<close> and \<open>src/timeout_manager.cpp\<close>. The entries are an association
  list in the order an iteration over the \<open>unordered_map\<close> takes. The closure a timeout leaves in the
  event loop carries its handle, its type and the caller's callback; other closures of the loop are
  \<open>Other_closure\<close>. The counters are unbounded here. A callback runs while the manager's mutex is held,
  so it cannot call the manager (\<open>Timeout_Threads\<close> shows what happens if it does); here it changes the rest of the
  world only.
\<close>

datatype timeout_type = T_connect | T_read | T_write | T_idle

definition timeout_code :: "timeout_type \<Rightarrow> nat" where
  "timeout_code t = (case t of T_connect \<Rightarrow> 0 | T_read \<Rightarrow> 1 | T_write \<Rightarrow> 2 | T_idle \<Rightarrow> 3)"

record timeout_config =
  tcf_connect_timeout :: int
  tcf_read_timeout :: int
  tcf_write_timeout :: int
  tcf_idle_timeout :: int
  tcf_enable_connect :: bool
  tcf_enable_read :: bool
  tcf_enable_write :: bool
  tcf_enable_idle :: bool

definition timeout_config_default :: timeout_config where
  "timeout_config_default =
     \<lparr>tcf_connect_timeout = 30000, tcf_read_timeout = 60000, tcf_write_timeout = 60000, tcf_idle_timeout = 300000,
      tcf_enable_connect = True, tcf_enable_read = True, tcf_enable_write = True, tcf_enable_idle = True\<rparr>"

datatype 'u timeout_callback = User_callback 'u | No_op

datatype ('u, 'c) loop_closure =
  Timeout_closure native_handle timeout_type "'u timeout_callback option"
| Other_closure 'c

record 'u timeout_entry =
  to_timer :: timer_id
  to_handle :: native_handle
  to_type :: timeout_type
  to_callback :: "'u timeout_callback option"
  to_active :: bool

record timeout_stats =
  tst_fired :: nat
  tst_cancelled :: nat
  tst_active :: nat

type_synonym 'u timeout_entries = "(64 word \<times> 'u timeout_entry) list"

record 'u timeout_manager =
  tm_loop :: bool
  tm_entries :: "'u timeout_entries"
  tm_stats :: timeout_stats

definition tm_impl :: "'u timeout_manager" where
  "tm_impl = \<lparr>tm_loop = False, tm_entries = [], tm_stats = \<lparr>tst_fired = 0, tst_cancelled = 0, tst_active = 0\<rparr>\<rparr>"

definition tm_create :: "'u timeout_manager option result" where
  "tm_create = Inr (Some tm_impl)"

definition make_key :: "native_handle \<Rightarrow> timeout_type \<Rightarrow> 64 word" where
  "make_key h t = of_int h * 10 + of_nat (timeout_code t)"

definition count_active_in_map :: "'u timeout_entries \<Rightarrow> nat" where
  "count_active_in_map es = length (filter (\<lambda>(key, entry). to_active entry) es)"

definition recount :: "'u timeout_manager \<Rightarrow> 'u timeout_manager" where
  "recount m = m\<lparr>tm_stats := (tm_stats m)\<lparr>tst_active := count_active_in_map (tm_entries m)\<rparr>\<rparr>"

definition count_cancelled :: "'u timeout_manager \<Rightarrow> 'u timeout_manager" where
  "count_cancelled m = m\<lparr>tm_stats := (tm_stats m)\<lparr>tst_cancelled := tst_cancelled (tm_stats m) + 1\<rparr>\<rparr>"

text \<open>The timer of an entry is cancelled when there is a loop and a timer; the outcome is ignored.\<close>

definition cancel_entry_timer :: "bool \<Rightarrow> 'u timeout_entry \<Rightarrow> ('c, 'k, 'w) event_loop \<Rightarrow> ('c, 'k, 'w) event_loop" where
  "cancel_entry_timer has_loop e l =
     (if has_loop \<and> to_timer e \<noteq> invalid_timer_id then snd (cancel_timer (to_timer e) l) else l)"

subsection \<open>Starting\<close>

definition replace_active ::
  "64 word \<Rightarrow> 'u timeout_manager \<times> ('c, 'k, 'w) event_loop \<Rightarrow> 'u timeout_manager \<times> ('c, 'k, 'w) event_loop" where
  "replace_active key ml =
     (case map_of (tm_entries (fst ml)) key of
        None \<Rightarrow> ml
      | Some e \<Rightarrow> if to_active e then (count_cancelled (fst ml), cancel_entry_timer (tm_loop (fst ml)) e (snd ml)) else ml)"

definition tm_start ::
  "(('u, 'c) loop_closure, 'k, 'w) loop_env \<Rightarrow> native_handle \<Rightarrow> timeout_type \<Rightarrow> int \<Rightarrow> 'u timeout_callback option \<Rightarrow>
   'u timeout_manager \<Rightarrow> (('u, 'c) loop_closure, 'k, 'w) loop_state \<Rightarrow>
   'u timeout_manager \<times> (('u, 'c) loop_closure, 'k, 'w) loop_state" where
  "tm_start env h ty duration cb m s =
     (case replace_active (make_key h ty) (m, fst s) of
        (m1, l1) \<Rightarrow>
          case (if tm_loop m1 then schedule_timer env duration (Timeout_closure h ty cb) False (l1, snd s)
                else (invalid_timer_id, (l1, snd s))) of
            (tid, s2) \<Rightarrow>
              (recount (m1\<lparr>tm_entries := AList.update (make_key h ty)
                 \<lparr>to_timer = tid, to_handle = h, to_type = ty, to_callback = cb, to_active = True\<rparr> (tm_entries m1)\<rparr>),
               s2))"

subsection \<open>Cancelling\<close>

definition deactivate :: "'u timeout_entry \<Rightarrow> 'u timeout_entry" where
  "deactivate e = e\<lparr>to_active := False\<rparr>"

definition tm_cancel ::
  "native_handle \<Rightarrow> timeout_type \<Rightarrow> 'u timeout_manager \<Rightarrow> ('c, 'k, 'w) event_loop \<Rightarrow>
   vresult \<times> 'u timeout_manager \<times> ('c, 'k, 'w) event_loop" where
  "tm_cancel h ty m l =
     (case map_of (tm_entries m) (make_key h ty) of
        None \<Rightarrow> (invalid_argument, m, l)
      | Some e \<Rightarrow>
          if \<not> to_active e then (invalid_argument, m, l)
          else (make_result_void,
                recount (count_cancelled (m\<lparr>tm_entries := AList.map_entry (make_key h ty) deactivate (tm_entries m)\<rparr>)),
                cancel_entry_timer (tm_loop m) e l))"

fun cancel_all_loop ::
  "native_handle \<Rightarrow> bool \<Rightarrow> 'u timeout_entries \<Rightarrow> ('c, 'k, 'w) event_loop \<Rightarrow>
   'u timeout_entries \<times> nat \<times> ('c, 'k, 'w) event_loop" where
  "cancel_all_loop h has_loop [] l = ([], 0, l)"
| "cancel_all_loop h has_loop ((key, e) # es) l =
     (if to_handle e = h \<and> to_active e
      then case cancel_all_loop h has_loop es (cancel_entry_timer has_loop e l) of
             (es', n, l') \<Rightarrow> ((key, deactivate e) # es', Suc n, l')
      else case cancel_all_loop h has_loop es l of (es', n, l') \<Rightarrow> ((key, e) # es', n, l'))"

definition tm_cancel_all ::
  "native_handle \<Rightarrow> 'u timeout_manager \<Rightarrow> ('c, 'k, 'w) event_loop \<Rightarrow> 'u timeout_manager \<times> ('c, 'k, 'w) event_loop" where
  "tm_cancel_all h m l =
     (case cancel_all_loop h (tm_loop m) (tm_entries m) l of
        (es, n, l') \<Rightarrow>
          (recount (m\<lparr>tm_entries := es, tm_stats := (tm_stats m)\<lparr>tst_cancelled := tst_cancelled (tm_stats m) + n\<rparr>\<rparr>), l'))"

subsection \<open>A timer that fires\<close>

text \<open>The closure in the loop; the flag says whether the caller's callback is called.\<close>

definition tm_fire :: "native_handle \<Rightarrow> timeout_type \<Rightarrow> 'u timeout_manager \<Rightarrow> bool \<times> 'u timeout_manager" where
  "tm_fire h ty m =
     (case map_of (tm_entries m) (make_key h ty) of
        None \<Rightarrow> (False, recount m)
      | Some e \<Rightarrow>
          if to_active e
          then (True, recount (m\<lparr>tm_entries := AList.map_entry (make_key h ty) deactivate (tm_entries m),
                  tm_stats := (tm_stats m)\<lparr>tst_fired := tst_fired (tm_stats m) + 1\<rparr>\<rparr>))
          else (False, recount m))"

definition tm_is_active :: "native_handle \<Rightarrow> timeout_type \<Rightarrow> 'u timeout_manager \<Rightarrow> bool" where
  "tm_is_active h ty m =
     (case map_of (tm_entries m) (make_key h ty) of None \<Rightarrow> False | Some e \<Rightarrow> to_active e)"

subsection \<open>The operations of the class\<close>

text \<open>A manager that has been moved from has no \<open>impl_\<close>.\<close>

definition start_timeout ::
  "(('u, 'c) loop_closure, 'k, 'w) loop_env \<Rightarrow> native_handle \<Rightarrow> timeout_type \<Rightarrow> int \<Rightarrow> 'u timeout_callback option \<Rightarrow>
   'u timeout_manager option \<Rightarrow> (('u, 'c) loop_closure, 'k, 'w) loop_state \<Rightarrow>
   vresult \<times> 'u timeout_manager option \<times> (('u, 'c) loop_closure, 'k, 'w) loop_state" where
  "start_timeout env h ty duration cb mo s =
     (case mo of
        None \<Rightarrow> (invalid_state, None, s)
      | Some m \<Rightarrow> (case tm_start env h ty duration cb m s of (m', s') \<Rightarrow> (make_result_void, Some m', s')))"

definition cancel_timeout ::
  "native_handle \<Rightarrow> timeout_type \<Rightarrow> 'u timeout_manager option \<Rightarrow> ('c, 'k, 'w) event_loop \<Rightarrow>
   vresult \<times> 'u timeout_manager option \<times> ('c, 'k, 'w) event_loop" where
  "cancel_timeout h ty mo l =
     (case mo of
        None \<Rightarrow> (invalid_state, None, l)
      | Some m \<Rightarrow> (case tm_cancel h ty m l of (r, m', l') \<Rightarrow> (r, Some m', l')))"

definition cancel_all ::
  "native_handle \<Rightarrow> 'u timeout_manager option \<Rightarrow> ('c, 'k, 'w) event_loop \<Rightarrow>
   vresult \<times> 'u timeout_manager option \<times> ('c, 'k, 'w) event_loop" where
  "cancel_all h mo l =
     (case mo of
        None \<Rightarrow> (invalid_state, None, l)
      | Some m \<Rightarrow> (case tm_cancel_all h m l of (m', l') \<Rightarrow> (make_result_void, Some m', l')))"

definition reset_idle ::
  "(('u, 'c) loop_closure, 'k, 'w) loop_env \<Rightarrow> native_handle \<Rightarrow> int \<Rightarrow>
   'u timeout_manager option \<Rightarrow> (('u, 'c) loop_closure, 'k, 'w) loop_state \<Rightarrow>
   vresult \<times> 'u timeout_manager option \<times> (('u, 'c) loop_closure, 'k, 'w) loop_state" where
  "reset_idle env h duration mo s =
     (case cancel_timeout h T_idle mo (fst s) of
        (r, mo1, l1) \<Rightarrow>
          if v_has_error r \<and> r \<noteq> invalid_argument then (r, mo1, (l1, snd s))
          else start_timeout env h T_idle duration (Some No_op) mo1 (l1, snd s))"

definition is_active :: "native_handle \<Rightarrow> timeout_type \<Rightarrow> 'u timeout_manager option \<Rightarrow> bool" where
  "is_active h ty mo = (case mo of None \<Rightarrow> False | Some m \<Rightarrow> tm_is_active h ty m)"

definition active_count :: "'u timeout_manager option \<Rightarrow> nat" where
  "active_count mo = (case mo of None \<Rightarrow> 0 | Some m \<Rightarrow> count_active_in_map (tm_entries m))"

definition tm_get_stats :: "'u timeout_manager option \<Rightarrow> timeout_stats" where
  "tm_get_stats mo = (case mo of None \<Rightarrow> \<lparr>tst_fired = 0, tst_cancelled = 0, tst_active = 0\<rparr> | Some m \<Rightarrow> tm_stats m)"

definition set_event_loop :: "bool \<Rightarrow> 'u timeout_manager option \<Rightarrow> 'u timeout_manager option" where
  "set_event_loop present mo = map_option (\<lambda>m. m\<lparr>tm_loop := present\<rparr>) mo"

subsection \<open>Keys\<close>

definition int32 :: "int \<Rightarrow> bool" where
  "int32 h \<longleftrightarrow> - (2 ^ 31) \<le> h \<and> h < 2 ^ 31"

lemma timeout_code_less: "timeout_code t < 4"
  by (cases t) (simp_all add: timeout_code_def)

lemma timeout_code_inj: "timeout_code t = timeout_code u \<Longrightarrow> t = u"
  by (cases t; cases u) (simp_all add: timeout_code_def)

lemma make_key_inj:
  assumes "make_key h t = make_key h' t'" and "int32 h" and "int32 h'"
  shows "h = h' \<and> t = t'"
proof -
  let ?i = "h * 10 + int (timeout_code t)" and ?j = "h' * 10 + int (timeout_code t')"
  have "(of_int ?i :: 64 word) = of_int ?j" using assms(1) by (simp add: make_key_def)
  then have "signed_take_bit 63 ?i = signed_take_bit 63 ?j"
    using arg_cong [of "of_int ?i :: 64 word" "of_int ?j" sint] unfolding signed_of_int by simp
  moreover have "- (2 ^ 63) \<le> ?i" "?i < 2 ^ 63" "- (2 ^ 63) \<le> ?j" "?j < 2 ^ 63"
    using assms(2,3) timeout_code_less [of t] timeout_code_less [of t'] by (auto simp: int32_def)
  ultimately have "?i = ?j" by (simp add: signed_take_bit_int_eq_self)
  then have "h = h'" "timeout_code t = timeout_code t'"
    using timeout_code_less [of t] timeout_code_less [of t'] by presburger+
  then show ?thesis by (simp add: timeout_code_inj)
qed

end
