(* ===== verification/Timeout_Facts.thy ===== *)
theory Timeout_Facts
  imports Timeout_Manager
begin

text \<open>
  The timeout manager against its contract, a set of active timeouts, and its link to the timers of the
  event loop. The loop's side of the link is an interface, the live timers by identifier; the event
  loop provides it.
\<close>

type_synonym 'u entry_map = "64 word \<rightharpoonup> 'u timeout_entry"

subsection \<open>The set of active timeouts\<close>

definition keys_ok :: "'u entry_map \<Rightarrow> bool" where
  "keys_ok mp \<longleftrightarrow> (\<forall>k e. mp k = Some e \<longrightarrow> k = make_key (to_handle e) (to_type e) \<and> int32 (to_handle e))"

definition active_of :: "'u entry_map \<Rightarrow> (native_handle \<times> timeout_type) set" where
  "active_of mp = {(h, ty). int32 h \<and> (\<exists>e. mp (make_key h ty) = Some e \<and> to_active e)}"

definition active_set :: "'u timeout_manager \<Rightarrow> (native_handle \<times> timeout_type) set" where
  "active_set m = active_of (map_of (tm_entries m))"

definition tm_ok :: "'u timeout_manager \<Rightarrow> bool" where
  "tm_ok m \<longleftrightarrow> distinct (map fst (tm_entries m)) \<and> keys_ok (map_of (tm_entries m))
     \<and> tst_active (tm_stats m) = count_active_in_map (tm_entries m)"

lemma map_of_map_entry: "map_of (AList.map_entry k f es) = (map_of es)(k := map_option f (map_of es k))"
  by (induction es) (auto simp: fun_eq_iff)

lemma keys_map_entry: "map fst (AList.map_entry k f es) = map fst es"
  by (induction es) auto

lemma deactivate_sel [simp]:
  "to_timer (deactivate e) = to_timer e" "to_handle (deactivate e) = to_handle e" "to_type (deactivate e) = to_type e"
  "to_callback (deactivate e) = to_callback e" "to_active (deactivate e) = False"
  by (simp_all add: deactivate_def)

lemma keys_okD: "keys_ok mp \<Longrightarrow> mp k = Some e \<Longrightarrow> k = make_key (to_handle e) (to_type e) \<and> int32 (to_handle e)"
  by (simp add: keys_ok_def)

lemma keys_ok_sel: "keys_ok mp \<Longrightarrow> int32 h \<Longrightarrow> mp (make_key h ty) = Some e \<Longrightarrow> to_handle e = h \<and> to_type e = ty"
  using keys_okD make_key_inj by metis

lemma keys_ok_deactivate: "keys_ok mp \<Longrightarrow> keys_ok (mp(k := map_option deactivate (mp k)))"
  by (auto simp: keys_ok_def)

lemma keys_ok_upd: "keys_ok mp \<Longrightarrow> int32 h \<Longrightarrow> to_handle e = h \<Longrightarrow> to_type e = ty \<Longrightarrow> keys_ok (mp(make_key h ty \<mapsto> e))"
  by (auto simp: keys_ok_def)

lemma active_of_upd:
  assumes "int32 h" and "to_active e"
  shows "active_of (mp(make_key h ty \<mapsto> e)) = insert (h, ty) (active_of mp)"
  using assms by (auto simp: active_of_def split: if_splits dest: make_key_inj)

lemma active_of_deactivate:
  assumes "int32 h"
  shows "active_of (mp(make_key h ty := map_option deactivate (mp (make_key h ty)))) = active_of mp - {(h, ty)}"
  using assms by (auto simp: active_of_def split: if_splits dest: make_key_inj)

lemma active_of_image:
  assumes "keys_ok mp"
  shows "active_of mp = (\<lambda>e. (to_handle e, to_type e)) ` {e. \<exists>k. mp k = Some e \<and> to_active e}" (is "_ = ?f ` ?A")
proof
  show "?f ` ?A \<subseteq> active_of mp" using keys_okD [OF assms] by (fastforce simp: active_of_def)
  show "active_of mp \<subseteq> ?f ` ?A"
  proof
    fix x assume "x \<in> active_of mp"
    then obtain h ty e where x: "x = (h, ty)" "int32 h" "mp (make_key h ty) = Some e" "to_active e"
      by (auto simp: active_of_def)
    then have "h = to_handle e \<and> ty = to_type e"
      using keys_okD [OF assms x(3)] make_key_inj by blast
    then show "x \<in> ?f ` ?A" using x by auto
  qed
qed

lemma image_snd_pairs: "(\<lambda>(k, e). f e) ` {(k, e). P k e} = f ` {e. \<exists>k. P k e}"
  by auto

lemma count_active_card:
  assumes "distinct (map fst es)" and "keys_ok (map_of es)"
  shows "count_active_in_map es = card (active_of (map_of es))"
proof -
  let ?F = "filter (\<lambda>(k, e). to_active e) es" and ?f = "\<lambda>(k, e). (to_handle e, to_type e)"
  have "distinct ?F" using assms(1) distinct_filter distinct_map by blast
  then have c: "count_active_in_map es = card (set ?F)" by (simp only: count_active_in_map_def distinct_card)
  have inj: "inj_on ?f (set ?F)"
  proof (rule inj_onI)
    fix x y assume xy: "x \<in> set ?F" "y \<in> set ?F" "?f x = ?f y"
    obtain k e k' e' where kk: "x = (k, e)" "y = (k', e')" by (cases x; cases y)
    have "map_of es k = Some e" "map_of es k' = Some e'" using xy kk assms(1) by auto
    moreover have "to_handle e = to_handle e'" "to_type e = to_type e'" using xy(3) kk by simp_all
    ultimately have "k = k' \<and> e = e'" using keys_okD [OF assms(2)] by (metis option.inject)
    then show "x = y" using kk by simp
  qed
  have im: "?f ` set ?F = active_of (map_of es)"
  proof -
    have "set ?F = {(k, e). map_of es k = Some e \<and> to_active e}" using assms(1) by auto
    then show ?thesis unfolding active_of_image [OF assms(2)] by (simp only: image_snd_pairs)
  qed
  show ?thesis using card_image [OF inj] c unfolding im by simp
qed

lemma finite_active_set: "tm_ok m \<Longrightarrow> finite (active_set m)"
proof -
  assume "tm_ok m"
  then have "active_set m \<subseteq> (\<lambda>e. (to_handle e, to_type e)) ` ran (map_of (tm_entries m))"
    by (auto simp: active_set_def tm_ok_def active_of_image ran_def)
  then show ?thesis using finite_range_map_of [of "tm_entries m"] by (metis finite_imageI finite_ran finite_dom_map_of finite_subset)
qed

lemma tm_ok_active: "tm_ok m \<Longrightarrow> tst_active (tm_stats m) = card (active_set m)"
  by (simp add: tm_ok_def active_set_def count_active_card)

lemma recount_sel [simp]:
  "tm_entries (recount m) = tm_entries m" "tm_loop (recount m) = tm_loop m"
  "tst_fired (tm_stats (recount m)) = tst_fired (tm_stats m)" "tst_cancelled (tm_stats (recount m)) = tst_cancelled (tm_stats m)"
  "tst_active (tm_stats (recount m)) = count_active_in_map (tm_entries m)"
  "tm_entries (count_cancelled m) = tm_entries m" "tm_loop (count_cancelled m) = tm_loop m"
  "tst_fired (tm_stats (count_cancelled m)) = tst_fired (tm_stats m)"
  "tst_cancelled (tm_stats (count_cancelled m)) = Suc (tst_cancelled (tm_stats m))"
  by (simp_all add: recount_def count_cancelled_def)

lemma active_set_recount [simp]: "active_set (recount m) = active_set m" "active_set (count_cancelled m) = active_set m"
  by (simp_all add: active_set_def)

lemma tm_is_active_iff: "int32 h \<Longrightarrow> tm_is_active h ty m \<longleftrightarrow> (h, ty) \<in> active_set m"
  by (auto simp: tm_is_active_def active_set_def active_of_def split: option.split)

text \<open>Every timeout that was started has fired, has been cancelled, or is active.\<close>

definition balance :: "'u timeout_manager \<Rightarrow> nat" where
  "balance m = tst_fired (tm_stats m) + tst_cancelled (tm_stats m) + card (active_set m)"

lemma tm_impl_ok: "tm_ok tm_impl" "active_set tm_impl = {}" "balance tm_impl = 0"
  by (simp_all add: tm_ok_def tm_impl_def active_set_def active_of_def keys_ok_def count_active_in_map_def balance_def)

lemma replace_active_eq:
  assumes "replace_active (make_key h ty) (m, l) = (m1, l1)" and "int32 h"
  shows "tm_entries m1 = tm_entries m" "tm_loop m1 = tm_loop m" "tst_fired (tm_stats m1) = tst_fired (tm_stats m)"
    "tst_cancelled (tm_stats m1) = tst_cancelled (tm_stats m) + (if (h, ty) \<in> active_set m then 1 else 0)"
  using assms by (auto simp: replace_active_def active_set_def active_of_def split: option.splits if_splits)

lemma tm_start_spec:
  assumes "tm_start env h ty d cb m s = (m', s')" and ok: "tm_ok m" and h: "int32 h"
  shows "tm_ok m'" and "active_set m' = insert (h, ty) (active_set m)" and "balance m' = Suc (balance m)"
    and "tm_loop m' = tm_loop m"
proof -
  obtain m1 l1 where r: "replace_active (make_key h ty) (m, fst s) = (m1, l1)" by fastforce
  note m1 = replace_active_eq [OF r h]
  obtain e where e: "m' = recount (m1\<lparr>tm_entries := AList.update (make_key h ty) e (tm_entries m)\<rparr>)"
      "to_handle e = h" "to_type e = ty" "to_active e"
    using assms(1) r m1(1) by (auto simp: tm_start_def split: prod.splits)
  then have mp: "map_of (tm_entries m') = (map_of (tm_entries m))(make_key h ty \<mapsto> e)"
    by (simp add: update_conv')
  show a: "active_set m' = insert (h, ty) (active_set m)"
    unfolding active_set_def mp by (rule active_of_upd) (simp_all add: h e)
  show ok': "tm_ok m'"
    using ok h e mp keys_ok_upd [of "map_of (tm_entries m)" h e ty] by (auto simp: tm_ok_def distinct_update)
  have "card (insert (h, ty) (active_set m)) = card (active_set m) + (if (h, ty) \<in> active_set m then 0 else 1)"
    using finite_active_set [OF ok] by (simp add: insert_absorb)
  then show "balance m' = Suc (balance m)" using m1(3,4) e(1) a by (simp add: balance_def)
  show "tm_loop m' = tm_loop m" using e(1) m1(2) by simp
qed

lemma tm_deactivate_spec:
  assumes ok: "tm_ok m" and h: "int32 h" and act: "(h, ty) \<in> active_set m"
    and e: "tm_entries m' = AList.map_entry (make_key h ty) deactivate (tm_entries m)"
    and st: "tst_active (tm_stats m') = count_active_in_map (tm_entries m')"
      "tst_fired (tm_stats m') + tst_cancelled (tm_stats m') = Suc (tst_fired (tm_stats m) + tst_cancelled (tm_stats m))"
  shows "tm_ok m'" and "active_set m' = active_set m - {(h, ty)}" and "balance m' = balance m"
proof -
  show a: "active_set m' = active_set m - {(h, ty)}"
    unfolding active_set_def e map_of_map_entry by (rule active_of_deactivate [OF h])
  have "map fst (tm_entries m') = map fst (tm_entries m)" unfolding e by (rule keys_map_entry)
  then show "tm_ok m'" using ok st e keys_ok_deactivate by (auto simp: tm_ok_def map_of_map_entry)
  have "Suc (card (active_set m - {(h, ty)})) = card (active_set m)"
    using finite_active_set [OF ok] act by (rule card.remove [symmetric, simplified Suc_eq_plus1 [symmetric]])
  then show "balance m' = balance m" using st(2) a by (simp add: balance_def)
qed

lemma tm_cancel_spec:
  assumes "tm_cancel h ty m l = (r, m', l')" and ok: "tm_ok m" and h: "int32 h"
  shows "tm_ok m'" and "active_set m' = active_set m - {(h, ty)}" and "balance m' = balance m"
    and "r = (if (h, ty) \<in> active_set m then ec_ok else invalid_argument)" and "tm_loop m' = tm_loop m"
proof -
  have iff: "(h, ty) \<in> active_set m \<longleftrightarrow> (\<exists>e. map_of (tm_entries m) (make_key h ty) = Some e \<and> to_active e)"
    using h by (simp add: active_set_def active_of_def)
  show "r = (if (h, ty) \<in> active_set m then ec_ok else invalid_argument)" "tm_loop m' = tm_loop m"
    using assms(1) by (auto simp: tm_cancel_def iff vresult_defs split: option.splits if_splits)
  have "tm_ok m' \<and> active_set m' = active_set m - {(h, ty)} \<and> balance m' = balance m"
  proof (cases "(h, ty) \<in> active_set m")
    case False
    then have "m' = m" using assms(1) by (auto simp: tm_cancel_def iff split: option.splits if_splits)
    then show ?thesis using ok False by simp
  next
    case True
    then have "tm_entries m' = AList.map_entry (make_key h ty) deactivate (tm_entries m)"
        "tst_active (tm_stats m') = count_active_in_map (tm_entries m')"
        "tst_fired (tm_stats m') + tst_cancelled (tm_stats m') = Suc (tst_fired (tm_stats m) + tst_cancelled (tm_stats m))"
      using assms(1) by (auto simp: tm_cancel_def iff split: option.splits if_splits)
    from tm_deactivate_spec [OF ok h True this] show ?thesis by simp
  qed
  then show "tm_ok m'" "active_set m' = active_set m - {(h, ty)}" "balance m' = balance m" by simp_all
qed

lemma tm_fire_spec:
  assumes "tm_fire h ty m = (called, m')" and ok: "tm_ok m" and h: "int32 h"
  shows "tm_ok m'" and "active_set m' = active_set m - {(h, ty)}" and "balance m' = balance m"
    and "called \<longleftrightarrow> (h, ty) \<in> active_set m" and "tm_loop m' = tm_loop m"
proof -
  have iff: "(h, ty) \<in> active_set m \<longleftrightarrow> (\<exists>e. map_of (tm_entries m) (make_key h ty) = Some e \<and> to_active e)"
    using h by (simp add: active_set_def active_of_def)
  show "called \<longleftrightarrow> (h, ty) \<in> active_set m" "tm_loop m' = tm_loop m"
    using assms(1) by (auto simp: tm_fire_def iff split: option.splits if_splits)
  have "tm_ok m' \<and> active_set m' = active_set m - {(h, ty)} \<and> balance m' = balance m"
  proof (cases "(h, ty) \<in> active_set m")
    case False
    then have "m' = recount m" using assms(1) by (auto simp: tm_fire_def iff split: option.splits if_splits)
    then show ?thesis using ok False by (simp add: tm_ok_def balance_def)
  next
    case True
    then have "tm_entries m' = AList.map_entry (make_key h ty) deactivate (tm_entries m)"
        "tst_active (tm_stats m') = count_active_in_map (tm_entries m')"
        "tst_fired (tm_stats m') + tst_cancelled (tm_stats m') = Suc (tst_fired (tm_stats m) + tst_cancelled (tm_stats m))"
      using assms(1) by (auto simp: tm_fire_def iff split: option.splits if_splits)
    from tm_deactivate_spec [OF ok h True this] show ?thesis by simp
  qed
  then show "tm_ok m'" "active_set m' = active_set m - {(h, ty)}" "balance m' = balance m" by simp_all
qed

definition deactivate_handle :: "native_handle \<Rightarrow> 'u timeout_entry \<Rightarrow> 'u timeout_entry" where
  "deactivate_handle h e = (if to_handle e = h \<and> to_active e then deactivate e else e)"

lemma deactivate_handle_active:
  "(\<exists>e'. map_option (deactivate_handle h) eo = Some e' \<and> to_active e') \<longleftrightarrow> (\<exists>e. eo = Some e \<and> to_active e \<and> to_handle e \<noteq> h)"
  by (cases eo) (auto simp: deactivate_handle_def)

lemma cancel_all_loop_entries:
  "cancel_all_loop h b es l = (es', n, l') \<Longrightarrow>
   es' = map (\<lambda>(k, e). (k, deactivate_handle h e)) es \<and> n + count_active_in_map es' = count_active_in_map es"
  by (induction es arbitrary: l es' n l')
    (auto simp: count_active_in_map_def deactivate_handle_def split: if_splits prod.splits)

lemma tm_cancel_all_spec:
  assumes "tm_cancel_all h m l = (m', l')" and ok: "tm_ok m" and h: "int32 h"
  shows "tm_ok m'" and "active_set m' = {x \<in> active_set m. fst x \<noteq> h}" and "balance m' = balance m"
    and "tm_loop m' = tm_loop m"
proof -
  obtain es n where es: "cancel_all_loop h (tm_loop m) (tm_entries m) l = (es, n, l')"
      "m' = recount (m\<lparr>tm_entries := es, tm_stats := (tm_stats m)\<lparr>tst_cancelled := tst_cancelled (tm_stats m) + n\<rparr>\<rparr>)"
    using assms(1) by (auto simp: tm_cancel_all_def split: prod.splits)
  note en = cancel_all_loop_entries [OF es(1)]
  have mp: "map_of es = (\<lambda>k. map_option (deactivate_handle h) (map_of (tm_entries m) k))"
    using en by (auto simp: fun_eq_iff map_of_map)
  have keys: "keys_ok (map_of (tm_entries m))" using ok by (simp add: tm_ok_def)
  have "map fst es = map fst (tm_entries m)" using en by (simp add: case_prod_unfold comp_def)
  then show ok': "tm_ok m'"
    using ok es(2) mp by (auto simp: tm_ok_def keys_ok_def deactivate_handle_def)
  show a: "active_set m' = {x \<in> active_set m. fst x \<noteq> h}"
    using es(2) keys_ok_sel [OF keys]
    by (auto simp: active_set_def active_of_def mp deactivate_handle_active simp del: map_option_eq_Some)
  have cnt: "count_active_in_map es = card (active_set m')" "count_active_in_map (tm_entries m) = card (active_set m)"
    using tm_ok_active [OF ok] tm_ok_active [OF ok'] ok es(2) by (simp_all add: tm_ok_def)
  have "tst_fired (tm_stats m') = tst_fired (tm_stats m)" "tst_cancelled (tm_stats m') = tst_cancelled (tm_stats m) + n"
    using es(2) by simp_all
  then show "balance m' = balance m" using conjunct2 [OF en] unfolding cnt balance_def by linarith
  show "tm_loop m' = tm_loop m" using es(2) by simp
qed

subsection \<open>Reachable managers\<close>

text \<open>The number counts the timeouts that were started.\<close>

inductive tm_reachable :: "(('u, 'c) loop_closure, 'k, 'w) loop_env \<Rightarrow> nat \<Rightarrow> 'u timeout_manager \<Rightarrow> bool"
  for env :: "(('u, 'c) loop_closure, 'k, 'w) loop_env" where
  tmr_new: "tm_reachable env 0 tm_impl"
| tmr_start: "tm_reachable env n m \<Longrightarrow> int32 h \<Longrightarrow> tm_start env h ty d cb m s = (m', s') \<Longrightarrow> tm_reachable env (Suc n) m'"
| tmr_cancel: "tm_reachable env n m \<Longrightarrow> int32 h \<Longrightarrow>
    tm_cancel h ty m (l :: (('u, 'c) loop_closure, 'k, 'w) event_loop) = (r, m', l') \<Longrightarrow> tm_reachable env n m'"
| tmr_cancel_all: "tm_reachable env n m \<Longrightarrow> int32 h \<Longrightarrow>
    tm_cancel_all h m (l :: (('u, 'c) loop_closure, 'k, 'w) event_loop) = (m', l') \<Longrightarrow> tm_reachable env n m'"
| tmr_fire: "tm_reachable env n m \<Longrightarrow> int32 h \<Longrightarrow> tm_fire h ty m = (b, m') \<Longrightarrow> tm_reachable env n m'"
| tmr_loop: "tm_reachable env n m \<Longrightarrow> tm_reachable env n (m\<lparr>tm_loop := b\<rparr>)"

lemma tm_reachable_ok: "tm_reachable env n m \<Longrightarrow> tm_ok m \<and> balance m = n"
proof (induction rule: tm_reachable.induct)
  case tmr_new
  then show ?case using tm_impl_ok by simp
next
  case (tmr_start n m h ty d cb s m' s')
  then show ?case using tm_start_spec(1,3) [OF tmr_start.hyps(3)] by simp
next
  case (tmr_cancel n m h ty l r m' l')
  then show ?case using tm_cancel_spec by metis
next
  case (tmr_cancel_all n m h l m' l')
  then show ?case using tm_cancel_all_spec by metis
next
  case (tmr_fire n m h ty b m')
  then show ?case using tm_fire_spec by metis
next
  case (tmr_loop n m b)
  then show ?case by (simp add: tm_ok_def balance_def active_set_def)
qed

end
