(* ===== verification/Timeout_Link.thy ===== *)
theory Timeout_Link
  imports Timeout_Facts
begin

text \<open>
  The link between the timeout manager and the event loop: every active timeout has its own live timer
  whose closure is the timeout's, and no other live timer carries a timeout closure. What the manager
  needs of the loop is the interface \<open>timer_store\<close>.
\<close>

definition linked :: "'u entry_map \<Rightarrow> (timer_id \<rightharpoonup> ('u, 'c) loop_closure timer_entry) \<Rightarrow> bool" where
  "linked mp v \<longleftrightarrow>
     (\<forall>i t h ty cb. v i = Some t \<and> te_callback t = Timeout_closure h ty cb \<longrightarrow>
        int32 h \<and> \<not> te_repeating t \<and> (\<exists>e. mp (make_key h ty) = Some e \<and> to_active e \<and> to_timer e = i))
     \<and> (\<forall>k e. mp k = Some e \<and> to_active e \<longrightarrow>
          (\<exists>t. v (to_timer e) = Some t \<and> te_callback t = Timeout_closure (to_handle e) (to_type e) (to_callback e)))"

lemma linkedD1:
  "linked mp v \<Longrightarrow> v i = Some t \<Longrightarrow> te_callback t = Timeout_closure h ty cb \<Longrightarrow>
   int32 h \<and> \<not> te_repeating t \<and> (\<exists>e. mp (make_key h ty) = Some e \<and> to_active e \<and> to_timer e = i)"
  unfolding linked_def by blast

lemma linkedD2:
  "linked mp v \<Longrightarrow> mp k = Some e \<Longrightarrow> to_active e \<Longrightarrow>
   \<exists>t. v (to_timer e) = Some t \<and> te_callback t = Timeout_closure (to_handle e) (to_type e) (to_callback e)"
  by (simp add: linked_def)

lemma linkedI:
  assumes "\<And>i t h ty cb. v i = Some t \<Longrightarrow> te_callback t = Timeout_closure h ty cb \<Longrightarrow>
      int32 h \<and> \<not> te_repeating t \<and> (\<exists>e. mp (make_key h ty) = Some e \<and> to_active e \<and> to_timer e = i)"
    and "\<And>k e. mp k = Some e \<Longrightarrow> to_active e \<Longrightarrow>
      \<exists>t. v (to_timer e) = Some t \<and> te_callback t = Timeout_closure (to_handle e) (to_type e) (to_callback e)"
  shows "linked mp v"
  using assms unfolding linked_def by blast

subsection \<open>The interface\<close>

locale timer_store =
  fixes ok :: "'q \<Rightarrow> bool" and full :: "'q \<Rightarrow> bool"
    and view :: "'q \<Rightarrow> timer_id \<rightharpoonup> ('u, 'c) loop_closure timer_entry"
    and add :: "int \<Rightarrow> int \<Rightarrow> ('u, 'c) loop_closure \<Rightarrow> bool \<Rightarrow> 'q \<Rightarrow> timer_id \<times> 'q"
    and cancel :: "timer_id \<Rightarrow> 'q \<Rightarrow> 'q"
  assumes cancel_ok: "ok q \<Longrightarrow> ok (cancel i q)"
    and cancel_full: "full (cancel i q) = full q"
    and cancel_view: "ok q \<Longrightarrow> view (cancel i q) = (view q)(i := None)"
    and add_ok: "ok q \<Longrightarrow> \<not> full q \<Longrightarrow> add x d c r q = (i, q') \<Longrightarrow> ok q'"
    and add_fresh: "ok q \<Longrightarrow> \<not> full q \<Longrightarrow> add x d c r q = (i, q') \<Longrightarrow> view q i = None"
    and add_view: "ok q \<Longrightarrow> \<not> full q \<Longrightarrow> add x d c r q = (i, q') \<Longrightarrow>
      view q' = (view q)(i \<mapsto> \<lparr>te_id = i, te_expiry = x, te_interval = d, te_callback = c, te_repeating = r,
                             te_cancelled = False\<rparr>)"
    and view_valid: "ok q \<Longrightarrow> view q i = Some t \<Longrightarrow> i \<noteq> invalid_timer_id"
begin

lemma link_cancel:
  assumes q: "ok q" and ln: "linked mp (view q)" and keys: "keys_ok mp" and e: "mp k = Some e" "to_active e"
  shows "linked (mp(k \<mapsto> deactivate e)) (view (cancel (to_timer e) q))"
proof (rule linkedI)
  fix i t h ty cb
  assume t: "view (cancel (to_timer e) q) i = Some t" "te_callback t = Timeout_closure h ty cb"
  then have i: "view q i = Some t" "i \<noteq> to_timer e" using cancel_view [OF q] by (auto split: if_splits)
  obtain e2 where e2: "int32 h" "\<not> te_repeating t" "mp (make_key h ty) = Some e2" "to_active e2" "to_timer e2 = i"
    using linkedD1 [OF ln i(1) t(2)] by blast
  moreover have "make_key h ty \<noteq> k" using e2 e i(2) by auto
  ultimately show "int32 h \<and> \<not> te_repeating t
      \<and> (\<exists>e'. (mp(k \<mapsto> deactivate e)) (make_key h ty) = Some e' \<and> to_active e' \<and> to_timer e' = i)" by simp
next
  fix k' e' assume e': "(mp(k \<mapsto> deactivate e)) k' = Some e'" "to_active e'"
  then have k': "k' \<noteq> k" "mp k' = Some e'" by (auto split: if_splits)
  obtain t where t: "view q (to_timer e') = Some t"
      "te_callback t = Timeout_closure (to_handle e') (to_type e') (to_callback e')"
    using linkedD2 [OF ln k'(2) e'(2)] by blast
  have "to_timer e' \<noteq> to_timer e"
  proof
    assume "to_timer e' = to_timer e"
    then have "to_handle e' = to_handle e \<and> to_type e' = to_type e"
      using linkedD2 [OF ln e] t by auto
    then show False using keys_okD [OF keys k'(2)] keys_okD [OF keys e(1)] k'(1) by simp
  qed
  then show "\<exists>t. view (cancel (to_timer e) q) (to_timer e') = Some t
      \<and> te_callback t = Timeout_closure (to_handle e') (to_type e') (to_callback e')"
    using t cancel_view [OF q] by simp
qed

lemma link_add:
  assumes q: "ok q" "\<not> full q" and ln: "linked mp (view q)" and h: "int32 h"
    and free: "\<And>e. mp (make_key h ty) = Some e \<Longrightarrow> \<not> to_active e"
    and a: "add x d (Timeout_closure h ty cb) False q = (i, q')"
    and n: "to_timer n = i" "to_handle n = h" "to_type n = ty" "to_callback n = cb" "to_active n"
  shows "linked (mp(make_key h ty \<mapsto> n)) (view q')"
proof (rule linkedI)
  note v = add_view [OF q a] and fresh = add_fresh [OF q a]
  fix i' t h' ty' cb'
  assume t: "view q' i' = Some t" "te_callback t = Timeout_closure h' ty' cb'"
  show "int32 h' \<and> \<not> te_repeating t
      \<and> (\<exists>e'. (mp(make_key h ty \<mapsto> n)) (make_key h' ty') = Some e' \<and> to_active e' \<and> to_timer e' = i')"
  proof (cases "i' = i")
    case True
    then show ?thesis using t v h n by auto
  next
    case False
    then have "view q i' = Some t" using t v by simp
    from linkedD1 [OF ln this t(2)] show ?thesis using free by auto
  qed
next
  note v = add_view [OF q a] and fresh = add_fresh [OF q a]
  fix k' e' assume e': "(mp(make_key h ty \<mapsto> n)) k' = Some e'" "to_active e'"
  show "\<exists>t. view q' (to_timer e') = Some t
      \<and> te_callback t = Timeout_closure (to_handle e') (to_type e') (to_callback e')"
  proof (cases "k' = make_key h ty")
    case True
    then show ?thesis using e' v n by auto
  next
    case False
    then obtain t where t: "view q (to_timer e') = Some t"
        "te_callback t = Timeout_closure (to_handle e') (to_type e') (to_callback e')"
      using linkedD2 [OF ln _ e'(2), of k'] e'(1) by auto
    moreover have "to_timer e' \<noteq> i" using t fresh by auto
    ultimately show ?thesis using v by simp
  qed
qed

text \<open>Starting a timeout that is active already: its timer goes, the new one comes.\<close>

lemma link_replace:
  assumes q: "ok q" "\<not> full q" and ln: "linked mp (view q)" and keys: "keys_ok mp" and h: "int32 h"
    and old: "mp (make_key h ty) = Some e" "to_active e"
    and a: "add x d (Timeout_closure h ty cb) False (cancel (to_timer e) q) = (i, q')"
    and n: "to_timer n = i" "to_handle n = h" "to_type n = ty" "to_callback n = cb" "to_active n"
  shows "linked (mp(make_key h ty \<mapsto> n)) (view q')"
  using link_add [OF cancel_ok [OF q(1)] _ link_cancel [OF q(1) ln keys old] h _ a n] q(2) cancel_full by simp

lemma link_other:
  assumes q: "ok q" "\<not> full q" and ln: "linked mp (view q)" and a: "add x d (Other_closure c) r q = (i, q')"
  shows "linked mp (view q')"
proof (rule linkedI)
  note v = add_view [OF q a] and fresh = add_fresh [OF q a]
  show "int32 h \<and> \<not> te_repeating t \<and> (\<exists>e. mp (make_key h ty) = Some e \<and> to_active e \<and> to_timer e = j)"
    if "view q' j = Some t" "te_callback t = Timeout_closure h ty cb" for j t h ty cb
    using that v linkedD1 [OF ln, of j t h ty cb] by (auto split: if_splits)
  show "\<exists>t. view q' (to_timer e) = Some t \<and> te_callback t = Timeout_closure (to_handle e) (to_type e) (to_callback e)"
    if "mp k = Some e" "to_active e" for k e
    using linkedD2 [OF ln that] v fresh by force
qed

lemma link_timer_valid:
  "ok q \<Longrightarrow> linked mp (view q) \<Longrightarrow> mp k = Some e \<Longrightarrow> to_active e \<Longrightarrow> to_timer e \<noteq> invalid_timer_id"
  using linkedD2 view_valid by blast

end

subsection \<open>The loop provides it\<close>

definition live_view :: "'c timer_entry list \<Rightarrow> timer_id \<rightharpoonup> 'c timer_entry" where
  "live_view ts = map_of (map (\<lambda>t. (te_id t, t)) (filter (\<lambda>t. \<not> te_cancelled t) ts))"

lemma live_view_iff:
  assumes "distinct (map te_id ts)"
  shows "live_view ts i = Some t \<longleftrightarrow> t \<in> live ts \<and> te_id t = i"
proof -
  have "distinct (map fst (map (\<lambda>t. (te_id t, t)) (filter (\<lambda>t. \<not> te_cancelled t) ts)))"
    using assms by (simp add: comp_def distinct_map_filter)
  then show ?thesis by (auto simp: live_view_def live_def)
qed

lemma live_view_simps [simp]:
  "live_view [] i = None"
  "live_view (t # ts) i = (if \<not> te_cancelled t \<and> te_id t = i then Some t else live_view ts i)"
  by (simp_all add: live_view_def)

lemma live_view_unknown: "i \<notin> te_id ` set ts \<Longrightarrow> live_view ts i = None"
  by (induction ts) auto

lemma live_view_append:
  "\<not> te_cancelled t \<Longrightarrow> te_id t \<notin> te_id ` set ts \<Longrightarrow> live_view (ts @ [t]) = (live_view ts)(te_id t \<mapsto> t)"
  by (induction ts) (auto simp: fun_eq_iff)

lemma cancel_in_view: "distinct (map te_id ts) \<Longrightarrow> cancel_in i ts = Some us \<Longrightarrow> live_view us = (live_view ts)(i := None)"
  by (induction ts arbitrary: us) (auto simp: fun_eq_iff live_view_unknown split: if_splits)

lemma cancel_in_None: "cancel_in i ts = None \<Longrightarrow> live_view ts i = None"
  by (induction ts) (auto split: if_splits)

definition drop_timer :: "timer_id \<Rightarrow> ('c, 'k, 'w) event_loop \<Rightarrow> ('c, 'k, 'w) event_loop" where
  "drop_timer i l = snd (cancel_timer i l)"

interpretation lts: timer_store loop_ok "\<lambda>l. el_next_timer_id l = - 1" "\<lambda>l. live_view (el_timers l)" add_timer drop_timer
proof (unfold_locales, goal_cases)
  case (1 l i)
  then show ?case using cancel_timer_ok [of l i] by (simp add: drop_timer_def prod_eq_iff)
next
  case (2 i l)
  then show ?case by (simp add: drop_timer_def cancel_timer_def split: option.split)
next
  case (3 l i)
  then have "distinct (map te_id (el_timers l))" by (auto simp: loop_ok_def intro: ids_ok_distinct)
  then show ?case
    by (auto simp: drop_timer_def cancel_timer_def fun_eq_iff cancel_in_view cancel_in_None split: option.split)
next
  case (4 l x d c r i l')
  then show ?case using add_timer_ok(1) [of l x d c r i l'] by simp
next
  case (5 l x d c r i l')
  then have "i \<notin> te_id ` set (el_timers l)" using add_timer_ok(3) [of l x d c r i l'] by simp
  then show ?case by (simp add: live_view_unknown)
next
  case (6 l x d c r i l')
  then have "i \<notin> te_id ` set (el_timers l)" using add_timer_ok(3) [of l x d c r i l'] by simp
  then show ?case using 6 by (auto simp: add_timer_def live_view_append)
next
  case (7 l i t)
  then have "distinct (map te_id (el_timers l))" by (auto simp: loop_ok_def intro: ids_ok_distinct)
  then show ?case
    using 7 live_view_iff [of "el_timers l" i t] by (auto simp: loop_ok_def ids_ok_def live_def invalid_timer_id_def)
qed

end
