(* ===== verification/Signal_Handler.thy ===== *)
theory Signal_Handler
  imports Error_Code Platform
begin

text \<open>
  \<open>include/vynx_http/signal_handler.h\<close> and \<open>src/signal_handler.cpp\<close>. The \<open>impl\<close> objects live in a heap
  of signal states by address; \<open>sw_global\<close> is the pointer \<open>g_signal_state\<close> the handlers of the process
  read. \<open>sigaction\<close> is a parameter over the outside world \<open>'x\<close>. A callback \<open>'v\<close> changes that world;
  it may not call the handler object, whose mutex is not recursive. A signal that arrives while the
  pointer dangles has no defined result: \<open>None\<close>.
\<close>

datatype signal_type = Sigint | Sigterm | Sighup | Sigpipe | Sig_unknown

datatype posix_signal = SIGINT | SIGTERM | SIGHUP | SIGPIPE | SIG_other int

datatype disposition = SIG_DFL | SIG_IGN | Posix_handler

record 'v signal_state =
  sg_received_sigint :: bool
  sg_received_sigterm :: bool
  sg_received_sighup :: bool
  sg_received_sigpipe :: bool
  sg_total_count :: nat
  sg_last_sig :: signal_type
  sg_callbacks :: "signal_type \<rightharpoonup> 'v"

definition signal_state_init :: "'v signal_state" where
  "signal_state_init =
     \<lparr>sg_received_sigint = False, sg_received_sigterm = False, sg_received_sighup = False, sg_received_sigpipe = False,
      sg_total_count = 0, sg_last_sig = Sig_unknown, sg_callbacks = Map.empty\<rparr>"

record 'v signal_world =
  sw_global :: "ptr option"
  sw_states :: "ptr \<rightharpoonup> 'v signal_state"

record 'x signal_api =
  sa_sigaction :: "posix_signal \<Rightarrow> disposition \<Rightarrow> 'x \<Rightarrow> int \<times> 'x"

text \<open>A handler object is its \<open>impl_\<close>, \<open>None\<close> when moved from.\<close>

type_synonym signal_handler = "ptr option"

subsection \<open>A signal arrives\<close>

fun signal_of :: "posix_signal \<Rightarrow> signal_type option" where
  "signal_of SIGINT = Some Sigint"
| "signal_of SIGTERM = Some Sigterm"
| "signal_of SIGHUP = Some Sighup"
| "signal_of SIGPIPE = Some Sigpipe"
| "signal_of (SIG_other n) = None"

fun mark_received :: "signal_type \<Rightarrow> 'v signal_state \<Rightarrow> 'v signal_state" where
  "mark_received Sigint st = st\<lparr>sg_received_sigint := True\<rparr>"
| "mark_received Sigterm st = st\<lparr>sg_received_sigterm := True\<rparr>"
| "mark_received Sighup st = st\<lparr>sg_received_sighup := True\<rparr>"
| "mark_received Sigpipe st = st\<lparr>sg_received_sigpipe := True\<rparr>"
| "mark_received Sig_unknown st = st"

definition note_signal :: "signal_type \<Rightarrow> 'v signal_state \<Rightarrow> 'v signal_state" where
  "note_signal s st = (mark_received s st)\<lparr>sg_last_sig := s, sg_total_count := sg_total_count st + 1\<rparr>"

definition posix_handler ::
  "('v \<Rightarrow> signal_type \<Rightarrow> 'x \<Rightarrow> 'x) \<Rightarrow> posix_signal \<Rightarrow> 'v signal_world \<times> 'x \<Rightarrow> ('v signal_world \<times> 'x) option" where
  "posix_handler call sig sx =
     (case sw_global (fst sx) of
        None \<Rightarrow> Some sx
      | Some a \<Rightarrow>
          (case signal_of sig of
             None \<Rightarrow> Some sx
           | Some s \<Rightarrow>
               (case sw_states (fst sx) a of
                  None \<Rightarrow> None
                | Some st \<Rightarrow>
                    Some ((fst sx)\<lparr>sw_states := (sw_states (fst sx))(a \<mapsto> note_signal s st)\<rparr>,
                          (case sg_callbacks st s of None \<Rightarrow> snd sx | Some v \<Rightarrow> call v s (snd sx))))))"

text \<open>The console handler of Windows; the events are \<open>CTRL_C_EVENT\<close>, \<open>CTRL_BREAK_EVENT\<close> and \<open>CTRL_CLOSE_EVENT\<close>.\<close>

definition ctrl_signal :: "int \<Rightarrow> signal_type option" where
  "ctrl_signal ev = (if ev = 0 then Some Sigint else if ev = 1 \<or> ev = 2 then Some Sigterm else None)"

definition ctrl_handler ::
  "('v \<Rightarrow> signal_type \<Rightarrow> 'x \<Rightarrow> 'x) \<Rightarrow> int \<Rightarrow> 'v signal_world \<times> 'x \<Rightarrow> (bool \<times> 'v signal_world \<times> 'x) option" where
  "ctrl_handler call ev sx =
     (case sw_global (fst sx) of
        None \<Rightarrow> Some (False, sx)
      | Some a \<Rightarrow>
          (case ctrl_signal ev of
             None \<Rightarrow> Some (False, sx)
           | Some s \<Rightarrow>
               (case sw_states (fst sx) a of
                  None \<Rightarrow> None
                | Some st \<Rightarrow>
                    Some (True, (fst sx)\<lparr>sw_states := (sw_states (fst sx))(a \<mapsto> note_signal s st)\<rparr>,
                          (case sg_callbacks st s of None \<Rightarrow> snd sx | Some v \<Rightarrow> call v s (snd sx))))))"

subsection \<open>The object\<close>

definition install :: "'x signal_api \<Rightarrow> disposition \<Rightarrow> 'x \<Rightarrow> 'x" where
  "install api d x = fold (\<lambda>sig x. snd (sa_sigaction api sig d x)) [SIGINT, SIGTERM, SIGHUP, SIGPIPE] x"

text \<open>The allocator gives the address \<open>a\<close> of the new \<open>impl\<close>.\<close>

definition sig_create :: "'x signal_api \<Rightarrow> ptr \<Rightarrow> 'v signal_world \<times> 'x \<Rightarrow> signal_handler result \<times> 'v signal_world \<times> 'x" where
  "sig_create api a sx =
     (Inr (Some a),
      (fst sx)\<lparr>sw_states := (sw_states (fst sx))(a \<mapsto> signal_state_init), sw_global := Some a\<rparr>,
      install api Posix_handler (snd sx))"

definition free_impl :: "signal_handler \<Rightarrow> 'v signal_world \<Rightarrow> 'v signal_world" where
  "free_impl h sw = (case h of None \<Rightarrow> sw | Some a \<Rightarrow> sw\<lparr>sw_states := (sw_states sw)(a := None)\<rparr>)"

definition sig_destroy :: "'x signal_api \<Rightarrow> signal_handler \<Rightarrow> 'v signal_world \<times> 'x \<Rightarrow> 'v signal_world \<times> 'x" where
  "sig_destroy api h sx =
     (case h of
        None \<Rightarrow> sx
      | Some a \<Rightarrow> (free_impl h ((fst sx)\<lparr>sw_global := None\<rparr>), install api SIG_DFL (snd sx)))"

text \<open>Move assignment is the default one: it frees the old \<open>impl\<close> and touches nothing else.\<close>

definition sig_move_assign ::
  "signal_handler \<Rightarrow> signal_handler \<Rightarrow> 'v signal_world \<Rightarrow> signal_handler \<times> signal_handler \<times> 'v signal_world" where
  "sig_move_assign self other sw = (other, None, free_impl self sw)"

definition with_state :: "signal_handler \<Rightarrow> ('v signal_state \<Rightarrow> 'v signal_state) \<Rightarrow> 'v signal_world \<Rightarrow> 'v signal_world" where
  "with_state h f sw =
     (case h of None \<Rightarrow> sw | Some a \<Rightarrow> sw\<lparr>sw_states := (sw_states sw)(a := map_option f (sw_states sw a))\<rparr>)"

definition register_callback :: "signal_handler \<Rightarrow> signal_type \<Rightarrow> 'v option \<Rightarrow> 'v signal_world \<Rightarrow> vresult \<times> 'v signal_world" where
  "register_callback h s cb sw =
     (if h = None then (invalid_state, sw)
      else (make_result_void, with_state h (\<lambda>st. st\<lparr>sg_callbacks := (sg_callbacks st)(s := cb)\<rparr>) sw))"

definition unregister_callback :: "signal_handler \<Rightarrow> signal_type \<Rightarrow> 'v signal_world \<Rightarrow> vresult \<times> 'v signal_world" where
  "unregister_callback h s sw =
     (if h = None then (invalid_state, sw)
      else (make_result_void, with_state h (\<lambda>st. st\<lparr>sg_callbacks := (sg_callbacks st)(s := None)\<rparr>) sw))"

fun posix_of :: "signal_type \<Rightarrow> posix_signal option" where
  "posix_of Sigint = Some SIGINT"
| "posix_of Sigterm = Some SIGTERM"
| "posix_of Sighup = Some SIGHUP"
| "posix_of Sigpipe = Some SIGPIPE"
| "posix_of Sig_unknown = None"

definition sig_ignore :: "'x signal_api \<Rightarrow> signal_type \<Rightarrow> 'x \<Rightarrow> vresult \<times> 'x" where
  "sig_ignore api s x =
     (case posix_of s of
        None \<Rightarrow> (invalid_argument, x)
      | Some sig \<Rightarrow> (case sa_sigaction api sig SIG_IGN x of
                      (rc, x1) \<Rightarrow> (if rc \<noteq> 0 then socket_error else make_result_void, x1)))"

definition restore_default :: "'x signal_api \<Rightarrow> signal_type \<Rightarrow> 'x \<Rightarrow> vresult \<times> 'x" where
  "restore_default api s x =
     (case posix_of s of
        None \<Rightarrow> (invalid_argument, x)
      | Some sig \<Rightarrow> (case sa_sigaction api sig SIG_DFL x of
                      (rc, x1) \<Rightarrow> (if rc \<noteq> 0 then socket_error else make_result_void, x1)))"

definition state_of :: "signal_handler \<Rightarrow> 'v signal_world \<Rightarrow> 'v signal_state" where
  "state_of h sw = (case h of None \<Rightarrow> signal_state_init
     | Some a \<Rightarrow> (case sw_states sw a of None \<Rightarrow> signal_state_init | Some st \<Rightarrow> st))"

definition signal_count :: "signal_handler \<Rightarrow> 'v signal_world \<Rightarrow> nat" where
  "signal_count h sw = (if h = None then 0 else sg_total_count (state_of h sw))"

definition has_received :: "signal_handler \<Rightarrow> signal_type \<Rightarrow> 'v signal_world \<Rightarrow> bool" where
  "has_received h s sw =
     (if h = None then False
      else case s of
             Sigint \<Rightarrow> sg_received_sigint (state_of h sw)
           | Sigterm \<Rightarrow> sg_received_sigterm (state_of h sw)
           | Sighup \<Rightarrow> sg_received_sighup (state_of h sw)
           | Sigpipe \<Rightarrow> sg_received_sigpipe (state_of h sw)
           | Sig_unknown \<Rightarrow> False)"

definition last_signal :: "signal_handler \<Rightarrow> 'v signal_world \<Rightarrow> signal_type" where
  "last_signal h sw = (if h = None then Sig_unknown else sg_last_sig (state_of h sw))"

subsection \<open>Facts\<close>

fun_cases signal_of_SomeE: "signal_of sig = Some s"

lemma posix_of_signal_of: "signal_of sig = Some s \<Longrightarrow> posix_of s = Some sig"
  by (erule signal_of_SomeE) simp_all

lemma note_signal_sel [simp]:
  "sg_total_count (note_signal s st) = Suc (sg_total_count st)" "sg_last_sig (note_signal s st) = s"
  "sg_callbacks (note_signal s st) = sg_callbacks st"
  by (cases s; simp add: note_signal_def)+

lemma posix_handler_received:
  assumes "sw_global sw = Some a" and "sw_states sw a = Some st" and "signal_of sig = Some s"
  shows "\<exists>sw' x'. posix_handler call sig (sw, x) = Some (sw', x')
    \<and> (\<forall>u. has_received (Some a) u sw' \<longleftrightarrow> u = s \<or> has_received (Some a) u sw)
    \<and> last_signal (Some a) sw' = s \<and> signal_count (Some a) sw' = Suc (signal_count (Some a) sw)"
proof -
  have "has_received (Some a) u (sw\<lparr>sw_states := (sw_states sw)(a \<mapsto> note_signal s st)\<rparr>)
      \<longleftrightarrow> u = s \<or> has_received (Some a) u sw" for u
    using assms(2,3) by (elim signal_of_SomeE; cases u) (simp_all add: has_received_def state_of_def note_signal_def)
  then show ?thesis
    using assms by (auto simp: posix_handler_def last_signal_def signal_count_def state_of_def)
qed

text \<open>Once some handler object is destroyed the process ignores the others.\<close>

lemma destroyed_handler_silences:
  assumes "sig_destroy api (Some a) (sw, x) = (sw', x')"
  shows "posix_handler call sig (sw', y) = Some (sw', y)"
  using assms by (auto simp: sig_destroy_def free_impl_def posix_handler_def)

lemma move_assign_dangles:
  assumes "sw_global sw = Some a" and "sig_move_assign (Some a) h sw = (h', src, sw')" and "signal_of sig = Some s"
  shows "posix_handler call sig (sw', y) = None"
  using assms by (auto simp: sig_move_assign_def free_impl_def posix_handler_def)

end
