(* ===== verification/Runtime.thy ===== *)
theory Runtime
  imports Timeout_Link Signal_Handler
begin

text \<open>
  The event loop with a timeout manager and signal handlers on it: the world of the loop holds the
  manager, the signal states and the rest, \<open>'x\<close>; the closures in the timers are those of the manager,
  that of \<open>register_loop_shutdown\<close>, and the application's, which act on \<open>'x\<close>.
\<close>

datatype 'a app_closure = Shutdown_check signal_handler | App 'a

type_synonym ('u, 'a) rt_closure = "('u, 'a app_closure) loop_closure"

record ('u, 'v, 'x) rt_world =
  rw_manager :: "'u timeout_manager"
  rw_signals :: "'v signal_world"
  rw_ext :: 'x

type_synonym ('u, 'v, 'a, 'k, 'x) rt_state = "(('u, 'a) rt_closure, 'k, ('u, 'v, 'x) rt_world) loop_state"

record ('u, 'v, 'a, 'k, 'x) rt_app =
  ap_now :: "'x \<Rightarrow> int \<times> 'x"
  ap_timeout :: "'u \<Rightarrow> native_handle \<Rightarrow> timeout_type \<Rightarrow> 'x \<Rightarrow> 'x"
  ap_timer :: "'a \<Rightarrow> timer_id \<Rightarrow> 'x \<Rightarrow> 'x"
  ap_task :: "'k \<Rightarrow> ('u, 'v, 'a, 'k, 'x) rt_state \<Rightarrow> ('u, 'v, 'a, 'k, 'x) rt_state"
  ap_event :: "ptr \<Rightarrow> native_handle \<Rightarrow> event_type \<Rightarrow> ('u, 'v, 'a, 'k, 'x) rt_state \<Rightarrow> ('u, 'v, 'a, 'k, 'x) rt_state"

subsection \<open>The closures\<close>

definition call_timeout ::
  "('u \<Rightarrow> native_handle \<Rightarrow> timeout_type \<Rightarrow> 'x \<Rightarrow> 'x) \<Rightarrow> 'u timeout_callback option \<Rightarrow> native_handle \<Rightarrow> timeout_type \<Rightarrow> 'x \<Rightarrow> 'x" where
  "call_timeout f cb h ty x = (case cb of Some (User_callback u) \<Rightarrow> f u h ty x | _ \<Rightarrow> x)"

definition timeout_fired ::
  "('u \<Rightarrow> native_handle \<Rightarrow> timeout_type \<Rightarrow> 'x \<Rightarrow> 'x) \<Rightarrow> native_handle \<Rightarrow> timeout_type \<Rightarrow> 'u timeout_callback option \<Rightarrow>
   ('u, 'v, 'x) rt_world \<Rightarrow> ('u, 'v, 'x) rt_world" where
  "timeout_fired f h ty cb w =
     (case tm_fire h ty (rw_manager w) of
        (called, m) \<Rightarrow> w\<lparr>rw_manager := m, rw_ext := (if called then call_timeout f cb h ty (rw_ext w) else rw_ext w)\<rparr>)"

definition shutdown_check :: "signal_handler \<Rightarrow> 'v signal_world \<Rightarrow> ('c, 'k, 'w) event_loop \<Rightarrow> ('c, 'k, 'w) event_loop" where
  "shutdown_check h sw l = (if has_received h Sigint sw \<or> has_received h Sigterm sw then el_stop l else l)"

definition closure_loop ::
  "('u, 'a) rt_closure \<Rightarrow> timer_id \<Rightarrow> ('u, 'v, 'x) rt_world \<Rightarrow> ('c, 'k, 'w) event_loop \<Rightarrow> ('c, 'k, 'w) event_loop" where
  "closure_loop c i w l = (case c of Other_closure (Shutdown_check h) \<Rightarrow> shutdown_check h (rw_signals w) l | _ \<Rightarrow> l)"

definition closure_world ::
  "('u, 'v, 'a, 'k, 'x) rt_app \<Rightarrow> ('u, 'a) rt_closure \<Rightarrow> timer_id \<Rightarrow> ('u, 'v, 'x) rt_world \<Rightarrow> ('u, 'v, 'x) rt_world" where
  "closure_world ap c i w =
     (case c of
        Timeout_closure h ty cb \<Rightarrow> timeout_fired (ap_timeout ap) h ty cb w
      | Other_closure (Shutdown_check h) \<Rightarrow> w
      | Other_closure (App a) \<Rightarrow> w\<lparr>rw_ext := ap_timer ap a i (rw_ext w)\<rparr>)"

definition rt_env ::
  "('u, 'v, 'a, 'k, 'x) rt_app \<Rightarrow> (('u, 'a) rt_closure, 'k, ('u, 'v, 'x) rt_world) loop_env" where
  "rt_env ap =
     \<lparr>le_now = \<lambda>w. (case ap_now ap (rw_ext w) of (t, x) \<Rightarrow> (t, w\<lparr>rw_ext := x\<rparr>)),
      le_timer = \<lambda>c i s. (closure_loop c i (snd s) (fst s), closure_world ap c i (snd s)),
      le_task = ap_task ap,
      le_event = ap_event ap\<rparr>"

interpretation rtq: quiet_callbacks "rt_env ap" closure_loop "closure_world ap" for ap
  by unfold_locales (auto simp: rt_env_def closure_loop_def shutdown_check_def el_stop_def
      split: loop_closure.split app_closure.split)

subsection \<open>The operations on it\<close>

definition register_loop_shutdown ::
  "('u, 'v, 'a, 'k, 'x) rt_app \<Rightarrow> signal_handler \<Rightarrow> ('u, 'v, 'a, 'k, 'x) rt_state \<Rightarrow> vresult \<times> ('u, 'v, 'a, 'k, 'x) rt_state" where
  "register_loop_shutdown ap h s =
     (make_result_void, snd (schedule_timer_interval (rt_env ap) 0 100 (Other_closure (Shutdown_check h)) s))"

definition rt_start ::
  "('u, 'v, 'a, 'k, 'x) rt_app \<Rightarrow> native_handle \<Rightarrow> timeout_type \<Rightarrow> int \<Rightarrow> 'u timeout_callback option \<Rightarrow>
   ('u, 'v, 'a, 'k, 'x) rt_state \<Rightarrow> ('u, 'v, 'a, 'k, 'x) rt_state" where
  "rt_start ap h ty d cb s =
     (case tm_start (rt_env ap) h ty d cb (rw_manager (snd s)) s of (m, (l, w)) \<Rightarrow> (l, w\<lparr>rw_manager := m\<rparr>))"

definition rt_cancel :: "native_handle \<Rightarrow> timeout_type \<Rightarrow> ('u, 'v, 'a, 'k, 'x) rt_state \<Rightarrow> ('u, 'v, 'a, 'k, 'x) rt_state" where
  "rt_cancel h ty s =
     (case tm_cancel h ty (rw_manager (snd s)) (fst s) of (r, m, l) \<Rightarrow> (l, (snd s)\<lparr>rw_manager := m\<rparr>))"

definition rt_cancel_all :: "native_handle \<Rightarrow> ('u, 'v, 'a, 'k, 'x) rt_state \<Rightarrow> ('u, 'v, 'a, 'k, 'x) rt_state" where
  "rt_cancel_all h s =
     (case tm_cancel_all h (rw_manager (snd s)) (fst s) of (m, l) \<Rightarrow> (l, (snd s)\<lparr>rw_manager := m\<rparr>))"

subsection \<open>The linked states\<close>

definition rt_ok :: "('u, 'v, 'a, 'k, 'x) rt_state \<Rightarrow> bool" where
  "rt_ok s \<longleftrightarrow> loop_ok (fst s) \<and> tm_ok (rw_manager (snd s)) \<and> tm_loop (rw_manager (snd s))
     \<and> linked (map_of (tm_entries (rw_manager (snd s)))) (live_view (el_timers (fst s)))"

text \<open>When an active timeout is due: the expiry of its timer.\<close>

definition deadline :: "('u, 'v, 'a, 'k, 'x) rt_state \<Rightarrow> native_handle \<times> timeout_type \<Rightarrow> int" where
  "deadline s x =
     (case map_of (tm_entries (rw_manager (snd s))) (make_key (fst x) (snd x)) of
        None \<Rightarrow> 0
      | Some e \<Rightarrow> (case live_view (el_timers (fst s)) (to_timer e) of None \<Rightarrow> 0 | Some t \<Rightarrow> te_expiry t))"

lemma cancel_entry_timer_drop:
  "cancel_entry_timer has_loop e l = (if has_loop \<and> to_timer e \<noteq> invalid_timer_id then drop_timer (to_timer e) l else l)"
  by (simp add: cancel_entry_timer_def drop_timer_def)

lemma rt_env_now: "le_now (rt_env ap) w = (t, w') \<Longrightarrow> rw_manager w' = rw_manager w \<and> rw_signals w' = rw_signals w"
  by (auto simp: rt_env_def split: prod.splits)

text \<open>Starting a timeout links it to a timer that expires after its duration.\<close>

lemma rt_start_ok:
  assumes ok: "rt_ok s" and h: "int32 h" and room: "el_next_timer_id (fst s) \<noteq> - 1"
    and now: "le_now (rt_env ap) (snd s) = (now, w1)"
  shows "rt_ok (rt_start ap h ty d cb s)" and "deadline (rt_start ap h ty d cb s) (h, ty) = now + d * 1000000"
proof -
  let ?m = "rw_manager (snd s)" and ?k = "make_key h ty"
  let ?mp = "map_of (tm_entries ?m)"
  have l: "loop_ok (fst s)" and m: "tm_ok ?m" "tm_loop ?m" and ln: "linked ?mp (live_view (el_timers (fst s)))"
    using ok by (simp_all add: rt_ok_def)
  have keys: "keys_ok ?mp" using m by (simp add: tm_ok_def)
  obtain m1 l1 where r: "replace_active ?k (?m, fst s) = (m1, l1)" by fastforce
  note m1 = replace_active_eq [OF r h]
  have l1: "l1 = (case ?mp ?k of None \<Rightarrow> fst s | Some e \<Rightarrow> if to_active e then drop_timer (to_timer e) (fst s) else fst s)"
    using r m lts.link_timer_valid [OF l ln, of ?k]
    by (auto simp: replace_active_def cancel_entry_timer_drop split: option.splits if_splits)
  have l1_ok: "loop_ok l1" "el_next_timer_id l1 \<noteq> - 1"
    using l room lts.cancel_ok lts.cancel_full unfolding l1 by (auto split: option.split)
  obtain i l2 where a: "add_timer (now + ms_ns d) (ms_ns d) (Timeout_closure h ty cb) False l1 = (i, l2)"
    by fastforce
  let ?e = "\<lparr>to_timer = i, to_handle = h, to_type = ty, to_callback = cb, to_active = True\<rparr>"
  let ?m' = "recount (m1\<lparr>tm_entries := AList.update ?k ?e (tm_entries ?m)\<rparr>)"
  have start: "tm_start (rt_env ap) h ty d cb ?m s = (?m', (l2, w1))"
    using r m1(1,2) m(2) now a by (simp add: tm_start_def schedule_timer_def)
  have rt: "rt_start ap h ty d cb s = (l2, w1\<lparr>rw_manager := ?m'\<rparr>)" by (simp add: rt_start_def start)
  have mp': "map_of (tm_entries ?m') = ?mp(?k \<mapsto> ?e)" by (simp add: update_conv')
  have "linked (?mp(?k \<mapsto> ?e)) (live_view (el_timers l2))"
  proof (cases "\<exists>e. ?mp ?k = Some e \<and> to_active e")
    case True
    then obtain e where e: "?mp ?k = Some e" "to_active e" by blast
    then show ?thesis using lts.link_replace [OF l room ln keys h e] a l1 by simp
  next
    case False
    then have "l1 = fst s" by (auto simp: l1 split: option.split)
    then show ?thesis using lts.link_add [OF l room ln h] False a by auto
  qed
  then show "rt_ok (rt_start ap h ty d cb s)"
    using lts.add_ok [OF l1_ok a] tm_start_spec(1,4) [OF start m(1) h] m(2) mp'
    by (simp add: rt_ok_def rt del: recount_sel)
  show "deadline (rt_start ap h ty d cb s) (h, ty) = now + d * 1000000"
    using mp' lts.add_view [OF l1_ok a] by (simp add: deadline_def rt ms_ns_def del: recount_sel)
qed

lemma rt_cancel_ok:
  assumes ok: "rt_ok s" and h: "int32 h"
  shows "rt_ok (rt_cancel h ty s)"
proof -
  let ?m = "rw_manager (snd s)" and ?k = "make_key h ty"
  have l: "loop_ok (fst s)" and m: "tm_ok ?m" "tm_loop ?m"
    and ln: "linked (map_of (tm_entries ?m)) (live_view (el_timers (fst s)))"
    using ok by (simp_all add: rt_ok_def)
  obtain r m' l' where c: "tm_cancel h ty ?m (fst s) = (r, m', l')" by (metis prod_cases3)
  note sp = tm_cancel_spec [OF c m(1) h]
  have keys: "keys_ok (map_of (tm_entries ?m))" using m by (simp add: tm_ok_def)
  have "loop_ok l' \<and> linked (map_of (tm_entries m')) (live_view (el_timers l'))"
  proof (cases "\<exists>e. map_of (tm_entries ?m) ?k = Some e \<and> to_active e")
    case True
    then obtain e where e: "map_of (tm_entries ?m) ?k = Some e" "to_active e" by blast
    then have "l' = drop_timer (to_timer e) (fst s)" "map_of (tm_entries m') = (map_of (tm_entries ?m))(?k \<mapsto> deactivate e)"
      using c m(2) lts.link_timer_valid [OF l ln e]
      by (auto simp: tm_cancel_def cancel_entry_timer_drop map_of_map_entry)
    then show ?thesis using lts.link_cancel [OF l ln keys e] lts.cancel_ok [OF l] by simp
  next
    case False
    then have "m' = ?m \<and> l' = fst s" using c by (auto simp: tm_cancel_def split: option.splits if_splits)
    then show ?thesis using l ln by simp
  qed
  then show ?thesis using sp(1,5) m(2) by (simp add: rt_ok_def rt_cancel_def c)
qed

subsection \<open>A pass over the timers\<close>

definition ext_call :: "('u, 'v, 'a, 'k, 'x) rt_app \<Rightarrow> ('u, 'a) rt_closure timer_entry \<Rightarrow> 'x \<Rightarrow> 'x" where
  "ext_call ap t x =
     (case te_callback t of
        Timeout_closure h ty cb \<Rightarrow> call_timeout (ap_timeout ap) cb h ty x
      | Other_closure (Shutdown_check h) \<Rightarrow> x
      | Other_closure (App a) \<Rightarrow> ap_timer ap a (te_id t) x)"

definition hit :: "('u, 'c) loop_closure timer_entry list \<Rightarrow> 64 word \<Rightarrow> bool" where
  "hit ds k \<longleftrightarrow> (\<exists>t \<in> set ds. \<exists>h ty cb. te_callback t = Timeout_closure h ty cb \<and> make_key h ty = k)"

definition fired_map :: "('u, 'c) loop_closure timer_entry list \<Rightarrow> 'u entry_map \<Rightarrow> 'u entry_map" where
  "fired_map ds mp k = map_option (\<lambda>e. if hit ds k \<and> to_active e then deactivate e else e) (mp k)"

text \<open>Each closure of the list stands for an active timeout of its own.\<close>

definition pending :: "'u entry_map \<Rightarrow> ('u, 'c) loop_closure timer_entry list \<Rightarrow> bool" where
  "pending mp ds \<longleftrightarrow> distinct (map te_id ds)
     \<and> (\<forall>t \<in> set ds. \<forall>h ty cb. te_callback t = Timeout_closure h ty cb \<longrightarrow>
          int32 h \<and> (\<exists>e. mp (make_key h ty) = Some e \<and> to_active e \<and> to_timer e = te_id t))"

lemma pendingD:
  "pending mp ds \<Longrightarrow> t \<in> set ds \<Longrightarrow> te_callback t = Timeout_closure h ty cb \<Longrightarrow>
   int32 h \<and> (\<exists>e. mp (make_key h ty) = Some e \<and> to_active e \<and> to_timer e = te_id t)"
  unfolding pending_def by blast

lemma pending_tl:
  assumes "pending mp (t # ds)"
  shows "pending (fired_map [t] mp) ds"
proof -
  have "int32 h \<and> (\<exists>e. fired_map [t] mp (make_key h ty) = Some e \<and> to_active e \<and> to_timer e = te_id u)"
    if u: "u \<in> set ds" "te_callback u = Timeout_closure h ty cb" for u h ty cb
  proof -
    obtain e where e: "int32 h" "mp (make_key h ty) = Some e" "to_active e" "to_timer e = te_id u"
      using pendingD [OF assms _ u(2)] u(1) by auto
    have "\<not> hit [t] (make_key h ty)"
    proof
      assume "hit [t] (make_key h ty)"
      then obtain h2 ty2 cb2 where t: "te_callback t = Timeout_closure h2 ty2 cb2" "make_key h2 ty2 = make_key h ty"
        by (auto simp: hit_def)
      then obtain e2 where "mp (make_key h ty) = Some e2" "to_timer e2 = te_id t"
        using pendingD [OF assms _ t(1)] by auto
      then have "te_id t = te_id u" using e by simp
      then show False using assms u(1) by (auto simp: pending_def)
    qed
    then show ?thesis using e by (simp add: fired_map_def)
  qed
  then show ?thesis using assms by (auto simp: pending_def)
qed

lemma hit_Cons: "hit (t # ds) k \<longleftrightarrow> hit [t] k \<or> hit ds k"
  by (auto simp: hit_def)

lemma fired_map_Cons: "fired_map ds (fired_map [t] mp) = fired_map (t # ds) mp"
proof
  show "fired_map ds (fired_map [t] mp) k = fired_map (t # ds) mp k" for k
    by (cases "mp k") (simp_all add: fired_map_def hit_Cons [of t ds])
qed

lemma fired_map_Nil [simp]: "fired_map [] mp = mp"
  by (auto simp: fired_map_def fun_eq_iff hit_def intro: option.map_ident)

lemma call_one:
  assumes "pending (map_of (tm_entries (rw_manager w))) [t]" and "tm_ok (rw_manager w)"
  shows "map_of (tm_entries (rw_manager (closure_world ap (te_callback t) (te_id t) w)))
      = fired_map [t] (map_of (tm_entries (rw_manager w)))"
    and "tm_ok (rw_manager (closure_world ap (te_callback t) (te_id t) w))"
    and "tm_loop (rw_manager (closure_world ap (te_callback t) (te_id t) w)) = tm_loop (rw_manager w)"
    and "rw_signals (closure_world ap (te_callback t) (te_id t) w) = rw_signals w"
    and "rw_ext (closure_world ap (te_callback t) (te_id t) w) = ext_call ap t (rw_ext w)"
proof -
  let ?w = "closure_world ap (te_callback t) (te_id t) w" and ?m = "rw_manager w"
  have "map_of (tm_entries (rw_manager ?w)) = fired_map [t] (map_of (tm_entries ?m)) \<and> tm_ok (rw_manager ?w)
      \<and> tm_loop (rw_manager ?w) = tm_loop ?m \<and> rw_signals ?w = rw_signals w \<and> rw_ext ?w = ext_call ap t (rw_ext w)"
  proof (cases "te_callback t")
    case (Timeout_closure h ty cb)
    then obtain e where e: "int32 h" "map_of (tm_entries ?m) (make_key h ty) = Some e" "to_active e"
      using assms(1) by (auto simp: pending_def)
    obtain b m' where f: "tm_fire h ty ?m = (b, m')" by fastforce
    have "b" "map_of (tm_entries m') = (map_of (tm_entries ?m))(make_key h ty \<mapsto> deactivate e)"
      using f e by (auto simp: tm_fire_def map_of_map_entry)
    moreover have "fired_map [t] (map_of (tm_entries ?m)) = (map_of (tm_entries ?m))(make_key h ty \<mapsto> deactivate e)"
      using Timeout_closure e by (auto simp: fired_map_def hit_def fun_eq_iff intro: option.map_ident)
    ultimately show ?thesis
      using Timeout_closure tm_fire_spec(1,5) [OF f assms(2) e(1)] f
      by (simp add: closure_world_def timeout_fired_def ext_call_def)
  next
    case (Other_closure c)
    then have "fired_map [t] (map_of (tm_entries ?m)) = map_of (tm_entries ?m)"
      by (auto simp: fired_map_def hit_def fun_eq_iff intro: option.map_ident)
    then show ?thesis using Other_closure assms(2)
      by (cases c) (simp_all add: closure_world_def ext_call_def)
  qed
  then show "map_of (tm_entries (rw_manager ?w)) = fired_map [t] (map_of (tm_entries ?m))" "tm_ok (rw_manager ?w)"
    "tm_loop (rw_manager ?w) = tm_loop ?m" "rw_signals ?w = rw_signals w" "rw_ext ?w = ext_call ap t (rw_ext w)"
    by simp_all
qed

lemma call_timers_world:
  "pending (map_of (tm_entries (rw_manager w))) ds \<Longrightarrow> tm_ok (rw_manager w) \<Longrightarrow>
   map_of (tm_entries (rw_manager (call_timers (closure_world ap) ds w))) = fired_map ds (map_of (tm_entries (rw_manager w)))
   \<and> tm_ok (rw_manager (call_timers (closure_world ap) ds w))
   \<and> tm_loop (rw_manager (call_timers (closure_world ap) ds w)) = tm_loop (rw_manager w)
   \<and> rw_signals (call_timers (closure_world ap) ds w) = rw_signals w
   \<and> rw_ext (call_timers (closure_world ap) ds w) = fold (ext_call ap) ds (rw_ext w)"
proof (induction ds arbitrary: w)
  case Nil
  then show ?case by (simp add: call_timers_def)
next
  case (Cons t ds)
  let ?w = "closure_world ap (te_callback t) (te_id t) w"
  have "pending (map_of (tm_entries (rw_manager w))) [t]" using Cons.prems(1) by (auto simp: pending_def)
  note one = call_one [OF this Cons.prems(2), of ap]
  have "pending (map_of (tm_entries (rw_manager ?w))) ds" using pending_tl [OF Cons.prems(1)] one(1) by simp
  from Cons.IH [OF this one(2)] show ?case
    using one by (simp add: call_timers_def fired_map_Cons)
qed

end
