(* ===== verification/Runtime_Facts.thy ===== *)
theory Runtime_Facts
  imports Runtime
begin

text \<open>
  What a pass over the timers does to the timeouts, the states the runtime reaches, and the way a
  termination signal ends \<open>run\<close>.
\<close>

lemma rt_timers_use_api: "timers_use_api (rt_env ap)"
proof -
  have "(api_step (rt_env ap))\<^sup>*\<^sup>* s (le_timer (rt_env ap) c i s)" for c i s
  proof -
    have w: "(api_step (rt_env ap))\<^sup>*\<^sup>* (l, w) (l, w')" for l w w'
      using api_world [of "rt_env ap" "(l, w)" w'] by auto
    have stop: "(api_step (rt_env ap))\<^sup>*\<^sup>* (l, w) (el_stop l, w')" for l w w'
    proof -
      have "api_step (rt_env ap) (l, w) (el_stop l, w)" using api_stop [of "rt_env ap" "(l, w)"] by simp
      then show ?thesis using w [of "el_stop l" w w'] by (rule converse_rtranclp_into_rtranclp)
    qed
    show ?thesis
      using w [of "fst s" "snd s"] stop [of "fst s" "snd s"]
      by (auto simp: rt_env_def closure_loop_def shutdown_check_def split: loop_closure.split app_closure.split)
  qed
  then show ?thesis by (simp add: timers_use_api_def)
qed

lemma live_due: "t \<in> live ts \<Longrightarrow> timer_due now t \<longleftrightarrow> te_expiry t \<le> now"
  by (auto simp: live_def timer_due_def)

lemma due_live: "t \<in> set (due_timers now ts) \<longleftrightarrow> t \<in> live ts \<and> te_expiry t \<le> now"
  by (auto simp: due_timers_def live_def timer_due_def)

lemma same_id_same_timer: "distinct (map te_id ts) \<Longrightarrow> t \<in> set ts \<Longrightarrow> u \<in> set ts \<Longrightarrow> te_id t = te_id u \<Longrightarrow> t = u"
  by (auto simp: distinct_map dest: inj_onD)

lemma due_pending:
  assumes "distinct (map te_id ts)" and "linked mp (live_view ts)"
  shows "pending mp (due_timers now ts)"
proof -
  have "int32 h \<and> (\<exists>e. mp (make_key h ty) = Some e \<and> to_active e \<and> to_timer e = te_id t)"
    if "t \<in> set (due_timers now ts)" "te_callback t = Timeout_closure h ty cb" for t h ty cb
    using linkedD1 [OF assms(2) _ that(2)] live_view_iff [OF assms(1)] that(1) due_live by blast
  moreover have "distinct (map te_id (due_timers now ts))"
    using assms(1) by (simp add: due_timers_def distinct_map_filter)
  ultimately show ?thesis by (auto simp: pending_def)
qed

lemma live_after_pass:
  "t \<in> live (after_pass now ts) \<longleftrightarrow>
     (\<exists>u \<in> live ts. if te_expiry u \<le> now then te_repeating u \<and> t = u\<lparr>te_expiry := now + te_interval u\<rparr> else t = u)"
  by (auto simp: live_def after_pass_iff after_pass_def remove_cancelled_def pass_timer_def timer_due_def rearm_def
      split: if_splits)

lemma after_pass_ids: "distinct (map te_id ts) \<Longrightarrow> distinct (map te_id (after_pass now ts))"
proof -
  assume "distinct (map te_id ts)"
  moreover have "map te_id (map (pass_timer now) ts) = map te_id ts" by (simp add: pass_timer_def rearm_def)
  ultimately show ?thesis unfolding after_pass_def remove_cancelled_def by (metis distinct_map_filter)
qed

lemma fired_map_active:
  "fired_map ds mp k = Some e \<and> to_active e \<longleftrightarrow> mp k = Some e \<and> to_active e \<and> \<not> hit ds k"
  by (cases "mp k") (auto simp: fired_map_def)

text \<open>The link survives a pass.\<close>

lemma after_pass_linked:
  assumes d: "distinct (map te_id ts)" and ln: "linked mp (live_view ts)" and keys: "keys_ok mp"
  shows "linked (fired_map (due_timers now ts) mp) (live_view (after_pass now ts))"
proof (rule linkedI)
  note lv = live_view_iff [OF d] and lv' = live_view_iff [OF after_pass_ids [OF d]]
  fix i t h ty cb
  assume t: "live_view (after_pass now ts) i = Some t" "te_callback t = Timeout_closure h ty cb"
  then obtain u where u: "u \<in> live ts" "te_id u = i" "te_callback u = te_callback t"
      "if te_expiry u \<le> now then te_repeating u \<and> t = u\<lparr>te_expiry := now + te_interval u\<rparr> else t = u"
    using lv' live_after_pass [of t now ts] by (auto split: if_splits)
  then obtain e where e: "int32 h" "\<not> te_repeating u" "mp (make_key h ty) = Some e" "to_active e" "to_timer e = i"
    using linkedD1 [OF ln, of i u h ty cb] lv t(2) by auto
  have tu: "t = u" "now < te_expiry u" using u(4) e(2) by (auto split: if_splits)
  have "\<not> hit (due_timers now ts) (make_key h ty)"
  proof
    assume "hit (due_timers now ts) (make_key h ty)"
    then obtain v h2 ty2 cb2 where v: "v \<in> set (due_timers now ts)" "te_callback v = Timeout_closure h2 ty2 cb2"
        "make_key h2 ty2 = make_key h ty" by (auto simp: hit_def)
    then have "to_timer e = te_id v" using pendingD [OF due_pending [OF d ln] v(1,2)] e(3) by simp
    then have "v = u" using same_id_same_timer [OF d] u(1,2) v(1) e(5) by (auto simp: due_live live_def)
    then show False using v(1) tu(2) by (simp add: due_live)
  qed
  then show "int32 h \<and> \<not> te_repeating t
      \<and> (\<exists>e. fired_map (due_timers now ts) mp (make_key h ty) = Some e \<and> to_active e \<and> to_timer e = i)"
    using e tu by (simp add: fired_map_def)
next
  note lv = live_view_iff [OF d] and lv' = live_view_iff [OF after_pass_ids [OF d]]
  fix k e assume e: "fired_map (due_timers now ts) mp k = Some e" "to_active e"
  then have mp: "mp k = Some e" "\<not> hit (due_timers now ts) k" using fired_map_active by blast+
  obtain t where t: "live_view ts (to_timer e) = Some t"
      "te_callback t = Timeout_closure (to_handle e) (to_type e) (to_callback e)"
    using linkedD2 [OF ln mp(1) e(2)] by blast
  have "t \<in> live ts" "te_id t = to_timer e" using t(1) lv by simp_all
  moreover have "\<not> te_expiry t \<le> now"
  proof
    assume "te_expiry t \<le> now"
    then have "t \<in> set (due_timers now ts)" using \<open>t \<in> live ts\<close> by (simp add: due_live)
    then show False using mp(2) t(2) keys_okD [OF keys mp(1)] by (fastforce simp: hit_def)
  qed
  ultimately have "t \<in> live (after_pass now ts)" using live_after_pass [of t now ts] by auto
  then show "\<exists>t. live_view (after_pass now ts) (to_timer e) = Some t
      \<and> te_callback t = Timeout_closure (to_handle e) (to_type e) (to_callback e)"
    using lv' t(2) \<open>te_id t = to_timer e\<close> by blast
qed

text \<open>
  A pass at time \<open>now\<close> calls the callbacks of the timeouts that are due, in the order of the timers, and
  ends exactly those.
\<close>

lemma process_timers_timeouts:
  assumes ok: "rt_ok s" and now: "le_now (rt_env ap) (snd s) = (now, w1)"
  shows "\<exists>s'. process_timers (rt_env ap) s = Some s' \<and> rt_ok s'
    \<and> active_set (rw_manager (snd s')) = {x \<in> active_set (rw_manager (snd s)). now < deadline s x}
    \<and> rw_ext (snd s') = fold (ext_call ap) (due_timers now (el_timers (fst s))) (rw_ext w1)
    \<and> rw_signals (snd s') = rw_signals (snd s) \<and> el_timers (fst s') = after_pass now (el_timers (fst s))"
proof -
  obtain l w where s: "s = (l, w)" by fastforce
  let ?m = "rw_manager w" and ?ts = "el_timers l"
  let ?mp = "map_of (tm_entries ?m)" and ?ds = "due_timers now ?ts"
  have l: "loop_ok l" and m: "tm_ok ?m" "tm_loop ?m" and ln: "linked ?mp (live_view ?ts)"
    using ok by (simp_all add: rt_ok_def s)
  have d: "distinct (map te_id ?ts)" using l ids_ok_distinct by (auto simp: loop_ok_def)
  have keys: "keys_ok ?mp" using m by (simp add: tm_ok_def)
  have w1: "rw_manager w1 = ?m" "rw_signals w1 = rw_signals w" using rt_env_now [OF now] by (simp_all add: s)
  obtain l' where l': "process_timers (rt_env ap) (l, w) = Some (l', call_timers (closure_world ap) ?ds w1)"
      "el_timers l' = after_pass now ?ts"
    using rtq.process_timers_pass [of ap w now w1 l] now s by auto
  let ?w' = "call_timers (closure_world ap) ?ds w1"
  have "pending (map_of (tm_entries (rw_manager w1))) ?ds" using due_pending [OF d ln] w1 by simp
  from call_timers_world [OF this, of ap] m w1
  have w': "map_of (tm_entries (rw_manager ?w')) = fired_map ?ds ?mp" "tm_ok (rw_manager ?w')"
      "tm_loop (rw_manager ?w')" "rw_signals ?w' = rw_signals w" "rw_ext ?w' = fold (ext_call ap) ?ds (rw_ext w1)"
    by simp_all
  have "loop_ok l'" using process_timers_ok [OF rt_timers_use_api l'(1)] l by simp
  then have "rt_ok (l', ?w')"
    using w' l'(2) after_pass_linked [OF d ln keys, of now] by (simp add: rt_ok_def)
  moreover have "x \<in> active_set (rw_manager ?w') \<longleftrightarrow> x \<in> active_set ?m \<and> now < deadline s x" for x
  proof -
    obtain h ty where x: "x = (h, ty)" by fastforce
    show ?thesis
    proof (cases "x \<in> active_set ?m")
      case False
      then show ?thesis
        using fired_map_active [of ?ds ?mp "make_key h ty"] by (auto simp: active_set_def active_of_def w'(1) x)
    next
      case True
      then obtain e where e: "int32 h" "?mp (make_key h ty) = Some e" "to_active e"
        by (auto simp: active_set_def active_of_def x)
      then obtain t cb where t: "live_view ?ts (to_timer e) = Some t" "te_callback t = Timeout_closure h ty cb"
        using linkedD2 [OF ln e(2,3)] keys_ok_sel [OF keys e(1,2)] by auto
      have lt: "t \<in> live ?ts" "te_id t = to_timer e" using t(1) live_view_iff [OF d] by simp_all
      have "hit ?ds (make_key h ty) \<longleftrightarrow> te_expiry t \<le> now"
      proof
        assume "te_expiry t \<le> now"
        then show "hit ?ds (make_key h ty)" using t(2) lt(1) by (force simp: hit_def due_live)
      next
        assume "hit ?ds (make_key h ty)"
        then obtain v h2 ty2 cb2 where v: "v \<in> set ?ds" "te_callback v = Timeout_closure h2 ty2 cb2"
            "make_key h2 ty2 = make_key h ty" by (auto simp: hit_def)
        then have "te_id v = te_id t" using pendingD [OF due_pending [OF d ln] v(1,2)] e lt(2) by auto
        then have "v = t" using same_id_same_timer [OF d] v(1) lt(1) by (auto simp: due_live live_def)
        then show "te_expiry t \<le> now" using v(1) by (simp add: due_live)
      qed
      moreover have "deadline s x = te_expiry t" using e(2) t(1) by (simp add: deadline_def s x)
      moreover have "x \<in> active_set (rw_manager ?w') \<longleftrightarrow> \<not> hit ?ds (make_key h ty)"
        using e fired_map_active [of ?ds ?mp "make_key h ty"] by (auto simp: active_set_def active_of_def w'(1) x)
      ultimately show ?thesis using True by auto
    qed
  qed
  ultimately show ?thesis using l' w' by (auto simp: s)
qed

subsection \<open>Ending on a signal\<close>

definition terminated :: "signal_handler \<Rightarrow> 'v signal_world \<Rightarrow> bool" where
  "terminated h sw \<longleftrightarrow> has_received h Sigint sw \<or> has_received h Sigterm sw"

interpretation rts: stopping_callbacks "rt_env ap" closure_loop "closure_world ap"
    "Other_closure (Shutdown_check h)" "\<lambda>w. terminated h (rw_signals w)" for ap h
  by unfold_locales
    (auto simp: closure_world_def timeout_fired_def closure_loop_def shutdown_check_def terminated_def el_stop_def
      split: loop_closure.splits app_closure.splits prod.splits)

end
