(* ===== verification/Runtime_Liveness.thy ===== *)
theory Runtime_Liveness
  imports Runtime_Facts
begin

text \<open>
  A termination signal ends \<open>run\<close>: with the timer of \<open>register_loop_shutdown\<close> in the loop, a poller that
  lets time pass and reports no error, and application code that leaves that timer alone, \<open>run\<close> returns
  when the signal arrives: the time to its arrival, then the time to the next expiry of the timer, run down.
\<close>

text \<open>The live timers \<open>register_loop_shutdown\<close> leaves for a handler.\<close>

definition shut_timers :: "signal_handler \<Rightarrow> (('u, 'a) rt_closure, 'k, 'w) event_loop \<Rightarrow> ('u, 'a) rt_closure timer_entry set" where
  "shut_timers h l = {t \<in> live (el_timers l). te_callback t = Other_closure (Shutdown_check h)
     \<and> te_repeating t \<and> te_interval t = 100000000}"

text \<open>The handler object exists and is the one the process delivers signals to.\<close>

definition installed :: "signal_handler \<Rightarrow> 'v signal_world \<Rightarrow> bool" where
  "installed h sw \<longleftrightarrow> (\<exists>a st. h = Some a \<and> sw_global sw = Some a \<and> sw_states sw a = Some st)"

text \<open>What tasks and handlers may do: anything but take the timer away, swap the poller, uninstall the
  signal handler, lose a signal or turn back the clock.\<close>

definition keeps :: "signal_handler \<Rightarrow> ('x \<Rightarrow> int) \<Rightarrow> ('u, 'v, 'a, 'k, 'x) rt_state \<Rightarrow> ('u, 'v, 'a, 'k, 'x) rt_state \<Rightarrow> bool" where
  "keeps h clock s s' \<longleftrightarrow>
     shut_timers h (fst s) \<subseteq> shut_timers h (fst s') \<and> el_poller (fst s') = el_poller (fst s)
     \<and> (no_null_handler (fst s) \<longrightarrow> no_null_handler (fst s')) \<and> (el_stopped (fst s) \<longrightarrow> el_stopped (fst s'))
     \<and> (installed h (rw_signals (snd s)) \<longrightarrow> installed h (rw_signals (snd s')))
     \<and> (terminated h (rw_signals (snd s)) \<longrightarrow> terminated h (rw_signals (snd s')))
     \<and> clock (rw_ext (snd s)) \<le> clock (rw_ext (snd s'))"

lemma keeps_refl [simp]: "keeps h clock s s"
  by (simp add: keeps_def)

lemma keeps_trans: "keeps h clock s s' \<Longrightarrow> keeps h clock s' s'' \<Longrightarrow> keeps h clock s s''"
  by (auto simp: keeps_def)

lemma keeps_stats [simp]:
  "keeps h clock s (l\<lparr>el_stats := st\<rparr>, w) \<longleftrightarrow> keeps h clock s (l, w)"
  "keeps h clock (l\<lparr>el_task_queue := q\<rparr>, w) s \<longleftrightarrow> keeps h clock (l, w) s"
  by (simp_all add: keeps_def shut_timers_def no_null_handler_def)

definition app_keeps :: "signal_handler \<Rightarrow> ('x \<Rightarrow> int) \<Rightarrow> ('u, 'v, 'a, 'k, 'x) rt_app \<Rightarrow> bool" where
  "app_keeps h clock ap \<longleftrightarrow>
     (\<forall>k s. keeps h clock s (ap_task ap k s)) \<and> (\<forall>p fd e s. keeps h clock s (ap_event ap p fd e s))
     \<and> (\<forall>x. ap_now ap x = (clock x, x)) \<and> (\<forall>u fd ty x. clock x \<le> clock (ap_timeout ap u fd ty x))
     \<and> (\<forall>a i x. clock x \<le> clock (ap_timer ap a i x))"

text \<open>A wait takes time and succeeds; from the moment \<open>due\<close> on the signal has been received.\<close>

definition poller_signals :: "signal_handler \<Rightarrow> ('x \<Rightarrow> int) \<Rightarrow> int \<Rightarrow> ('u, 'v, 'x) rt_world poller \<Rightarrow> bool" where
  "poller_signals h clock due po \<longleftrightarrow>
     (\<forall>n t w. installed h (rw_signals w) \<longrightarrow>
        (\<exists>es w'. po_wait po n t w = (Inr es, w') \<and> installed h (rw_signals w') \<and> clock (rw_ext w) < clock (rw_ext w')
        \<and> (terminated h (rw_signals w) \<or> due \<le> clock (rw_ext w') \<longrightarrow> terminated h (rw_signals w'))))"

subsection \<open>One iteration\<close>

lemma process_tasks_keeps:
  assumes "app_keeps h clock ap"
  shows "keeps h clock s (process_tasks (rt_env ap) s)"
proof -
  have task: "keeps h clock s0 (run_task (rt_env ap) k s0)" for k s0
    using assms by (auto simp: app_keeps_def run_task_def rt_env_def case_prod_unfold) (metis prod.collapse)
  have "keeps h clock s0 (fold (run_task (rt_env ap)) ks s0)" for ks s0
  proof (induction ks arbitrary: s0)
    case (Cons k ks)
    then show ?case using keeps_trans [OF task Cons.IH] by simp
  qed simp
  from this [of "((fst s)\<lparr>el_task_queue := []\<rparr>, snd s)" "el_task_queue (fst s)"] show ?thesis
    by (simp add: process_tasks_def)
qed

lemma dispatch_events_keeps:
  assumes "app_keeps h clock ap"
  shows "no_null_handler (fst s) \<Longrightarrow> \<exists>s'. dispatch_events (rt_env ap) es s = Some s' \<and> keeps h clock s s'"
proof (induction es arbitrary: s)
  case (Cons e es)
  obtain l w where s: "s = (l, w)" by fastforce
  show ?case
  proof (cases "el_handlers l (ed_handle e)")
    case None
    then show ?thesis using Cons s by simp
  next
    case (Some p)
    then have p: "p \<noteq> 0" using Cons.prems unfolding s no_null_handler_def fst_conv by metis
    obtain l1 w1 where c: "ap_event ap p (ed_handle e) (ed_events e) (l, w) = (l1, w1)" by fastforce
    let ?s1 = "(l1\<lparr>el_stats := count_event (el_stats l1)\<rparr>, w1)"
    have k1: "keeps h clock s ?s1" using assms c s by (auto simp: app_keeps_def) (metis)
    then have "no_null_handler (fst ?s1)" using Cons.prems unfolding keeps_def by blast
    from Cons.IH [OF this] obtain s' where s': "dispatch_events (rt_env ap) es ?s1 = Some s'" "keeps h clock ?s1 s'"
      by blast
    have "dispatch_events (rt_env ap) (e # es) s = Some s'"
      using Some p c s'(1) by (simp add: s rt_env_def)
    then show ?thesis using keeps_trans [OF k1 s'(2)] by blast
  qed
qed simp

lemma closure_world_clock:
  assumes "app_keeps h clock ap"
  shows "clock (rw_ext w) \<le> clock (rw_ext (closure_world ap c i w))"
  using assms
  by (auto simp: app_keeps_def closure_world_def timeout_fired_def call_timeout_def
      split: loop_closure.split app_closure.split prod.split option.split timeout_callback.split)

lemma call_timers_clock:
  assumes "app_keeps h clock ap"
  shows "clock (rw_ext w) \<le> clock (rw_ext (call_timers (closure_world ap) ds w))"
proof (induction ds arbitrary: w)
  case (Cons t ds)
  show ?case
    using closure_world_clock [OF assms, of w "te_callback t" "te_id t"]
      Cons.IH [of "closure_world ap (te_callback t) (te_id t) w"]
    by (simp add: call_timers_def)
qed (simp add: call_timers_def)

lemma closure_world_signals [simp]: "rw_signals (closure_world ap c i w) = rw_signals w"
  by (auto simp: closure_world_def timeout_fired_def split: loop_closure.split app_closure.split prod.split)

lemma call_timers_signals [simp]: "rw_signals (call_timers (closure_world ap) ds w) = rw_signals w"
proof (induction ds arbitrary: w)
  case (Cons t ds)
  then show ?case by (simp add: call_timers_def)
qed (simp add: call_timers_def)

lemma closure_loop_sel [simp]:
  "el_poller (closure_loop c i w l) = el_poller l" "el_handlers (closure_loop c i w l) = el_handlers l"
  by (auto simp: closure_loop_def shutdown_check_def el_stop_def split: loop_closure.split app_closure.split)

lemma rt_env_timer [simp]: "le_timer (rt_env ap) c i s = (closure_loop c i (snd s) (fst s), closure_world ap c i (snd s))"
  by (simp add: rt_env_def)

lemma pass_frame:
  assumes "process_timers (rt_env ap) (l, w) = Some (l', w')"
  shows "el_poller l' = el_poller l" and "el_handlers l' = el_handlers l" and "el_stopped l \<Longrightarrow> el_stopped l'"
proof -
  show "el_poller l' = el_poller l"
    by (rule process_timers_keeps [where P = "\<lambda>m. el_poller m = el_poller l", OF _ _ _ assms]) simp_all
  show "el_handlers l' = el_handlers l"
    by (rule process_timers_keeps [where P = "\<lambda>m. el_handlers m = el_handlers l", OF _ _ _ assms]) simp_all
  show "el_stopped l \<Longrightarrow> el_stopped l'"
    by (rule process_timers_keeps [where P = el_stopped, OF _ _ _ assms]) (simp_all add: rts.stays_stopped)
qed

text \<open>A pass leaves a timer of the handler, and after the signal it stops the loop unless the timer is not due.\<close>

lemma pass_shutdown:
  assumes ap: "app_keeps h clock ap" and t: "t \<in> shut_timers h l"
  shows "\<exists>l' w'. process_timers (rt_env ap) (l, w) = Some (l', w') \<and> clock (rw_ext w) \<le> clock (rw_ext w')
    \<and> rw_signals w' = rw_signals w \<and> el_poller l' = el_poller l \<and> el_handlers l' = el_handlers l
    \<and> (el_stopped l' \<or> (\<exists>u \<in> shut_timers h l'. terminated h (rw_signals w) \<longrightarrow> u = t \<and> clock (rw_ext w) < te_expiry t))"
proof -
  let ?now = "clock (rw_ext w)"
  have now: "le_now (rt_env ap) w = (?now, w)" using ap by (auto simp: app_keeps_def rt_env_def)
  obtain l' where l': "process_timers (rt_env ap) (l, w)
        = Some (l', call_timers (closure_world ap) (due_timers ?now (el_timers l)) w)"
      "el_timers l' = after_pass ?now (el_timers l)"
    using rtq.process_timers_pass [OF now, of l] by blast
  have tl: "t \<in> live (el_timers l)" "te_callback t = Other_closure (Shutdown_check h)" "te_repeating t" "te_interval t = 100000000"
    using t by (auto simp: shut_timers_def)
  have "el_stopped l' \<or> (\<exists>u \<in> shut_timers h l'. terminated h (rw_signals w) \<longrightarrow> u = t \<and> ?now < te_expiry t)"
  proof (cases "te_expiry t \<le> ?now")
    case False
    then have "t \<in> shut_timers h l'"
      using tl live_after_pass [of t ?now "el_timers l"] by (auto simp: shut_timers_def l'(2))
    then show ?thesis using False by auto
  next
    case True
    show ?thesis
    proof (cases "terminated h (rw_signals w)")
      case sg: True
      have "timer_due ?now t" using True tl(1) by (simp add: live_due)
      then have "el_stopped l'"
        using rts.process_timers_stop [OF l'(1) now sg] tl(1,2) by (auto simp: live_def)
      then show ?thesis ..
    next
      case False
      let ?u = "t\<lparr>te_expiry := ?now + te_interval t\<rparr>"
      have "?u \<in> live (after_pass ?now (el_timers l))"
        using True tl live_after_pass [of ?u ?now "el_timers l"] by auto
      then have "?u \<in> shut_timers h l'" using tl by (simp add: shut_timers_def l'(2))
      then show ?thesis using False by blast
    qed
  qed
  then show ?thesis using l' pass_frame [OF l'(1)] call_timers_clock [OF ap] by auto
qed

subsection \<open>The run\<close>

definition shutdown_inv :: "signal_handler \<Rightarrow> ('u, 'v, 'x) rt_world poller \<Rightarrow> ('u, 'v, 'a, 'k, 'x) rt_state \<Rightarrow> bool" where
  "shutdown_inv h po s \<longleftrightarrow> installed h (rw_signals (snd s)) \<and> el_poller (fst s) = po \<and> no_null_handler (fst s)
     \<and> (el_stopped (fst s) \<or> shut_timers h (fst s) \<noteq> {})"

definition time_to_signal :: "signal_handler \<Rightarrow> ('x \<Rightarrow> int) \<Rightarrow> int \<Rightarrow> ('u, 'v, 'a, 'k, 'x) rt_state \<Rightarrow> nat" where
  "time_to_signal h clock due s =
     (if terminated h (rw_signals (snd s)) then 0 else Suc (nat (due - clock (rw_ext (snd s)))))"

definition time_to_check :: "signal_handler \<Rightarrow> ('x \<Rightarrow> int) \<Rightarrow> ('u, 'v, 'a, 'k, 'x) rt_state \<Rightarrow> nat" where
  "time_to_check h clock s = nat (Min (te_expiry ` shut_timers h (fst s)) - clock (rw_ext (snd s)))"

lemma finite_shut_timers [simp]: "finite (shut_timers h l)"
  by (simp add: shut_timers_def live_def)

lemma shutdown_step:
  assumes ap: "app_keeps h clock ap" and po: "poller_signals h clock due po" and inv: "shutdown_inv h po s"
    and running: "\<not> el_stopped (fst s)"
  shows "\<exists>t w1 s'. calculate_timeout (rt_env ap) (fst s) (snd s) = (t, w1)
    \<and> run_once (rt_env ap) t (fst s, w1) = Some (ec_ok, s') \<and> shutdown_inv h po s'
    \<and> (el_stopped (fst s') \<or> (s', s) \<in> measures [time_to_signal h clock due, time_to_check h clock])"
proof -
  have now: "le_now (rt_env ap) (snd s) = (clock (rw_ext (snd s)), snd s)"
    using ap by (auto simp: app_keeps_def rt_env_def)
  obtain t where t: "calculate_timeout (rt_env ap) (fst s) (snd s) = (t, snd s)"
    by (cases "el_timers (fst s) = []") (auto simp: calculate_timeout_def now)
  obtain l1 w1 where s1: "process_tasks (rt_env ap) s = (l1, w1)" by fastforce
  have k1: "keeps h clock s (l1, w1)" using process_tasks_keeps [OF ap, of s] s1 by simp
  have l1: "el_poller l1 = po" "no_null_handler l1" "installed h (rw_signals w1)" using k1 inv by (auto simp: keeps_def shutdown_inv_def)
  obtain es w2 where w2: "po_wait po max_events t w1 = (Inr es, w2)" "clock (rw_ext w1) < clock (rw_ext w2)"
      "terminated h (rw_signals w1) \<or> due \<le> clock (rw_ext w2) \<longrightarrow> terminated h (rw_signals w2)"
      "installed h (rw_signals w2)"
    using po l1(3) unfolding poller_signals_def by blast
  obtain l3 w3 where s3: "dispatch_events (rt_env ap) es (l1, w2) = Some (l3, w3)" "keeps h clock (l1, w2) (l3, w3)"
    using dispatch_events_keeps [OF ap, of "(l1, w2)" es] l1(2) by auto
  have sub: "shut_timers h (fst s) \<subseteq> shut_timers h l3" using k1 s3(2) by (auto simp: keeps_def)
  then have ne: "shut_timers h l3 \<noteq> {}" "shut_timers h (fst s) \<noteq> {}" using inv running by (auto simp: shutdown_inv_def)
  obtain tm where tm: "tm \<in> shut_timers h l3" "te_expiry tm = Min (te_expiry ` shut_timers h l3)"
  proof -
    have "Min (te_expiry ` shut_timers h l3) \<in> te_expiry ` shut_timers h l3" using ne(1) by (intro Min_in) auto
    then show thesis by (elim imageE) (simp add: that)
  qed
  obtain l4 w4 where s4: "process_timers (rt_env ap) (l3, w3) = Some (l4, w4)" "clock (rw_ext w3) \<le> clock (rw_ext w4)"
      "rw_signals w4 = rw_signals w3" "el_poller l4 = el_poller l3" "el_handlers l4 = el_handlers l3"
      "el_stopped l4 \<or> (\<exists>u \<in> shut_timers h l4. terminated h (rw_signals w3) \<longrightarrow> u = tm \<and> clock (rw_ext w3) < te_expiry tm)"
    using pass_shutdown [OF ap tm(1), of w3] by blast
  have once: "run_once (rt_env ap) t (fst s, snd s) = Some (ec_ok, (l4, w4))"
    using s1 w2(1) s3(1) s4(1) l1(1) by (simp add: run_once_def vresult_defs)
  have c: "clock (rw_ext (snd s)) < clock (rw_ext w2)" "clock (rw_ext w2) \<le> clock (rw_ext w3)"
    using k1 s3(2) w2(2) by (auto simp: keeps_def)
  have sg: "terminated h (rw_signals (snd s)) \<Longrightarrow> terminated h (rw_signals w3)"
      "\<not> terminated h (rw_signals w3) \<Longrightarrow> clock (rw_ext w2) < due"
    using k1 s3(2) w2(3) by (auto simp: keeps_def)
  have inv': "shutdown_inv h po (l4, w4)"
    using s3(2) s4(3-6) l1 w2(4) by (auto simp: keeps_def shutdown_inv_def no_null_handler_def)
  have "((l4, w4), s) \<in> measures [time_to_signal h clock due, time_to_check h clock]" if nst: "\<not> el_stopped l4"
  proof (cases "terminated h (rw_signals w3)")
    case False
    then have "time_to_signal h clock due (l4, w4) < time_to_signal h clock due s"
      using sg c s4(2,3) by (auto simp: time_to_signal_def)
    then show ?thesis by simp
  next
    case True
    show ?thesis
    proof (cases "terminated h (rw_signals (snd s))")
      case False
      then have "time_to_signal h clock due (l4, w4) < time_to_signal h clock due s"
        using True s4(3) by (simp add: time_to_signal_def)
      then show ?thesis by simp
    next
      case sgs: True
      have u: "tm \<in> shut_timers h l4" "clock (rw_ext w3) < te_expiry tm" using s4(6) nst True by auto
      have "Min (te_expiry ` shut_timers h l4) \<le> te_expiry tm" using u(1) by simp
      moreover have "te_expiry tm \<le> Min (te_expiry ` shut_timers h (fst s))"
        unfolding tm(2) using sub ne(2) by (intro Min_antimono) auto
      ultimately have "time_to_check h clock (l4, w4) < time_to_check h clock s"
        using u(2) c s4(2) by (simp add: time_to_check_def)
      moreover have "time_to_signal h clock due (l4, w4) = time_to_signal h clock due s"
        using True sgs s4(3) by (simp add: time_to_signal_def)
      ultimately show ?thesis by simp
    qed
  qed
  then show ?thesis using t once inv' by auto
qed

lemma run_stops_on_signal:
  assumes "app_keeps h clock ap" and "poller_signals h clock due (el_poller (fst s))"
    and "no_null_handler (fst s)" and "shut_timers h (fst s) \<noteq> {}" and "\<not> el_running (fst s)"
    and "installed h (rw_signals (snd s))"
  shows "\<exists>s'. run (rt_env ap) s = Some (ec_ok, s') \<and> \<not> el_running (fst s')"
proof -
  let ?s = "((fst s)\<lparr>el_running := True, el_stopped := False\<rparr>, snd s)" and ?po = "el_poller (fst s)"
  have "shutdown_inv h ?po ?s" using assms(3,4,6) by (simp add: shutdown_inv_def no_null_handler_def shut_timers_def)
  then have "\<exists>s'. run_loop (rt_env ap) ?s = Some (ec_ok, s') \<and> \<not> el_running (fst s')"
    using run_loop_returns [of "measures [time_to_signal h clock due, time_to_check h clock]" "shutdown_inv h ?po" "rt_env ap" ?s]
      shutdown_step [OF assms(1,2)] by (simp add: wf_measures)
  then show ?thesis using assms(5) by (simp add: run_def)
qed

end
