(* ===== verification/Loop_Claims.thy ===== *)
theory Loop_Claims
  imports Runtime_Liveness
begin

text \<open>
  The properties of the event loop, its pollers, the timeouts on it and the signals that end it, with a
  small runtime they are evaluated on: a clock and a log of the timeouts that were called.
\<close>

subsection \<open>A runtime to evaluate on\<close>

type_synonym demo_ext = "int \<times> (native_handle \<times> timeout_type) list"

type_synonym demo_rt_world = "(nat, nat, demo_ext) rt_world"

definition demo_app :: "(nat, nat, nat, nat, demo_ext) rt_app" where
  "demo_app =
     \<lparr>ap_now = \<lambda>x. (fst x, x), ap_timeout = \<lambda>u h ty x. (fst x, snd x @ [(h, ty)]), ap_timer = \<lambda>a i x. (fst x, snd x @ [(int a, T_idle)]),
      ap_task = \<lambda>k s. s, ap_event = \<lambda>p fd e s. s\<rparr>"

text \<open>The wait takes a millisecond; from the fifth on an interrupt arrives in it.\<close>

definition demo_tick :: "demo_rt_world \<Rightarrow> demo_rt_world" where
  "demo_tick w = w\<lparr>rw_ext := (fst (rw_ext w) + 1000000, snd (rw_ext w))\<rparr>"

definition demo_interrupt :: "demo_rt_world \<Rightarrow> demo_rt_world" where
  "demo_interrupt w =
     (case posix_handler (\<lambda>v s x. x) SIGINT (rw_signals w, rw_ext w) of
        None \<Rightarrow> w | Some (sw, x) \<Rightarrow> w\<lparr>rw_signals := sw, rw_ext := x\<rparr>)"

definition demo_poller :: "demo_rt_world poller" where
  "demo_poller =
     \<lparr>po_add = \<lambda>h e p w. (ec_ok, w), po_modify = \<lambda>h e p w. (ec_ok, w), po_remove = \<lambda>h w. (ec_ok, w),
      po_wait = \<lambda>n t w. (Inr [], if 4000000 \<le> fst (rw_ext w) then demo_interrupt (demo_tick w) else demo_tick w)\<rparr>"

definition demo_world :: demo_rt_world where
  "demo_world = \<lparr>rw_manager = tm_impl\<lparr>tm_loop := True\<rparr>,
     rw_signals = \<lparr>sw_global = Some 1, sw_states = [1 \<mapsto> signal_state_init]\<rparr>, rw_ext = (0, [])\<rparr>"

definition demo_state :: "(nat, nat, nat, nat, demo_ext) rt_state" where
  "demo_state = loop_impl (rt_env demo_app) loop_config_default demo_poller demo_world"

lemma demo_now: "le_now (rt_env demo_app) w = (fst (rw_ext w), w)"
  by (simp add: rt_env_def demo_app_def)

lemma demo_state_sel:
  "snd demo_state = demo_world" "el_timers (fst demo_state) = []" "el_next_timer_id (fst demo_state) = 1"
  "el_poller (fst demo_state) = demo_poller" "el_handlers (fst demo_state) = Map.empty" "\<not> el_running (fst demo_state)"
  by (simp_all add: demo_state_def loop_impl_def demo_now)

lemma demo_no_timers: "el_timers (fst s) = [] \<Longrightarrow> process_timers (rt_env demo_app) s = Some s"
  by (cases s) (simp add: process_timers_def remove_cancelled_def demo_now)

lemma demo_loop_ok: "loop_ok (fst demo_state)"
  using loop_impl_ok [of "rt_env demo_app" loop_config_default demo_poller demo_world demo_state]
  by (simp add: demo_state_def)

lemma demo_rt_ok: "rt_ok demo_state"
proof -
  have "linked Map.empty (live_view [])" by (rule linkedI) simp_all
  then show ?thesis
    using demo_loop_ok by (simp add: rt_ok_def demo_state_sel demo_world_def tm_impl_def tm_ok_def keys_ok_def count_active_in_map_def)
qed

subsection \<open>The timers of the loop\<close>

text \<open>C20: A pass over the timers calls the callback of every timer that is due and not cancelled, once and
  in the order of the vector; it leaves the timers that are not due, and the repeating ones with their
  next expiry, and removes all others; whatever the callbacks do to the rest of the world, as long as
  they leave the vector alone.\<close>

theorem timers_fire_in_order:
  assumes quiet: "\<And>c i l w. snd (le_timer env c i (l, w)) = eff c i w \<and> el_timers (fst (le_timer env c i (l, w))) = el_timers l"
    and now: "le_now env w = (now, w1)"
  shows "\<exists>l'. process_timers env (l, w)
      = Some (l', fold (\<lambda>t. eff (te_callback t) (te_id t))
                    (filter (\<lambda>t. \<not> te_cancelled t \<and> te_expiry t \<le> now) (el_timers l)) w1)
    \<and> el_timers l' = map (\<lambda>t. if te_expiry t \<le> now then t\<lparr>te_expiry := now + te_interval t\<rparr> else t)
        (filter (\<lambda>t. \<not> te_cancelled t \<and> (now < te_expiry t \<or> te_repeating t)) (el_timers l))"
proof -
  have after: "remove_cancelled (map (\<lambda>t. if timer_due now t then rearm now t else t) ts)
      = map (\<lambda>t. if te_expiry t \<le> now then t\<lparr>te_expiry := now + te_interval t\<rparr> else t)
          (filter (\<lambda>t. \<not> te_cancelled t \<and> (now < te_expiry t \<or> te_repeating t)) ts)" for ts :: "'a timer_entry list"
    by (induction ts) (auto simp: remove_cancelled_def timer_due_def rearm_def)
  have "quiet_callbacks env (\<lambda>c i w l. fst (le_timer env c i (l, w))) eff"
    using quiet by unfold_locales (simp_all add: prod_eq_iff)
  from quiet_callbacks.process_timers_pass [OF this now, of l] show ?thesis
    by (simp add: call_timers_def due_timers_def after_pass_def pass_timer_def [abs_def] after [unfolded timer_due_def] timer_due_def [abs_def])
qed

text \<open>Of three timers the first and the last are due; the last repeats.\<close>

definition demo_timers :: "(nat, nat) rt_closure timer_entry list" where
  "demo_timers =
     [\<lparr>te_id = 1, te_expiry = 0, te_interval = 0, te_callback = Other_closure (App 5), te_repeating = False, te_cancelled = False\<rparr>,
      \<lparr>te_id = 2, te_expiry = 9, te_interval = 9, te_callback = Other_closure (App 6), te_repeating = False, te_cancelled = False\<rparr>,
      \<lparr>te_id = 3, te_expiry = -1, te_interval = 7, te_callback = Other_closure (App 7), te_repeating = True, te_cancelled = False\<rparr>]"

theorem timers_fire_in_order_witness:
  "\<exists>l'. process_timers (rt_env demo_app) ((fst demo_state)\<lparr>el_timers := demo_timers\<rparr>, demo_world)
        = Some (l', demo_world\<lparr>rw_ext := (0, [(5, T_idle), (7, T_idle)])\<rparr>)
    \<and> map te_id (el_timers l') = [2, 3] \<and> map te_expiry (el_timers l') = [9, 7]"
proof -
  have q: "snd (le_timer (rt_env demo_app) c i (l, w)) = closure_world demo_app c i w
      \<and> el_timers (fst (le_timer (rt_env demo_app) c i (l, w))) = el_timers l" for c i l w
    using rtq.timers_kept by simp
  have n: "le_now (rt_env demo_app) demo_world = (0, demo_world)" by (simp add: demo_now demo_world_def)
  show ?thesis
    using timers_fire_in_order [OF q n, of "(fst demo_state)\<lparr>el_timers := demo_timers\<rparr>"]
    by (auto simp: demo_timers_def closure_world_def demo_app_def demo_world_def)
qed

text \<open>In every state a loop reaches through its operations, its iterations and its callbacks, the timers
  have distinct identifiers, growing along the vector, none of them the invalid one, and the next one is
  new; no handler is registered for the invalid handle.\<close>

theorem timer_ids_unique:
  assumes "callbacks_use_api env" and "loop_reachable env (l, w)"
  shows "distinct (map te_id (el_timers l)) \<and> sorted (map te_id (el_timers l))
    \<and> invalid_timer_id \<notin> te_id ` set (el_timers l) \<and> el_next_timer_id l \<notin> te_id ` set (el_timers l)
    \<and> el_handlers l invalid_handle = None"
proof -
  have ok: "loop_ok l" using loop_reachable_ok [OF assms(2,1)] by simp
  then have "distinct (map te_id (el_timers l))" by (auto simp: loop_ok_def intro: ids_ok_distinct)
  then show ?thesis
    using ok by (auto simp: loop_ok_def ids_ok_def invalid_timer_id_def intro: strict_sorted_imp_sorted)
qed

lemma demo_callbacks: "callbacks_use_api (rt_env demo_app)"
  using rt_timers_use_api [of demo_app] by (simp add: callbacks_use_api_def rt_env_def demo_app_def)

theorem timer_ids_unique_witness:
  "\<exists>l w. loop_reachable (rt_env demo_app) (l, w) \<and> length (el_timers l) = 2 \<and> distinct (map te_id (el_timers l))"
proof -
  let ?s1 = "snd (schedule_timer (rt_env demo_app) 5 (Other_closure (App 0)) False demo_state)"
  let ?s2 = "snd (schedule_timer (rt_env demo_app) 5 (Other_closure (App 1)) True ?s1)"
  have "loop_reachable (rt_env demo_app) demo_state" unfolding demo_state_def by (rule loop_new) simp
  then have "loop_reachable (rt_env demo_app) ?s1"
    by (rule loop_api [OF _ api_schedule]) (simp_all add: demo_state_sel prod_eq_iff)
  then have r: "loop_reachable (rt_env demo_app) ?s2"
    by (rule loop_api [OF _ api_schedule])
      (simp_all add: demo_state_sel prod_eq_iff schedule_timer_def add_timer_def demo_now)
  moreover have "length (el_timers (fst ?s2)) = 2"
    by (simp add: schedule_timer_def add_timer_def demo_now demo_state_sel)
  ultimately show ?thesis
    using timer_ids_unique [OF demo_callbacks, of "fst ?s2" "snd ?s2"] by (intro exI [of _ "fst ?s2"] exI [of _ "snd ?s2"]) simp
qed

text \<open>While the nearest timer is less than 24 days away and none is overdue by as much, the wait computed
  for the poller ends neither after any timer that is not yet due nor a millisecond before the nearest.\<close>

theorem wait_ends_for_timer:
  assumes "le_now env w = (now, w1)" and "t \<in> live (el_timers l)"
    and "\<forall>u \<in> live (el_timers l). te_expiry u \<le> time_point_max \<and> now - te_expiry u \<le> 2 ^ 31 * 1000000"
    and "te_expiry t - now < 2 ^ 31 * 1000000"
  shows "\<exists>r. calculate_timeout env l w = (r, w1) \<and> 0 \<le> r
    \<and> (\<forall>u \<in> live (el_timers l). r * 1000000 \<le> max 0 (te_expiry u - now))
    \<and> (\<exists>u \<in> live (el_timers l). te_expiry u - now < r * 1000000 + 1000000)"
  using calculate_timeout_wakes [OF assms] by blast

theorem wait_ends_for_timer_witness:
  "\<exists>r. calculate_timeout (rt_env demo_app)
      (fst (snd (schedule_timer (rt_env demo_app) 5 (Other_closure (App 0)) False demo_state))) demo_world = (r, demo_world)
    \<and> 4 < r \<and> r \<le> 5"
proof -
  let ?l = "fst (snd (schedule_timer (rt_env demo_app) 5 (Other_closure (App 0)) False demo_state))"
  let ?t = "\<lparr>te_id = 1, te_expiry = 5000000, te_interval = 5000000, te_callback = Other_closure (App 0),
      te_repeating = False, te_cancelled = False\<rparr>"
  have l: "live (el_timers ?l) = {?t}"
    by (auto simp: schedule_timer_def add_timer_def demo_now demo_state_sel demo_world_def live_def ms_ns_def)
  show ?thesis
    using wait_ends_for_timer [of "rt_env demo_app" demo_world 0 demo_world ?t ?l]
    unfolding l by (auto simp: demo_now demo_world_def time_point_max_def)
qed

subsection \<open>The pollers\<close>

text \<open>C21: On Linux and Windows no event ever reaches a handler: the poller reports the invalid handle for
  every event, no handler is registered for it, and an iteration of the loop is its tasks, its wait and
  its timers.\<close>

theorem epoll_reaches_no_handler:
  assumes "callbacks_use_api env" and "loop_reachable env s"
    and "el_poller (fst s) = epoll_poller api fd \<or> el_poller (fst s) = iocp_poller iapi port"
  shows "run_once env t s =
    (case process_tasks env s of
       (l1, w1) \<Rightarrow> case po_wait (el_poller (fst s)) max_events t w1 of
         (Inl e, w2) \<Rightarrow> Some (e, (l1, w2))
       | (Inr _, w2) \<Rightarrow> map_option (\<lambda>s4. (ec_ok, s4)) (process_timers env (l1, w2)))"
proof (rule run_once_handles_lost [OF assms(1)])
  show "loop_ok (fst s)" by (rule loop_reachable_ok [OF assms(2,1)])
  show "handles_lost (el_poller (fst s))" using assms(3) epoll_handles_lost iocp_handles_lost by metis
qed

text \<open>An epoll instance that reports handle after handle as readable.\<close>

definition demo_epoll :: "demo_rt_world epoll_api" where
  "demo_epoll = \<lparr>ea_create = \<lambda>w. (4, w), ea_close = \<lambda>fd w. w, ea_ctl = \<lambda>fd op h e w. (0, w),
     ea_wait = \<lambda>fd n t w. ((1, Wait_other, [(EPOLLIN, 9)]), w)\<rparr>"

definition demo_epoll_state :: "(nat, nat, nat, nat, demo_ext) rt_state" where
  "demo_epoll_state = loop_impl (rt_env demo_app) loop_config_default (epoll_poller demo_epoll 4) demo_world"

theorem epoll_reaches_no_handler_witness:
  "\<exists>s'. register_socket (tcp_invalid\<lparr>sk_fd := 7\<rparr>) ev_read 9 demo_epoll_state = (ec_ok, s') \<and> el_handlers (fst s') 7 = Some 9
    \<and> run_once (rt_env demo_app) 0 s' = Some (ec_ok, s')"
proof -
  obtain l where reg: "register_socket (tcp_invalid\<lparr>sk_fd := 7\<rparr>) ev_read 9 demo_epoll_state = (ec_ok, (l, demo_world))"
      and l: "el_poller l = epoll_poller demo_epoll 4" "el_handlers l 7 = Some 9" "el_task_queue l = []" "el_timers l = []"
    by (simp add: register_socket_def demo_epoll_state_def loop_impl_def demo_now invalid_handle_def epoll_poller_def
        epoll_add_def demo_epoll_def vresult_defs)
  have "loop_reachable (rt_env demo_app) demo_epoll_state" unfolding demo_epoll_state_def by (rule loop_new) simp
  then have r: "loop_reachable (rt_env demo_app) (l, demo_world)" using api_register [OF reg] by (rule loop_api)
  have "process_tasks (rt_env demo_app) (l, demo_world) = (l, demo_world)" using l(3) by (simp add: process_tasks_def)
  moreover have "po_wait (epoll_poller demo_epoll 4) max_events 0 demo_world
      = (Inr [\<lparr>ed_handle = -1, ed_events = epoll_convert_back_events EPOLLIN, ed_user_data = 9\<rparr>], demo_world)"
    by (simp add: epoll_poller_def epoll_wait_def demo_epoll_def)
  moreover have "process_timers (rt_env demo_app) (l, demo_world) = Some (l, demo_world)"
    by (rule demo_no_timers) (simp add: l(4))
  ultimately have "run_once (rt_env demo_app) 0 (l, demo_world) = Some (ec_ok, (l, demo_world))"
    using epoll_reaches_no_handler [OF demo_callbacks r, of demo_epoll 4 undefined undefined 0] l(1) by simp
  then show ?thesis using reg l(2) by auto
qed

text \<open>C22: On macOS every event reaches its handler: an iteration delivers the events kqueue reports in order, each
  to the handler its descriptor has when its turn comes, with the flags that stand for its filter and its
  error and end-of-file marks, and skips the events of descriptors that have no handler then; only a failed
  wait that was not interrupted ends it early. When no handler registers or unregisters a socket, these are
  the handlers registered when the wait ended. Callbacks keep to the operations of the loop, and none
  registers a null handler.\<close>

theorem kqueue_reaches_handlers:
  assumes "callbacks_use_api env" and "events_keep_no_null env"
    and "el_poller (fst s) = kqueue_poller api kq" and "no_null_handler (fst (process_tasks env s))"
  shows "run_once env t s =
    (case process_tasks env s of
       (l1, w1) \<Rightarrow> case ka_wait api kq 1024 (kq_timeout t) w1 of
         ((n, err, evs), w2) \<Rightarrow>
           if n = -1 \<and> err \<noteq> EINTR then Some (socket_error, (l1, w2))
           else map_option (\<lambda>s4. (ec_ok, s4)) (process_timers env
             (fold (deliver env) (map kq_event (if n = -1 then [] else take (nat n) evs)) (l1, w2))))
   \<and> (events_keep_handlers env \<longrightarrow>
        fold (deliver env) es s' = fold (call_handler env) (handler_calls (el_handlers (fst s')) es) s')
   \<and> has_flag (ed_events (kq_event k)) ev_read = (kv_filter k = EVFILT_READ)
   \<and> has_flag (ed_events (kq_event k)) ev_write = (kv_filter k = EVFILT_WRITE)
   \<and> has_flag (ed_events (kq_event k)) ev_error = (kv_flags k AND EV_ERROR \<noteq> 0)
   \<and> has_flag (ed_events (kq_event k)) ev_hangup = (kv_flags k AND EV_EOF \<noteq> 0)"
proof (rule conjI)
  have "el_poller (fst (process_tasks env s)) = kqueue_poller api kq"
    using process_tasks_poller [OF assms(1)] assms(3) by simp
  then show "run_once env t s =
    (case process_tasks env s of
       (l1, w1) \<Rightarrow> case ka_wait api kq 1024 (kq_timeout t) w1 of
         ((n, err, evs), w2) \<Rightarrow>
           if n = -1 \<and> err \<noteq> EINTR then Some (socket_error, (l1, w2))
           else map_option (\<lambda>s4. (ec_ok, s4)) (process_timers env
             (fold (deliver env) (map kq_event (if n = -1 then [] else take (nat n) evs)) (l1, w2))))"
    by (rule run_once_kqueue [OF assms(2) _ assms(4)])
qed (simp add: kq_event_def kq_convert_back_flags deliver_kept)

text \<open>A kqueue that reports descriptor 7 as readable and descriptor 8, which has no handler, as writable.\<close>

definition demo_kqueue :: "demo_rt_world kqueue_api" where
  "demo_kqueue = \<lparr>ka_create = \<lambda>w. (4, w), ka_close = \<lambda>fd w. w, ka_change = \<lambda>fd k w. (0, w),
     ka_wait = \<lambda>fd n t w. ((2, Wait_other,
       [\<lparr>kv_ident = 7, kv_filter = EVFILT_READ, kv_flags = 0, kv_udata = 9\<rparr>,
        \<lparr>kv_ident = 8, kv_filter = EVFILT_WRITE, kv_flags = 0, kv_udata = 9\<rparr>]), w)\<rparr>"

theorem kqueue_reaches_handlers_witness:
  "\<exists>s s'. register_socket (tcp_invalid\<lparr>sk_fd := 7\<rparr>) ev_read 9
      (loop_impl (rt_env demo_app) loop_config_default (kqueue_poller demo_kqueue 4) demo_world) = (ec_ok, s)
    \<and> run_once (rt_env demo_app) 0 s = Some (ec_ok, s') \<and> ls_events_processed (el_stats (fst s')) = 1"
proof -
  let ?l0 = "loop_impl (rt_env demo_app) loop_config_default (kqueue_poller demo_kqueue 4) demo_world"
  obtain l where reg: "register_socket (tcp_invalid\<lparr>sk_fd := 7\<rparr>) ev_read 9 ?l0 = (ec_ok, (l, demo_world))"
      and l: "el_poller l = kqueue_poller demo_kqueue 4" "el_handlers l = [7 \<mapsto> 9]" "el_task_queue l = []"
        "el_timers l = []" "ls_events_processed (el_stats l) = 0"
    by (simp add: register_socket_def loop_impl_def demo_now invalid_handle_def kqueue_poller_def kq_add_def
        demo_kqueue_def vresult_defs)
  have t: "process_tasks (rt_env demo_app) (l, demo_world) = (l, demo_world)" using l(3) by (simp add: process_tasks_def)
  have keep: "events_keep_no_null (rt_env demo_app)"
    by (simp add: events_keep_no_null_def rt_env_def demo_app_def)
  have one: "call_handler (rt_env demo_app) (9, 7, e) (l, demo_world) =
      (l\<lparr>el_stats := count_event (el_stats l)\<rparr>, demo_world)" for e
    by (simp add: call_handler_def rt_env_def demo_app_def)
  have fd: "ed_handle (kq_event \<lparr>kv_ident = 7, kv_filter = f, kv_flags = x, kv_udata = u\<rparr>) = 7"
      "ed_handle (kq_event \<lparr>kv_ident = 8, kv_filter = f, kv_flags = x, kv_udata = u\<rparr>) = 8" for f x u
    by (simp_all add: kq_event_def int_cast_id)
  have "run_once (rt_env demo_app) 0 (l, demo_world) = Some (ec_ok, (l\<lparr>el_stats := count_event (el_stats l)\<rparr>, demo_world))"
    using kqueue_reaches_handlers [OF demo_callbacks keep, of "(l, demo_world)" demo_kqueue 4 0 "[]" "(l, demo_world)" undefined] l t one fd
      demo_no_timers [of "(l\<lparr>el_stats := count_event (el_stats l)\<rparr>, demo_world)"]
    by (simp add: no_null_handler_def demo_kqueue_def deliver_def)
  then show ?thesis using reg l(5) by (auto simp: count_event_def)
qed

subsection \<open>Signals\<close>

text \<open>C9: With the timer of \<open>register_loop_shutdown\<close> in the loop, \<open>run\<close> returns, with the loop no longer
  running, once an interrupt or a termination signal arrives: as long as waits take time and succeed, and
  tasks and handlers neither take the timer away nor undo what arrived.\<close>

theorem run_returns_on_signal:
  assumes "app_keeps h clock ap" and "poller_signals h clock due (el_poller (fst s))"
    and "installed h (rw_signals (snd s))" and "no_null_handler (fst s)" and "\<not> el_running (fst s)"
    and "el_next_timer_id (fst s) \<noteq> - 1" and "loop_ok (fst s)"
    and "register_loop_shutdown ap h s = (r, s1)"
  shows "\<exists>s2. run (rt_env ap) s1 = Some (ec_ok, s2) \<and> \<not> el_running (fst s2)"
proof -
  have now: "le_now (rt_env ap) (snd s) = (clock (rw_ext (snd s)), snd s)"
    using assms(1) by (auto simp: app_keeps_def rt_env_def)
  let ?t = "\<lparr>te_id = el_next_timer_id (fst s), te_expiry = clock (rw_ext (snd s)), te_interval = 100000000,
      te_callback = Other_closure (Shutdown_check h), te_repeating = True, te_cancelled = False\<rparr>"
  have s1: "s1 = ((fst s)\<lparr>el_next_timer_id := el_next_timer_id (fst s) + 1, el_timers := el_timers (fst s) @ [?t]\<rparr>, snd s)"
    using assms(8) now by (simp add: register_loop_shutdown_def schedule_timer_interval_def add_timer_def ms_ns_def)
  have "?t \<in> shut_timers h (fst s1)" by (simp add: s1 shut_timers_def live_def)
  then show ?thesis
    using assms(2-5) by (intro run_stops_on_signal [OF assms(1)]) (auto simp: s1 no_null_handler_def)
qed

lemma demo_interrupt_installed:
  assumes "installed (Some a) (rw_signals w)"
  shows "installed (Some a) (rw_signals (demo_interrupt w))" and "terminated (Some a) (rw_signals (demo_interrupt w))"
    and "rw_ext (demo_interrupt w) = rw_ext w"
proof -
  obtain st where st: "sw_global (rw_signals w) = Some a" "sw_states (rw_signals w) a = Some st"
    using assms by (auto simp: installed_def)
  obtain sw' x' where p: "posix_handler (\<lambda>v s x. x) SIGINT (rw_signals w, rw_ext w) = Some (sw', x')"
      "has_received (Some a) Sigint sw'"
    using posix_handler_received [OF st, of SIGINT Sigint "\<lambda>v s x. x" "rw_ext w"] by auto
  then have "sw_global sw' = Some a" "\<exists>st'. sw_states sw' a = Some st'" "x' = rw_ext w"
    using st by (auto simp: posix_handler_def split: option.splits)
  then show "installed (Some a) (rw_signals (demo_interrupt w))" "terminated (Some a) (rw_signals (demo_interrupt w))"
    "rw_ext (demo_interrupt w) = rw_ext w"
    using p by (auto simp: demo_interrupt_def installed_def terminated_def)
qed

lemma demo_tick_sel [simp]:
  "rw_signals (demo_tick w) = rw_signals w" "fst (rw_ext (demo_tick w)) = fst (rw_ext w) + 1000000"
  by (simp_all add: demo_tick_def)

theorem run_returns_on_signal_witness:
  "\<exists>s2. run (rt_env demo_app) (snd (register_loop_shutdown demo_app (Some 1) demo_state)) = Some (ec_ok, s2)
    \<and> \<not> el_running (fst s2)"
proof (rule run_returns_on_signal)
  show "app_keeps (Some 1) fst demo_app" by (simp add: app_keeps_def demo_app_def)
  have "po_wait demo_poller n t w =
      (Inr [], if 4000000 \<le> fst (rw_ext w) then demo_interrupt (demo_tick w) else demo_tick w)" for n t w
    by (simp add: demo_poller_def)
  then show "poller_signals (Some 1) fst 5000000 (el_poller (fst demo_state))"
    using demo_interrupt_installed [of 1] by (auto simp: poller_signals_def demo_state_sel)
  show "register_loop_shutdown demo_app (Some 1) demo_state
      = (fst (register_loop_shutdown demo_app (Some 1) demo_state), snd (register_loop_shutdown demo_app (Some 1) demo_state))"
    by simp
  show "loop_ok (fst demo_state)" by (rule demo_loop_ok)
qed (simp_all add: demo_state_sel demo_world_def installed_def no_null_handler_def)

subsection \<open>Timeouts\<close>

text \<open>C17: The timeout manager implements a set of active timeouts: starting inserts, cancelling and firing
  remove one, \<open>cancel_all\<close> removes those of a handle, \<open>is_active\<close> is membership, cancelling fails exactly for
  a timeout that is not active, and a closure calls back exactly for one that is.\<close>

theorem timeouts_refine_set:
  assumes "tm_ok m" and "int32 h"
  shows "(\<forall>m' s'. tm_start env h ty d cb m s = (m', s') \<longrightarrow> tm_ok m' \<and> active_set m' = insert (h, ty) (active_set m))
    \<and> (\<forall>r m' l'. tm_cancel h ty m l = (r, m', l') \<longrightarrow> tm_ok m' \<and> active_set m' = active_set m - {(h, ty)}
         \<and> r = (if (h, ty) \<in> active_set m then ec_ok else invalid_argument))
    \<and> (\<forall>m' l'. tm_cancel_all h m l = (m', l') \<longrightarrow> tm_ok m' \<and> active_set m' = {x \<in> active_set m. fst x \<noteq> h})
    \<and> (\<forall>b m'. tm_fire h ty m = (b, m') \<longrightarrow> tm_ok m' \<and> active_set m' = active_set m - {(h, ty)}
         \<and> b = ((h, ty) \<in> active_set m))
    \<and> tm_is_active h ty m = ((h, ty) \<in> active_set m)"
proof (intro conjI allI impI)
  show "tm_ok m'" "active_set m' = insert (h, ty) (active_set m)" if "tm_start env h ty d cb m s = (m', s')" for m' s'
    using tm_start_spec [OF that assms] by simp_all
  show "tm_ok m'" "active_set m' = active_set m - {(h, ty)}" "r = (if (h, ty) \<in> active_set m then ec_ok else invalid_argument)"
    if "tm_cancel h ty m l = (r, m', l')" for r m' l'
    using tm_cancel_spec [OF that assms] by simp_all
  show "tm_ok m'" "active_set m' = {x \<in> active_set m. fst x \<noteq> h}" if "tm_cancel_all h m l = (m', l')" for m' l'
    using tm_cancel_all_spec [OF that assms] by simp_all
  show "tm_ok m'" "active_set m' = active_set m - {(h, ty)}" "b = ((h, ty) \<in> active_set m)" if "tm_fire h ty m = (b, m')" for b m'
    using tm_fire_spec [OF that assms] by simp_all
  show "tm_is_active h ty m = ((h, ty) \<in> active_set m)" by (rule tm_is_active_iff [OF assms(2)])
qed

theorem timeouts_refine_set_witness:
  "\<exists>m' s'. tm_start (rt_env demo_app) 7 T_read 5 None (rw_manager demo_world) demo_state = (m', s')
    \<and> active_set m' = {(7, T_read)}"
proof -
  have m: "tm_ok (rw_manager demo_world)" "active_set (rw_manager demo_world) = {}"
    using demo_rt_ok tm_impl_ok(2) by (simp_all add: rt_ok_def demo_state_sel demo_world_def active_set_def)
  obtain m' s' where s: "tm_start (rt_env demo_app) 7 T_read 5 None (rw_manager demo_world) demo_state = (m', s')" by (metis surj_pair)
  have "active_set m' = insert (7, T_read) (active_set (rw_manager demo_world))"
  proof -
    have h: "int32 7" by (simp add: int32_def)
    show ?thesis
      using conjunct1 [OF timeouts_refine_set [OF m(1) h, of "rt_env demo_app" T_read 5 None demo_state]] s by blast
  qed
  then show ?thesis using s m(2) by auto
qed

text \<open>C33: Every timeout that was started has fired, has been cancelled or replaced, or is active, and the
  statistics count them.\<close>

theorem timeouts_accounted_for:
  assumes "tm_reachable env n m"
  shows "tst_fired (tm_stats m) + tst_cancelled (tm_stats m) + tst_active (tm_stats m) = n
    \<and> tst_active (tm_stats m) = card (active_set m) \<and> active_count (Some m) = card (active_set m)"
proof -
  have "tm_ok m" "balance m = n" using tm_reachable_ok [OF assms] by simp_all
  then show ?thesis
    using tm_ok_active [of m] by (simp add: balance_def active_count_def tm_ok_def)
qed

theorem timeouts_accounted_for_witness:
  "\<exists>m. tm_reachable (rt_env demo_app) 1 m
    \<and> tst_fired (tm_stats m) + tst_cancelled (tm_stats m) + tst_active (tm_stats m) = 1"
proof -
  obtain m' s' where s: "tm_start (rt_env demo_app) 7 T_idle 5 (Some No_op) tm_impl demo_state = (m', s')" by (metis surj_pair)
  have r: "tm_reachable (rt_env demo_app) 1 m'"
    using tmr_start [OF tmr_new _ s] by (simp add: int32_def)
  then show ?thesis using timeouts_accounted_for [OF r] by blast
qed

text \<open>Starting a timeout on a manager that shares the loop makes it due when its duration has passed,
  whether or not one was active for the handle and type, and keeps manager and loop linked.\<close>

theorem start_sets_deadline:
  assumes "rt_ok s" and "int32 h" and "el_next_timer_id (fst s) \<noteq> - 1" and "le_now (rt_env ap) (snd s) = (now, w1)"
  shows "rt_ok (rt_start ap h ty d cb s) \<and> deadline (rt_start ap h ty d cb s) (h, ty) = now + d * 1000000"
  using rt_start_ok [OF assms] by blast

theorem start_sets_deadline_witness:
  "rt_ok (rt_start demo_app 7 T_read 5 (Some (User_callback 0)) demo_state)
   \<and> deadline (rt_start demo_app 7 T_read 5 (Some (User_callback 0)) demo_state) (7, T_read) = 5000000"
  using start_sets_deadline [OF demo_rt_ok, of 7 demo_app 0 demo_world T_read 5 "Some (User_callback 0)"]
  by (simp add: demo_state_sel demo_now int32_def) (simp add: demo_world_def)

text \<open>C12: A pass over the timers ends exactly the timeouts whose deadline has come, calls their callbacks and
  those of the other due timers in the order of the timers, and keeps manager and loop linked.\<close>

theorem timeouts_end_at_deadline:
  assumes "rt_ok s" and "le_now (rt_env ap) (snd s) = (now, w1)"
  shows "\<exists>s'. process_timers (rt_env ap) s = Some s' \<and> rt_ok s'
    \<and> active_set (rw_manager (snd s')) = {x \<in> active_set (rw_manager (snd s)). now < deadline s x}
    \<and> rw_ext (snd s') = fold (ext_call ap) (filter (timer_due now) (el_timers (fst s))) (rw_ext w1)"
  using process_timers_timeouts [OF assms] unfolding due_timers_def by blast

lemma rt_ok_ext [simp]: "rt_ok (l, w\<lparr>rw_ext := x\<rparr>) = rt_ok (l, w)"
  by (simp add: rt_ok_def)

lemma deadline_ext [simp]: "deadline (l, w\<lparr>rw_ext := x\<rparr>) = deadline (l, w)"
  unfolding deadline_def fun_eq_iff fst_conv snd_conv by simp

theorem timeouts_end_at_deadline_witness:
  "\<exists>l w s'. rt_start demo_app 7 T_read 5 (Some (User_callback 0)) demo_state = (l, w)
    \<and> active_set (rw_manager w) = {(7, T_read)}
    \<and> process_timers (rt_env demo_app) (l, w\<lparr>rw_ext := (5000000, [])\<rparr>) = Some s' \<and> active_set (rw_manager (snd s')) = {}"
proof -
  obtain l w where lw: "rt_start demo_app 7 T_read 5 (Some (User_callback 0)) demo_state = (l, w)" by (metis surj_pair)
  have s: "rt_ok (l, w)" "deadline (l, w) (7, T_read) = 5000000"
    using rt_start_ok [OF demo_rt_ok, of 7 demo_app 0 demo_world T_read 5 "Some (User_callback 0)"] lw
    by (simp_all add: demo_state_sel demo_now int32_def demo_world_def)
  have m: "tm_ok (rw_manager demo_world)" "active_set (rw_manager demo_world) = {}"
    using demo_rt_ok tm_impl_ok(2) by (simp_all add: rt_ok_def demo_state_sel demo_world_def active_set_def)
  obtain m' l' w' where st: "tm_start (rt_env demo_app) 7 T_read 5 (Some (User_callback 0)) (rw_manager demo_world) demo_state
      = (m', (l', w'))" by (metis surj_pair)
  have a: "active_set (rw_manager w) = {(7, T_read)}"
    using tm_start_spec(2) [OF st m(1)] m(2) lw st by (auto simp: rt_start_def demo_state_sel int32_def)
  let ?s5 = "(l, w\<lparr>rw_ext := (5000000, [])\<rparr>)"
  have n: "le_now (rt_env demo_app) (snd ?s5) = (5000000, snd ?s5)" by (simp add: demo_now)
  have "rt_ok ?s5" using s(1) by simp
  from timeouts_end_at_deadline [OF this n] show ?thesis
    using s(2) a lw by auto
qed

end
