(* ===== verification/Loop_Threads.thy ===== *)
theory Loop_Threads
  imports Event_Loop_Facts
begin

text \<open>
  The thread that runs an event loop, step by step, and the other threads. \<open>post\<close> takes the task mutex
  and \<open>stop\<close> writes an atomic flag: these are the operations of \<open>event_loop\<close> another thread may call while
  \<open>run\<close> is under way (the timers and the handlers have no lock). A place is where the thread is between
  two steps that other threads can tell apart; each step is a part of \<open>run\<close>, \<open>run_once\<close>,
  \<open>process_tasks\<close> or \<open>process_timers\<close>. The step from \<open>At_wait\<close> is the return of \<open>poller_->wait\<close>: when that
  is, the system decides, which may be never.
\<close>

datatype 'k place =
    At_entry
  | At_set_running
  | At_clear_stopped
  | At_check
  | At_timeout
  | At_swap int
  | At_tasks "'k list" int
  | At_wait int
  | At_events "event_data list"
  | At_timers
  | At_timer int "nat list"
  | At_result vresult
  | At_leave vresult
  | Returned vresult
  | Undefined

type_synonym ('c, 'k, 'w) thread_state = "'k place \<times> ('c, 'k, 'w) loop_state"

fun run_step :: "('c, 'k, 'w) loop_env \<Rightarrow> ('c, 'k, 'w) thread_state \<Rightarrow> ('c, 'k, 'w) thread_state" where
  "run_step env (At_entry, s) = (if el_running (fst s) then Returned invalid_state else At_set_running, s)"
| "run_step env (At_set_running, s) = (At_clear_stopped, ((fst s)\<lparr>el_running := True\<rparr>, snd s))"
| "run_step env (At_clear_stopped, s) = (At_check, ((fst s)\<lparr>el_stopped := False\<rparr>, snd s))"
| "run_step env (At_check, s) = (if el_stopped (fst s) then At_leave make_result_void else At_timeout, s)"
| "run_step env (At_timeout, s) = (case calculate_timeout env (fst s) (snd s) of (t, w) \<Rightarrow> (At_swap t, (fst s, w)))"
| "run_step env (At_swap t, s) = (At_tasks (el_task_queue (fst s)) t, ((fst s)\<lparr>el_task_queue := []\<rparr>, snd s))"
| "run_step env (At_tasks [] t, s) = (At_wait t, s)"
| "run_step env (At_tasks (k # ks) t, s) = (At_tasks ks t, run_task env k s)"
| "run_step env (At_wait t, s) =
     (case po_wait (el_poller (fst s)) max_events t (snd s) of
        (Inl e, w) \<Rightarrow> (At_result e, (fst s, w))
      | (Inr es, w) \<Rightarrow> (At_events es, (fst s, w)))"
| "run_step env (At_events [], s) = (At_timers, s)"
| "run_step env (At_events (e # es), s) =
     (case dispatch_events env [e] s of None \<Rightarrow> (Undefined, s) | Some s1 \<Rightarrow> (At_events es, s1))"
| "run_step env (At_timers, s) =
     (case le_now env (snd s) of (now, w) \<Rightarrow> (At_timer now [0..<length (el_timers (fst s))], (fst s, w)))"
| "run_step env (At_timer now [], s) =
     (At_result make_result_void, ((fst s)\<lparr>el_timers := remove_cancelled (el_timers (fst s))\<rparr>, snd s))"
| "run_step env (At_timer now (i # is), s) =
     (case fire_timers env now [i] s of None \<Rightarrow> (Undefined, s) | Some s1 \<Rightarrow> (At_timer now is, s1))"
| "run_step env (At_result r, s) = (if v_has_error r then At_leave r else At_check, s)"
| "run_step env (At_leave r, s) = (Returned r, ((fst s)\<lparr>el_running := False\<rparr>, snd s))"
| "run_step env (Returned r, s) = (Returned r, s)"
| "run_step env (Undefined, s) = (Undefined, s)"

text \<open>
  What happens next: a step of the thread, the end of its wait, a call from another thread, or a change of
  the world. In its wait the thread does not run; neither \<open>post\<close> nor \<open>stop\<close> ends the wait.
\<close>

definition waiting :: "'k place \<Rightarrow> bool" where
  "waiting p \<longleftrightarrow> (case p of At_wait t \<Rightarrow> True | _ \<Rightarrow> False)"

lemma waiting_simps [simp]:
  "waiting (At_wait t)" "\<not> waiting At_entry" "\<not> waiting At_set_running" "\<not> waiting At_clear_stopped" "\<not> waiting At_check"
  "\<not> waiting At_timeout" "\<not> waiting (At_swap t)" "\<not> waiting (At_tasks ks t)" "\<not> waiting (At_events es)" "\<not> waiting At_timers"
  "\<not> waiting (At_timer now is)" "\<not> waiting (At_result r)" "\<not> waiting (At_leave r)" "\<not> waiting (Returned r)" "\<not> waiting Undefined"
  by (simp_all add: waiting_def)

datatype ('k, 'w) act = Run_thread | Wait_ends | Post 'k | Stop | Elsewhere 'w

fun perform :: "('c, 'k, 'w) loop_env \<Rightarrow> ('k, 'w) act \<Rightarrow> ('c, 'k, 'w) thread_state \<Rightarrow> ('c, 'k, 'w) thread_state" where
  "perform env Run_thread c = (if waiting (fst c) then c else run_step env c)"
| "perform env Wait_ends c = (if waiting (fst c) then run_step env c else c)"
| "perform env (Post k) (p, s) = (p, (el_post k (fst s), snd s))"
| "perform env Stop (p, s) = (p, (el_stop (fst s), snd s))"
| "perform env (Elsewhere w) (p, s) = (p, (fst s, w))"

subsection \<open>The thread alone computes \<open>run\<close>\<close>

abbreviation run_steps :: "('c, 'k, 'w) loop_env \<Rightarrow> nat \<Rightarrow> ('c, 'k, 'w) thread_state \<Rightarrow> ('c, 'k, 'w) thread_state" where
  "run_steps env n \<equiv> run_step env ^^ n"

definition leads :: "('c, 'k, 'w) loop_env \<Rightarrow> ('c, 'k, 'w) thread_state \<Rightarrow> ('c, 'k, 'w) thread_state \<Rightarrow> bool" where
  "leads env c c' \<longleftrightarrow> (\<exists>n. run_steps env n c = c')"

definition fails :: "('c, 'k, 'w) loop_env \<Rightarrow> ('c, 'k, 'w) thread_state \<Rightarrow> bool" where
  "fails env c \<longleftrightarrow> (\<exists>u. leads env c (Undefined, u))"

lemma leads_refl [simp, intro]: "leads env c c"
  by (auto simp: leads_def intro: exI [of _ 0])

lemma leads_trans [trans]:
  assumes "leads env c d" and "leads env d e"
  shows "leads env c e"
proof -
  obtain m n where "run_steps env m c = d" "run_steps env n d = e" using assms by (auto simp: leads_def)
  then have "run_steps env (n + m) c = e" by (simp add: funpow_add)
  then show ?thesis by (auto simp: leads_def)
qed

lemma leads_run_step: "leads env c (run_step env c)"
  by (auto simp: leads_def intro: exI [of _ 1])

lemma leads_step: "leads env (run_step env c) c' \<Longrightarrow> leads env c c'"
  by (rule leads_trans [OF leads_run_step])

lemma fails_leads: "leads env c d \<Longrightarrow> fails env d \<Longrightarrow> fails env c"
  unfolding fails_def using leads_trans by blast

lemma fails_Undefined [simp]: "fails env (Undefined, s)"
  unfolding fails_def by (rule exI) (rule leads_refl)

lemma fails_step: "fails env (run_step env c) \<Longrightarrow> fails env c"
  by (rule fails_leads [OF leads_run_step])

lemma returned_stays [simp]: "run_steps env n (Returned r, s) = (Returned r, s)"
  by (induction n) simp_all

lemma undefined_stays [simp]: "run_steps env n (Undefined, s) = (Undefined, s)"
  by (induction n) simp_all

lemma leads_tasks: "leads env (At_tasks ks t, s) (At_wait t, fold (run_task env) ks s)"
proof (induction ks arbitrary: s)
  case Nil
  show ?case by (rule leads_step) simp
next
  case (Cons k ks)
  show ?case by (rule leads_step) (simp add: Cons.IH)
qed

lemma dispatch_Cons:
  "dispatch_events env (e # es) s = (case dispatch_events env [e] s of None \<Rightarrow> None | Some s1 \<Rightarrow> dispatch_events env es s1)"
  by (cases s) (auto split: option.split prod.split)

lemma leads_events:
  "case dispatch_events env es s of None \<Rightarrow> fails env (At_events es, s)
   | Some s' \<Rightarrow> leads env (At_events es, s) (At_timers, s')"
proof (induction es arbitrary: s)
  case Nil
  have "leads env (At_events [], s) (At_timers, s)" by (rule leads_step) simp
  then show ?case by (cases s) simp
next
  case (Cons e es)
  show ?case
  proof (cases "dispatch_events env [e] s")
    case None
    then have "fails env (At_events (e # es), s)" by (intro fails_step [of env "(At_events (e # es), s)"]) simp
    then show ?thesis using None dispatch_Cons [of env e es s] by simp
  next
    case (Some s1)
    then have "leads env (At_events (e # es), s) (At_events es, s1)"
      using leads_run_step [of env "(At_events (e # es), s)"] by simp
    then show ?thesis using Some Cons.IH [of s1] dispatch_Cons [of env e es s]
      by (auto split: option.splits intro: leads_trans fails_leads)
  qed
qed

lemma fire_Cons:
  "fire_timers env now (i # is) s = (case fire_timers env now [i] s of None \<Rightarrow> None | Some s1 \<Rightarrow> fire_timers env now is s1)"
  by (cases s) (auto simp: Let_def split: option.split prod.split)

lemma leads_timer:
  "case fire_timers env now is s of None \<Rightarrow> fails env (At_timer now is, s)
   | Some s' \<Rightarrow> leads env (At_timer now is, s)
       (At_result make_result_void, ((fst s')\<lparr>el_timers := remove_cancelled (el_timers (fst s'))\<rparr>, snd s'))"
proof (induction "is" arbitrary: s)
  case Nil
  show ?case using leads_run_step [of env "(At_timer now [], s)"] by (cases s) simp
next
  case (Cons i "is")
  show ?case
  proof (cases "fire_timers env now [i] s")
    case None
    then have "fails env (At_timer now (i # is), s)" by (intro fails_step [of env "(At_timer now (i # is), s)"]) simp
    then show ?thesis using None fire_Cons [of env now i "is" s] by simp
  next
    case (Some s1)
    then have "leads env (At_timer now (i # is), s) (At_timer now is, s1)"
      using leads_run_step [of env "(At_timer now (i # is), s)"] by simp
    then show ?thesis using Some Cons.IH [of s1] fire_Cons [of env now i "is" s]
      by (auto split: option.splits intro: leads_trans fails_leads)
  qed
qed

lemma leads_timers:
  "case process_timers env s of None \<Rightarrow> fails env (At_timers, s)
   | Some s' \<Rightarrow> leads env (At_timers, s) (At_result make_result_void, s')"
proof -
  obtain now w where n: "le_now env (snd s) = (now, w)" by fastforce
  then have "leads env (At_timers, s) (At_timer now [0..<length (el_timers (fst s))], (fst s, w))"
    using leads_run_step [of env "(At_timers, s)"] by simp
  then show ?thesis
    using n leads_timer [of env now "[0..<length (el_timers (fst s))]" "(fst s, w)"]
    by (auto simp: process_timers_def split: option.splits intro: leads_trans fails_leads)
qed

text \<open>One pass of the loop.\<close>

lemma leads_pass:
  assumes "\<not> el_stopped (fst s)" and "calculate_timeout env (fst s) (snd s) = (t, w)"
  shows "case run_once env t (fst s, w) of None \<Rightarrow> fails env (At_check, s)
    | Some (r, s') \<Rightarrow> leads env (At_check, s) (At_result r, s')"
proof -
  obtain l1 w1 where p: "process_tasks env (fst s, w) = (l1, w1)" by fastforce
  have "leads env (At_check, s) (At_timeout, s)" using assms(1) leads_run_step [of env "(At_check, s)"] by simp
  also have "leads env (At_timeout, s) (At_swap t, (fst s, w))" using assms(2) leads_run_step [of env "(At_timeout, s)"] by simp
  also have "leads env (At_swap t, (fst s, w)) (At_tasks (el_task_queue (fst s)) t, ((fst s)\<lparr>el_task_queue := []\<rparr>, w))"
    using leads_run_step [of env "(At_swap t, (fst s, w))"] by simp
  also have "leads env (At_tasks (el_task_queue (fst s)) t, ((fst s)\<lparr>el_task_queue := []\<rparr>, w)) (At_wait t, (l1, w1))"
    using p leads_tasks [of env "el_task_queue (fst s)" t "((fst s)\<lparr>el_task_queue := []\<rparr>, w)"] by (simp add: process_tasks_def)
  finally have 1: "leads env (At_check, s) (At_wait t, (l1, w1))" .
  obtain r w2 where wait: "po_wait (el_poller l1) max_events t w1 = (r, w2)" by fastforce
  have 2: "leads env (At_check, s) (case r of Inl e \<Rightarrow> (At_result e, (l1, w2)) | Inr es \<Rightarrow> (At_events es, (l1, w2)))"
    using leads_trans [OF 1 leads_run_step] wait by (simp split: sum.splits)
  show ?thesis
  proof (cases r)
    case (Inl e)
    then show ?thesis using p wait 2 by (simp add: run_once_def)
  next
    case (Inr es)
    show ?thesis
    proof (cases "dispatch_events env es (l1, w2)")
      case None
      then show ?thesis using p wait Inr leads_events [of env es "(l1, w2)"] 2 by (simp add: run_once_def fails_leads)
    next
      case (Some s3)
      then have "leads env (At_check, s) (At_timers, s3)"
        using Inr 2 leads_events [of env es "(l1, w2)"] by (auto intro: leads_trans)
      then show ?thesis using p wait Inr Some leads_timers [of env s3]
        by (auto simp: run_once_def split: option.splits intro: leads_trans fails_leads)
    qed
  qed
qed

lemma run_loop_leads: "run_loop env s = Some x \<Longrightarrow> leads env (At_check, s) (Returned (fst x), snd x)"
proof (rule run_loop.raw_induct [where P = "\<lambda>env s x. leads env (At_check, s) (Returned (fst x), snd x)"])
  fix f :: "('a, 'b, 'c) loop_env \<Rightarrow> ('a, 'b, 'c) loop_state \<Rightarrow> (vresult \<times> ('a, 'b, 'c) loop_state) option"
    and env s x
  assume IH: "\<And>env s x. f env s = Some x \<Longrightarrow> leads env (At_check, s) (Returned (fst x), snd x)"
    and eq: "(if el_stopped (fst s) then Some (make_result_void, ((fst s)\<lparr>el_running := False\<rparr>, snd s))
      else case calculate_timeout env (fst s) (snd s) of
             (t, w1) \<Rightarrow>
               (case run_once env t (fst s, w1) of
                  None \<Rightarrow> None
                | Some (r, s2) \<Rightarrow>
                    if v_has_error r then Some (r, ((fst s2)\<lparr>el_running := False\<rparr>, snd s2))
                    else f env s2)) = Some x"
  show "leads env (At_check, s) (Returned (fst x), snd x)"
  proof (cases "el_stopped (fst s)")
    case True
    then have "leads env (At_check, s) (At_leave make_result_void, s)" using leads_run_step [of env "(At_check, s)"] by simp
    also have "leads env (At_leave make_result_void, s) (Returned (fst x), snd x)"
      using True eq leads_run_step [of env "(At_leave make_result_void, s)"] by auto
    finally show ?thesis .
  next
    case False
    obtain t w where c: "calculate_timeout env (fst s) (snd s) = (t, w)" by fastforce
    then obtain r s2 where o: "run_once env t (fst s, w) = Some (r, s2)" using False eq by (auto split: option.splits)
    then have 1: "leads env (At_check, s) (At_result r, s2)" using leads_pass [OF False c] by simp
    show ?thesis
    proof (cases "v_has_error r")
      case True
      then have "leads env (At_result r, s2) (At_leave r, s2)" using leads_run_step [of env "(At_result r, s2)"] by simp
      also have "leads env (At_leave r, s2) (Returned (fst x), snd x)"
        using True False c o eq leads_run_step [of env "(At_leave r, s2)"] by auto
      finally show ?thesis by (rule leads_trans [OF 1])
    next
      case ok: False
      then have "leads env (At_result r, s2) (At_check, s2)" using leads_run_step [of env "(At_result r, s2)"] by simp
      also have "leads env (At_check, s2) (Returned (fst x), snd x)" using IH [of env s2 x] ok False c o eq by simp
      finally show ?thesis by (rule leads_trans [OF 1])
    qed
  qed
qed

text \<open>And back: the place where the thread ends is unique.\<close>

lemma run_steps_diff: "m \<le> n \<Longrightarrow> run_steps env n c = run_steps env (n - m) (run_steps env m c)"
  using funpow_add [of "n - m" m "run_step env"] by simp

lemma steps_apart:
  assumes "run_steps env m c = d" and "run_steps env n c = (Returned r, s')" and "\<And>x. fst d \<noteq> Returned x"
  shows "m < n \<and> run_steps env (n - m) d = (Returned r, s')"
proof -
  have "m < n"
  proof (rule ccontr)
    assume "\<not> m < n"
    then have "run_steps env m c = (Returned r, s')" using assms(2) run_steps_diff [of n m env c] by simp
    then show False using assms by auto
  qed
  then show ?thesis using assms run_steps_diff [of m n env c] by simp
qed

lemma leads_via:
  assumes "leads env c d" and "\<And>x. fst d \<noteq> Returned x"
  shows "leads env c (Returned r, s') \<longleftrightarrow> leads env d (Returned r, s')"
proof
  assume "leads env c (Returned r, s')"
  then show "leads env d (Returned r, s')" using assms steps_apart unfolding leads_def by metis
next
  assume "leads env d (Returned r, s')"
  then show "leads env c (Returned r, s')" by (rule leads_trans [OF assms(1)])
qed

lemma leads_unique:
  assumes "leads env c (Returned r, s)" and "leads env c (Returned r', s')"
  shows "r = r' \<and> s = s'"
proof -
  obtain m n where m: "run_steps env m c = (Returned r, s)" and n: "run_steps env n c = (Returned r', s')"
    using assms by (auto simp: leads_def)
  show ?thesis using m n run_steps_diff [of m n env c] run_steps_diff [of n m env c] by (cases "m \<le> n") auto
qed

lemma fails_never_returns: "fails env c \<Longrightarrow> run_steps env n c \<noteq> (Returned r, s')"
proof
  assume "fails env c" and n: "run_steps env n c = (Returned r, s')"
  then obtain m u where "run_steps env m c = (Undefined, u)" by (auto simp: fails_def leads_def)
  from steps_apart [OF this n] show False by simp
qed

lemma leads_leave:
  "leads env (At_leave r, s) (Returned r, ((fst s)\<lparr>el_running := False\<rparr>, snd s))"
  using leads_run_step [of env "(At_leave r, s)"] by simp

lemma leads_run_loop: "run_steps env n (At_check, s) = (Returned r, s') \<Longrightarrow> run_loop env s = Some (r, s')"
proof (induction n arbitrary: s rule: less_induct)
  case (less n)
  then have end_ : "leads env (At_check, s) (Returned r, s')" by (auto simp: leads_def)
  show ?case
  proof (cases "el_stopped (fst s)")
    case True
    then have "leads env (At_check, s) (At_leave make_result_void, s)" using leads_run_step [of env "(At_check, s)"] by simp
    from leads_unique [OF leads_trans [OF this leads_leave] end_] show ?thesis
      using True by (subst run_loop.simps) simp
  next
    case False
    obtain t w where c: "calculate_timeout env (fst s) (snd s) = (t, w)" by fastforce
    obtain r2 s2 where o: "run_once env t (fst s, w) = Some (r2, s2)" "leads env (At_check, s) (At_result r2, s2)"
      using leads_pass [OF False c] fails_never_returns [of env "(At_check, s)"] less.prems
      by (cases "run_once env t (fst s, w)") auto
    then obtain m where m: "run_steps env m (At_check, s) = (At_result r2, s2)" by (auto simp: leads_def)
    have 1: "m < n" "run_steps env (n - m) (At_result r2, s2) = (Returned r, s')"
      using steps_apart [OF m less.prems] by auto
    show ?thesis
    proof (cases "v_has_error r2")
      case True
      then have "leads env (At_result r2, s2) (At_leave r2, s2)" using leads_run_step [of env "(At_result r2, s2)"] by simp
      then have "leads env (At_check, s) (At_leave r2, s2)" by (rule leads_trans [OF o(2)])
      from leads_unique [OF leads_trans [OF this leads_leave] end_] show ?thesis
        using True False c o by (subst run_loop.simps) simp
    next
      case ok: False
      then have "run_steps env 1 (At_result r2, s2) = (At_check, s2)" by simp
      from steps_apart [OF this 1(2)] have "run_steps env (n - m - 1) (At_check, s2) = (Returned r, s')" by simp
      then have "run_loop env s2 = Some (r, s')" using less.IH [of "n - m - 1"] \<open>m < n\<close> by simp
      then show ?thesis using ok False c o by (subst run_loop.simps) simp
    qed
  qed
qed

lemma run_loop_iff: "run_loop env s = Some (r, s') \<longleftrightarrow> leads env (At_check, s) (Returned r, s')"
proof
  assume "run_loop env s = Some (r, s')"
  from run_loop_leads [OF this] show "leads env (At_check, s) (Returned r, s')" by simp
next
  assume "leads env (At_check, s) (Returned r, s')"
  then show "run_loop env s = Some (r, s')" unfolding leads_def using leads_run_loop by blast
qed

lemma run_iff: "run env s = Some (r, s') \<longleftrightarrow> leads env (At_entry, s) (Returned r, s')"
proof (cases "el_running (fst s)")
  case True
  then have e: "leads env (At_entry, s) (Returned invalid_state, s)" using leads_run_step [of env "(At_entry, s)"] by simp
  then have "leads env (At_entry, s) (Returned r, s') \<longleftrightarrow> r = invalid_state \<and> s' = s"
    using leads_unique [OF e, of r s'] by auto
  then show ?thesis using True by (auto simp: run_def)
next
  case False
  let ?s1 = "((fst s)\<lparr>el_running := True\<rparr>, snd s)" and ?s = "((fst s)\<lparr>el_running := True, el_stopped := False\<rparr>, snd s)"
  have "leads env (At_entry, s) (At_set_running, s)" using False leads_run_step [of env "(At_entry, s)"] by simp
  also have "leads env (At_set_running, s) (At_clear_stopped, ?s1)" using leads_run_step [of env "(At_set_running, s)"] by simp
  also have "leads env (At_clear_stopped, ?s1) (At_check, ?s)" using leads_run_step [of env "(At_clear_stopped, ?s1)"] by simp
  finally have "leads env (At_entry, s) (Returned r, s') \<longleftrightarrow> leads env (At_check, ?s) (Returned r, s')" by (rule leads_via) simp
  then show ?thesis using False by (simp add: run_def run_loop_iff)
qed

end
