(* ===== verification/Loop_Thread_Facts.thy ===== *)
theory Loop_Thread_Facts
  imports Loop_Threads "HOL-Library.Sublist"
begin

text \<open>
  The tasks of a loop that other threads post to, and the end of a run they stop: what holds in every
  interleaving, and what comes about in every fair one.
\<close>

subsection \<open>What callbacks do to the queue and the flags\<close>

lemma api_step_queue:
  "api_step env s s' \<Longrightarrow> (\<exists>ks. el_task_queue (fst s') = el_task_queue (fst s) @ ks)
     \<and> (el_stopped (fst s) \<longrightarrow> el_stopped (fst s')) \<and> el_running (fst s') = el_running (fst s)
     \<and> el_config (fst s') = el_config (fst s)"
  by (erule api_stepE) (auto simp: schedule_timer_def schedule_timer_interval_def add_timer_def cancel_timer_def
      el_post_def el_stop_def register_socket_def modify_socket_def unregister_socket_def
      split: prod.splits option.splits if_splits)

lemma api_steps_queue:
  "(api_step env)\<^sup>*\<^sup>* s s' \<Longrightarrow> (\<exists>ks. el_task_queue (fst s') = el_task_queue (fst s) @ ks)
     \<and> (el_stopped (fst s) \<longrightarrow> el_stopped (fst s')) \<and> el_running (fst s') = el_running (fst s)
     \<and> el_config (fst s') = el_config (fst s)"
proof (induction rule: rtranclp_induct)
  case (step s1 s2)
  then show ?case using api_step_queue [OF step.hyps(2)] by auto
qed simp

definition grows :: "('c, 'k, 'w) loop_state \<Rightarrow> ('c, 'k, 'w) loop_state \<Rightarrow> bool" where
  "grows s s' \<longleftrightarrow> (\<exists>ks. el_task_queue (fst s') = el_task_queue (fst s) @ ks)
     \<and> (el_stopped (fst s) \<longrightarrow> el_stopped (fst s')) \<and> el_running (fst s') = el_running (fst s)
     \<and> el_config (fst s') = el_config (fst s)"

lemma callbacks_grow:
  assumes "callbacks_use_api env"
  shows "grows s (le_task env k s)" and "grows s (le_event env p h e s)" and "grows s (le_timer env c i s)"
  using assms api_steps_queue unfolding callbacks_use_api_def timers_use_api_def grows_def by blast+

lemma grows_upd [simp]:
  "grows (l\<lparr>el_stats := st\<rparr>, w) s = grows (l, w) s" "grows s (l\<lparr>el_stats := st\<rparr>, w) = grows s (l, w)"
  "grows s (l\<lparr>el_timers := ts\<rparr>, w) = grows s (l, w)" "grows s (l, w') = grows s (l, w)"
  "grows s s"
  by (simp_all add: grows_def)

lemma run_task_grows:
  assumes "callbacks_use_api env"
  shows "grows s (run_task env k s)"
  using callbacks_grow(1) [OF assms, of s k] by (cases "le_task env k s") (simp add: run_task_def)

lemma dispatch_one_grows:
  assumes "callbacks_use_api env" and "dispatch_events env [e] s = Some s'"
  shows "grows s s'"
proof (cases "el_handlers (fst s) (ed_handle e)")
  case None
  then show ?thesis using assms(2) by (cases s) simp
next
  case (Some h)
  obtain l w where c: "le_event env h (ed_handle e) (ed_events e) s = (l, w)" by fastforce
  then have "s' = (l\<lparr>el_stats := count_event (el_stats l)\<rparr>, w)" using assms(2) Some by (cases s) (auto split: if_splits)
  then show ?thesis using callbacks_grow(2) [OF assms(1), of s h "ed_handle e" "ed_events e"] c by simp
qed

lemma fire_one_grows:
  assumes "callbacks_use_api env" and "fire_timers env now [i] s = Some s'"
  shows "grows s s'"
proof (cases "timer_due now (el_timers (fst s) ! i)")
  case False
  then show ?thesis using assms(2) by (cases s) simp
next
  case True
  let ?t = "el_timers (fst s) ! i"
  obtain l w where c: "le_timer env (te_callback ?t) (te_id ?t) s = (l, w)" by fastforce
  then have "s' = (l\<lparr>el_stats := count_fired (el_stats l), el_timers := (el_timers l)[i := rearm now (el_timers l ! i)]\<rparr>, w)"
    using assms(2) True by (cases s) (auto simp: Let_def split: if_splits)
  then show ?thesis using callbacks_grow(3) [OF assms(1), of s "te_callback ?t" "te_id ?t"] c by simp
qed

subsection \<open>No task is lost, run twice or overtaken\<close>

abbreviation queue :: "('c, 'k, 'w) thread_state \<Rightarrow> 'k list" where
  "queue c \<equiv> el_task_queue (fst (snd c))"

definition batch :: "('c, 'k, 'w) thread_state \<Rightarrow> 'k list" where
  "batch c = (case fst c of At_tasks ks t \<Rightarrow> ks | _ \<Rightarrow> [])"

text \<open>The task a step runs, and the tasks it adds to the queue.\<close>

definition task_run :: "('k, 'w) act \<Rightarrow> ('c, 'k, 'w) thread_state \<Rightarrow> 'k list" where
  "task_run a c = (case a of Run_thread \<Rightarrow> (case fst c of At_tasks (k # ks) t \<Rightarrow> [k] | _ \<Rightarrow> []) | _ \<Rightarrow> [])"

definition arrivals :: "('c, 'k, 'w) loop_env \<Rightarrow> ('k, 'w) act \<Rightarrow> ('c, 'k, 'w) thread_state \<Rightarrow> 'k list" where
  "arrivals env a c = drop (length (queue c)) (queue (perform env a c))"

fun executed :: "('c, 'k, 'w) loop_env \<Rightarrow> ('k, 'w) act list \<Rightarrow> ('c, 'k, 'w) thread_state \<Rightarrow> 'k list" where
  "executed env [] c = []"
| "executed env (a # as) c = task_run a c @ executed env as (perform env a c)"

fun posted :: "('c, 'k, 'w) loop_env \<Rightarrow> ('k, 'w) act list \<Rightarrow> ('c, 'k, 'w) thread_state \<Rightarrow> 'k list" where
  "posted env [] c = []"
| "posted env (a # as) c = arrivals env a c @ posted env as (perform env a c)"

lemma perform_accounts:
  assumes "callbacks_use_api env"
  shows "batch c @ queue c @ arrivals env a c = task_run a c @ batch (perform env a c) @ queue (perform env a c)"
proof -
  obtain p s where Pair: "c = (p, s)" by (cases c)
  have g: "grows s s' \<Longrightarrow> el_task_queue (fst s) @ drop (length (el_task_queue (fst s))) (el_task_queue (fst s'))
      = el_task_queue (fst s')" for s s' :: "('a, 'b, 'c) loop_state"
    by (auto simp: grows_def)
  note task = run_task_grows [OF assms, THEN g]
    and event = dispatch_one_grows [OF assms, THEN g]
    and timer = fire_one_grows [OF assms, THEN g]
  show ?thesis
  proof (cases a)
    case Run_thread
    have "batch (p, s) @ queue (p, s) @ drop (length (queue (p, s))) (queue (run_step env (p, s)))
      = task_run Run_thread (p, s) @ batch (run_step env (p, s)) @ queue (run_step env (p, s))"
      by (cases "(env, p, s)" rule: run_step.cases)
        (auto simp: batch_def task_run_def task event timer simp del: dispatch_events.simps fire_timers.simps
          split: prod.split sum.split option.split)
    then show ?thesis by (auto simp: Run_thread Pair arrivals_def task_run_def waiting_def split: place.splits)
  next
    case Wait_ends
    show ?thesis by (cases p) (auto simp: Wait_ends Pair arrivals_def task_run_def batch_def split: prod.split sum.split)
  qed (simp_all add: Pair arrivals_def batch_def task_run_def el_post_def el_stop_def)
qed

lemma tasks_accounted:
  assumes "callbacks_use_api env"
  shows "batch c @ queue c @ posted env as c
    = executed env as c @ batch (fold (perform env) as c) @ queue (fold (perform env) as c)"
proof (induction as arbitrary: c)
  case (Cons a as)
  show ?case using perform_accounts [OF assms, of c a] Cons.IH [of "perform env a c"] by (metis append.assoc executed.simps(2)
      posted.simps(2) fold_simps(2))
qed simp

subsection \<open>Fair schedules\<close>

fun after :: "('c, 'k, 'w) loop_env \<Rightarrow> (nat \<Rightarrow> ('k, 'w) act) \<Rightarrow> ('c, 'k, 'w) thread_state \<Rightarrow> nat \<Rightarrow> ('c, 'k, 'w) thread_state" where
  "after env acts c 0 = c"
| "after env acts c (Suc n) = perform env (acts n) (after env acts c n)"

definition fair :: "(nat \<Rightarrow> ('k, 'w) act) \<Rightarrow> bool" where
  "fair acts \<longleftrightarrow> (\<forall>n. \<exists>m \<ge> n. acts m = Run_thread)"

text \<open>Whether the action is a step of the thread, and what the time of its wait is going to be.\<close>

definition moves :: "('k, 'w) act \<Rightarrow> 'k place \<Rightarrow> bool" where
  "moves a p \<longleftrightarrow> (if waiting p then a = Wait_ends else a = Run_thread)"

definition wait_time :: "'k place \<Rightarrow> int option" where
  "wait_time p = (case p of At_swap t \<Rightarrow> Some t | At_tasks ks t \<Rightarrow> Some t | At_wait t \<Rightarrow> Some t | _ \<Rightarrow> None)"

text \<open>What the systems document of the call the pollers wait with: a wait with a timeout ends.\<close>

definition timed_waits_end :: "('c, 'k, 'w) loop_env \<Rightarrow> (nat \<Rightarrow> ('k, 'w) act) \<Rightarrow> ('c, 'k, 'w) thread_state \<Rightarrow> bool" where
  "timed_waits_end env acts c \<longleftrightarrow>
     (\<forall>n t. fst (after env acts c n) = At_wait t \<and> 0 \<le> t \<longrightarrow> (\<exists>m \<ge> n. acts m = Wait_ends))"

text \<open>The waits of a loop have a timeout when its configuration has one.\<close>

definition timed :: "('c, 'k, 'w) thread_state \<Rightarrow> bool" where
  "timed c \<longleftrightarrow> 0 \<le> lc_default_timeout_ms (el_config (fst (snd c))) \<and> (\<forall>t. wait_time (fst c) = Some t \<longrightarrow> 0 \<le> t)"

lemma after_fold: "after env acts c n = fold (perform env) (map acts [0..<n]) c"
  by (induction n) simp_all

lemma fair_reaches:
  assumes wf: "wf R" and again: "\<And>n. \<exists>m\<ge>n. mv m"
    and own: "\<And>n. \<not> G n \<Longrightarrow> mv n \<Longrightarrow> (M (Suc n), M n) \<in> R"
    and other: "\<And>n. \<not> G n \<Longrightarrow> \<not> mv n \<Longrightarrow> M (Suc n) = M n"
  shows "\<exists>n. G n"
proof (rule ccontr)
  assume none: "\<nexists>n. G n"
  have "M n \<noteq> x" for x n
    using wf
  proof (induction x arbitrary: n rule: wf_induct_rule)
    case (less x)
    have same: "(\<forall>i. n \<le> i \<and> i < n + j \<longrightarrow> \<not> mv i) \<Longrightarrow> M (n + j) = M n" for j
      using none other by (induction j) auto
    obtain m where m: "m \<ge> n" "mv m" "\<forall>i. n \<le> i \<and> i < m \<longrightarrow> \<not> mv i"
      using again [of n] exists_least_iff [of "\<lambda>m. n \<le> m \<and> mv m"] by auto
    then have "M m = M n" using same [of "m - n"] by simp
    moreover have "(M (Suc m), M m) \<in> R" using own none m(2) by blast
    ultimately show ?case using less [of "M (Suc m)" "Suc m"] by auto
  qed
  then show False by blast
qed

lemma perform_moves: "moves a (fst c) \<Longrightarrow> perform env a c = run_step env c"
  by (auto simp: moves_def split: if_splits)

lemma perform_place: "\<not> moves a (fst c) \<Longrightarrow> fst (perform env a c) = fst c"
  by (cases "(env, a, c)" rule: perform.cases) (auto simp: moves_def split: if_splits)

text \<open>The waits keep their timeouts.\<close>

lemma calculate_timeout_timed: "0 \<le> lc_default_timeout_ms (el_config l) \<Longrightarrow> calculate_timeout env l w = (t, w') \<Longrightarrow> 0 \<le> t"
  by (auto simp: calculate_timeout_def split: if_splits prod.splits)

lemma timed_step:
  assumes "callbacks_use_api env" and "timed c"
  shows "timed (run_step env c)"
proof -
  note same = grows_def [THEN iffD1, THEN conjunct2, THEN conjunct2, THEN conjunct2]
  note task = run_task_grows [OF assms(1), THEN same]
    and event = dispatch_one_grows [OF assms(1), THEN same]
    and timer = fire_one_grows [OF assms(1), THEN same]
  show ?thesis
    using assms(2) by (cases "(env, c)" rule: run_step.cases)
      (auto simp: timed_def wait_time_def task event timer dest: calculate_timeout_timed
        simp del: dispatch_events.simps fire_timers.simps split: prod.split sum.split option.split)
qed

lemma timed_perform: "callbacks_use_api env \<Longrightarrow> timed c \<Longrightarrow> timed (perform env a c)"
  using timed_step [of env c] by (cases "(env, a, c)" rule: perform.cases) (auto simp: timed_def el_post_def el_stop_def)

lemma timed_after: "callbacks_use_api env \<Longrightarrow> timed c \<Longrightarrow> timed (after env acts c n)"
  by (induction n) (simp_all add: timed_perform)

text \<open>So the thread takes a step again and again.\<close>

lemma moves_again:
  assumes api: "callbacks_use_api env" and fair: "fair acts" and waits: "timed_waits_end env acts c" and timed: "timed c"
  shows "\<exists>m\<ge>n. moves (acts m) (fst (after env acts c m))"
proof (rule ccontr)
  assume "\<not> ?thesis"
  then have none: "\<not> moves (acts m) (fst (after env acts c m))" if "n \<le> m" for m using that by blast
  have same: "fst (after env acts c (n + j)) = fst (after env acts c n)" for j
  proof (induction j)
    case (Suc j)
    then show ?case using perform_place [OF none [of "n + j"], of env] by simp
  qed simp
  show False
  proof (cases "waiting (fst (after env acts c n))")
    case True
    then obtain t where t: "fst (after env acts c n) = At_wait t" by (auto simp: waiting_def split: place.splits)
    then have "0 \<le> t" using timed_after [OF api timed, of acts n] by (simp add: timed_def wait_time_def)
    then obtain m where "n \<le> m" "acts m = Wait_ends" using waits t by (auto simp: timed_waits_end_def)
    then show False using none [of m] same [of "m - n"] True by (simp add: moves_def)
  next
    case False
    obtain m where "n \<le> m" "acts m = Run_thread" using fair by (auto simp: fair_def)
    then show False using none [of m] same [of "m - n"] False by (simp add: moves_def)
  qed
qed

text \<open>A wait that does not end: whatever is posted and stopped meanwhile, the thread stays in it.\<close>

lemma wait_stays: "(\<And>n. acts n \<noteq> Wait_ends) \<Longrightarrow> fst (after env acts (At_wait t, s) n) = At_wait t"
  by (induction n) (simp_all add: perform_place moves_def)

subsection \<open>A stop ends the run\<close>

definition in_loop :: "'k place \<Rightarrow> bool" where
  "in_loop p \<longleftrightarrow> p \<notin> {At_entry, At_set_running, At_clear_stopped}"

fun stop_rank :: "'k place \<Rightarrow> nat \<times> nat" where
  "stop_rank At_timeout = (10, 0)"
| "stop_rank (At_swap t) = (9, 0)"
| "stop_rank (At_tasks ks t) = (8, length ks)"
| "stop_rank (At_wait t) = (7, 0)"
| "stop_rank (At_events es) = (6, length es)"
| "stop_rank At_timers = (5, 0)"
| "stop_rank (At_timer now is) = (4, length is)"
| "stop_rank (At_result r) = (3, 0)"
| "stop_rank At_check = (2, 0)"
| "stop_rank (At_leave r) = (1, 0)"
| "stop_rank _ = (0, 0)"

lemma stop_rank_decreases:
  assumes "in_loop (fst c)" and "el_stopped (fst (snd c))" and "fst c \<noteq> Undefined" and "\<And>r. fst c \<noteq> Returned r"
  shows "(stop_rank (fst (run_step env c)), stop_rank (fst c)) \<in> less_than <*lex*> less_than"
  using assms
  by (cases "(env, c)" rule: run_step.cases)
    (auto simp: in_loop_def simp del: dispatch_events.simps fire_timers.simps split: prod.split sum.split option.split)

lemma in_loop_step: "in_loop (fst c) \<Longrightarrow> in_loop (fst (run_step env c))"
  by (cases "(env, c)" rule: run_step.cases)
    (auto simp: in_loop_def simp del: dispatch_events.simps fire_timers.simps split: prod.split sum.split option.split)

lemma stopped_step:
  assumes "callbacks_use_api env" and "in_loop (fst c)" and "el_stopped (fst (snd c))"
  shows "el_stopped (fst (snd (run_step env c)))"
  using assms(2,3) run_task_grows [OF assms(1)] dispatch_one_grows [OF assms(1)] fire_one_grows [OF assms(1)]
  by (cases "(env, c)" rule: run_step.cases)
    (auto simp: in_loop_def grows_def simp del: dispatch_events.simps fire_timers.simps split: prod.split sum.split option.split)

lemma stopped_perform:
  assumes "callbacks_use_api env" and "in_loop (fst c)" and "el_stopped (fst (snd c))"
  shows "in_loop (fst (perform env a c)) \<and> el_stopped (fst (snd (perform env a c)))"
  using stopped_step [OF assms] in_loop_step [OF assms(2)] assms(2,3)
  by (cases "(env, a, c)" rule: perform.cases) (auto simp: el_post_def el_stop_def)

lemma stop_ends:
  assumes "callbacks_use_api env" and "fair acts" and "timed_waits_end env acts c" and "timed c"
    and "in_loop (fst c)" and "el_stopped (fst (snd c))"
  shows "\<exists>n. fst (after env acts c n) = Undefined \<or> (\<exists>r. fst (after env acts c n) = Returned r)"
proof -
  have inv: "in_loop (fst (after env acts c n)) \<and> el_stopped (fst (snd (after env acts c n)))" for n
    using assms(5,6) stopped_perform [OF assms(1)] by (induction n) simp_all
  show ?thesis
  proof (rule fair_reaches [OF _ moves_again [OF assms(1-4)], of "less_than <*lex*> less_than" _ "\<lambda>n. stop_rank (fst (after env acts c n))"])
    show "wf (less_than <*lex*> less_than)" by auto
  next
    fix n
    assume "\<not> (fst (after env acts c n) = Undefined \<or> (\<exists>r. fst (after env acts c n) = Returned r))"
      "moves (acts n) (fst (after env acts c n))"
    then show "(stop_rank (fst (after env acts c (Suc n))), stop_rank (fst (after env acts c n))) \<in> less_than <*lex*> less_than"
      using stop_rank_decreases [of "after env acts c n" env] inv by (auto simp: perform_moves)
  qed (simp add: perform_place)
qed

subsection \<open>A posted task is run\<close>

fun task_rank :: "'k place \<Rightarrow> nat \<times> nat" where
  "task_rank (At_tasks [] t) = (10, 0)"
| "task_rank (At_wait t) = (9, 0)"
| "task_rank (At_events es) = (8, length es)"
| "task_rank At_timers = (7, 0)"
| "task_rank (At_timer now is) = (6, length is)"
| "task_rank (At_result r) = (5, 0)"
| "task_rank At_check = (4, 0)"
| "task_rank At_timeout = (3, 0)"
| "task_rank (At_swap t) = (2, 0)"
| "task_rank (At_tasks (k # ks) t) = (1, 0)"
| "task_rank _ = (0, 0)"

text \<open>The run is over, or about to be.\<close>

definition ended :: "'k place \<Rightarrow> bool" where
  "ended p \<longleftrightarrow> p = Undefined \<or> (\<exists>r. p = At_leave r \<or> p = Returned r)"

lemma task_rank_decreases:
  assumes "in_loop (fst c)" and "\<not> ended (fst c)" and "\<not> el_stopped (fst (snd c))" and "task_run Run_thread c = []"
    and "batch c @ queue c \<noteq> []" and "\<not> ended (fst (run_step env c))"
  shows "(task_rank (fst (run_step env c)), task_rank (fst c)) \<in> less_than <*lex*> less_than"
  using assms
  by (cases "(env, c)" rule: run_step.cases)
    (auto simp: in_loop_def ended_def task_run_def batch_def neq_Nil_conv
      simp del: dispatch_events.simps fire_timers.simps split: prod.splits sum.splits option.splits if_splits)

lemma executed_append: "executed env (as @ bs) c = executed env as c @ executed env bs (fold (perform env) as c)"
  by (induction as arbitrary: c) simp_all

lemma in_loop_perform: "in_loop (fst c) \<Longrightarrow> in_loop (fst (perform env a c))"
  using in_loop_step [of c env] perform_place [of a c env] perform_moves [of a c env] by (cases "moves a (fst c)") auto

lemma posted_tasks_run:
  assumes api: "callbacks_use_api env" and fair: "fair acts" and waits: "timed_waits_end env acts c" and timed: "timed c"
    and loop: "in_loop (fst c)"
  shows "\<exists>n. prefix (batch c @ queue c) (executed env (map acts [0..<n]) c)
    \<or> el_stopped (fst (snd (after env acts c n))) \<or> ended (fst (after env acts c n))"
proof -
  let ?P = "batch c @ queue c" and ?d = "\<lambda>n. after env acts c n" and ?e = "\<lambda>n. executed env (map acts [0..<n]) c"
  let ?G = "\<lambda>n. prefix ?P (?e n) \<or> el_stopped (fst (snd (?d n))) \<or> ended (fst (?d n)) \<or> ended (fst (?d (Suc n)))"
  let ?M = "\<lambda>n. (length ?P - length (?e n), task_rank (fst (?d n)))"
  have acc: "?P @ posted env (map acts [0..<n]) c = ?e n @ batch (?d n) @ queue (?d n)" for n
    using tasks_accounted [OF api, of c "map acts [0..<n]"] by (simp add: after_fold)
  have pre: "prefix ?P (?e n)" if "length ?P \<le> length (?e n)" for n
    using acc [of n] that by (metis append_eq_append_conv_if append_take_drop_id prefix_def)
  have e: "?e (Suc n) = ?e n @ task_run (acts n) (?d n)" for n
    by (simp add: executed_append after_fold)
  have inv: "in_loop (fst (?d n))" for n
  proof (induction n)
    case (Suc n)
    then show ?case by (simp add: in_loop_perform)
  qed (simp add: loop)
  have "\<exists>n. ?G n"
  proof (rule fair_reaches [OF _ moves_again [OF api fair waits timed], of "less_than <*lex*> (less_than <*lex*> less_than)" ?G ?M])
    show "wf (less_than <*lex*> (less_than <*lex*> less_than))" by auto
  next
    fix n
    assume g: "\<not> ?G n" and a: "moves (acts n) (fst (?d n))"
    then have less: "length (?e n) < length ?P" using pre [of n] by fastforce
    have run: "task_run Run_thread (?d n) = task_run (acts n) (?d n)"
      using a by (auto simp: moves_def task_run_def waiting_def split: place.splits if_splits)
    show "(?M (Suc n), ?M n) \<in> less_than <*lex*> (less_than <*lex*> less_than)"
    proof (cases "task_run (acts n) (?d n) = []")
      case True
      have "batch (?d n) @ queue (?d n) \<noteq> []"
      proof
        assume "batch (?d n) @ queue (?d n) = []"
        then have "length (?P @ posted env (map acts [0..<n]) c) = length (?e n)" using acc [of n] by simp
        then show False using less by simp
      qed
      then have "(task_rank (fst (?d (Suc n))), task_rank (fst (?d n))) \<in> less_than <*lex*> less_than"
        using task_rank_decreases [of "?d n" env] inv [of n] g run True by (simp add: perform_moves [OF a])
      then show ?thesis using e [of n] True by simp
    next
      case False
      then have "length (?e n) < length (?e (Suc n))" using e [of n] by (simp del: upt_Suc)
      from diff_less_mono2 [OF this less] show ?thesis by (simp del: upt_Suc)
    qed
  next
    fix n
    assume m: "\<not> moves (acts n) (fst (?d n))"
    then have "task_run (acts n) (?d n) = []" by (auto simp: moves_def task_run_def waiting_def split: act.split place.split)
    then show "?M (Suc n) = ?M n" using e [of n] perform_place [OF m, of env] by (simp del: upt_Suc)
  qed
  then show ?thesis by blast
qed

subsection \<open>Callbacks that keep to the rules\<close>

text \<open>Timer callbacks neither add nor remove timers, and no callback registers a null handler.\<close>

definition careful :: "('c, 'k, 'w) loop_env \<Rightarrow> bool" where
  "careful env \<longleftrightarrow>
     (\<forall>c i s. map te_id (el_timers (fst (le_timer env c i s))) = map te_id (el_timers (fst s))
        \<and> (no_null_handler (fst s) \<longrightarrow> no_null_handler (fst (le_timer env c i s))))
     \<and> (\<forall>k s. no_null_handler (fst s) \<longrightarrow> no_null_handler (fst (le_task env k s)))
     \<and> (\<forall>p h e s. no_null_handler (fst s) \<longrightarrow> no_null_handler (fst (le_event env p h e s)))"

lemma no_null_upd [simp]:
  "no_null_handler (l\<lparr>el_stats := st\<rparr>) = no_null_handler l" "no_null_handler (l\<lparr>el_timers := ts\<rparr>) = no_null_handler l"
  "no_null_handler (l\<lparr>el_task_queue := q\<rparr>) = no_null_handler l" "no_null_handler (l\<lparr>el_running := b\<rparr>) = no_null_handler l"
  "no_null_handler (l\<lparr>el_stopped := b\<rparr>) = no_null_handler l"
  by (simp_all add: no_null_handler_def)

lemma run_task_careful:
  assumes "careful env" and "no_null_handler (fst s)"
  shows "no_null_handler (fst (run_task env k s))"
proof -
  obtain l w where c: "le_task env k s = (l, w)" by fastforce
  then have "no_null_handler l" using assms unfolding careful_def by (metis fst_conv)
  then show ?thesis using c by (simp add: run_task_def)
qed

lemma dispatch_one_careful:
  assumes "careful env" and "no_null_handler (fst s)"
  shows "case dispatch_events env [e] s of None \<Rightarrow> False | Some s' \<Rightarrow> no_null_handler (fst s')"
proof (cases "el_handlers (fst s) (ed_handle e)")
  case None
  then show ?thesis using assms(2) by (cases s) simp
next
  case (Some h)
  obtain l w where c: "le_event env h (ed_handle e) (ed_events e) s = (l, w)" by fastforce
  then have "no_null_handler l" using assms unfolding careful_def by (metis fst_conv)
  moreover have "h \<noteq> 0"
  proof
    assume "h = 0"
    then show False using assms(2) Some by (simp add: no_null_handler_def)
  qed
  ultimately show ?thesis using c Some by (cases s) simp
qed

lemma fire_one_careful:
  assumes "careful env" and "no_null_handler (fst s)"
  shows "case fire_timers env now [i] s of None \<Rightarrow> False | Some s' \<Rightarrow> no_null_handler (fst s')"
proof (cases "timer_due now (el_timers (fst s) ! i)")
  case False
  then show ?thesis using assms(2) by (cases s) simp
next
  case True
  let ?t = "el_timers (fst s) ! i"
  obtain l w where c: "le_timer env (te_callback ?t) (te_id ?t) s = (l, w)" by fastforce
  then have "no_null_handler l" "map te_id (el_timers l) = map te_id (el_timers (fst s))"
    using assms unfolding careful_def by (metis fst_conv)+
  then show ?thesis using c True by (cases s) (simp add: Let_def)
qed

lemma careful_step:
  assumes "careful env" and "no_null_handler (fst (snd c))" and "fst c \<noteq> Undefined"
  shows "fst (run_step env c) \<noteq> Undefined \<and> no_null_handler (fst (snd (run_step env c)))"
proof (cases "(env, c)" rule: run_step.cases)
  case (11 e' e es s)
  then show ?thesis using assms(2) dispatch_one_careful [OF assms(1), of s e]
    by (auto simp del: dispatch_events.simps split: option.splits)
next
  case (14 e' now i "is" s)
  then show ?thesis using assms(2) fire_one_careful [OF assms(1), of s now i]
    by (auto simp del: fire_timers.simps split: option.splits)
qed (use assms(2,3) run_task_careful [OF assms(1), of "snd c"] in
    \<open>auto simp del: dispatch_events.simps fire_timers.simps split: prod.split sum.split\<close>)

lemma careful_perform:
  assumes "careful env" and "no_null_handler (fst (snd c))" and "fst c \<noteq> Undefined"
  shows "fst (perform env a c) \<noteq> Undefined \<and> no_null_handler (fst (snd (perform env a c)))"
  using careful_step [OF assms] assms(2,3)
  by (cases "(env, a, c)" rule: perform.cases) (auto simp: el_post_def el_stop_def no_null_handler_def)

lemma careful_after:
  assumes "careful env" and "no_null_handler (fst (snd c))" and "fst c \<noteq> Undefined"
  shows "fst (after env acts c n) \<noteq> Undefined"
proof -
  have "fst (after env acts c n) \<noteq> Undefined \<and> no_null_handler (fst (snd (after env acts c n)))"
    using assms(2,3) careful_perform [OF assms(1)] by (induction n) simp_all
  then show ?thesis by simp
qed

text \<open>A run that has returned is not running.\<close>

lemma returned_not_running:
  assumes "\<And>r. fst c \<noteq> Returned r" and "fst c \<noteq> At_entry" and "in_loop (fst c)" and "fst (after env acts c n) = Returned r"
  shows "\<not> el_running (fst (snd (after env acts c n)))"
proof -
  let ?J = "\<lambda>c. in_loop (fst c) \<and> ((\<exists>r. fst c = Returned r) \<longrightarrow> \<not> el_running (fst (snd c)))"
  have step: "?J (run_step env c)" if "?J c" for c
    using that by (cases "(env, c)" rule: run_step.cases)
      (auto simp: in_loop_def simp del: dispatch_events.simps fire_timers.simps split: prod.split sum.split option.split)
  have "?J (perform env a c)" if "?J c" for a c
    using that step [of c] by (cases "(env, a, c)" rule: perform.cases) (auto simp: el_post_def el_stop_def)
  then have "?J (after env acts c n)" using assms(1,3) by (induction n) simp_all
  then show ?thesis using assms(4) by blast
qed

end
