(* ===== verification/Loop_Runners.thy ===== *)
theory Loop_Runners
  imports Loop_Thread_Facts
begin

text \<open>
  Several threads that call \<open>run\<close> of one loop (\<open>event_loop.cpp\<close>), while others post to it and stop it. The
  test of \<open>running\<close> and its setting are two steps. One thread at most is in \<open>run\<close> as long as no other one
  tests between the two; a test in between lets a second one in. What two threads do inside is not followed:
  the timers and the counters of the loop have no lock.
\<close>

type_synonym ('t, 'c, 'k, 'w) runners = "('t \<Rightarrow> 'k place) \<times> ('c, 'k, 'w) loop_state"

definition run_on :: "('c, 'k, 'w) loop_env \<Rightarrow> 't \<Rightarrow> ('t, 'c, 'k, 'w) runners \<Rightarrow> ('t, 'c, 'k, 'w) runners" where
  "run_on env t c = (case run_step env (fst c t, snd c) of (p, s) \<Rightarrow> ((fst c)(t := p), s))"

definition in_run :: "'k place \<Rightarrow> bool" where
  "in_run p \<longleftrightarrow> p \<noteq> At_entry \<and> (\<forall>r. p \<noteq> Returned r)"

text \<open>Runs in which no thread tests the flag between another one's test and its setting.\<close>

inductive runners_step :: "('c, 'k, 'w) loop_env \<Rightarrow> ('t, 'c, 'k, 'w) runners \<Rightarrow> ('t, 'c, 'k, 'w) runners \<Rightarrow> bool" for env where
  rs_call: "ps t = Returned r \<Longrightarrow> runners_step env (ps, s) (ps(t := At_entry), s)"
| rs_move: "(ps t = At_entry \<Longrightarrow> \<forall>u. ps u \<noteq> At_set_running) \<Longrightarrow> runners_step env (ps, s) (run_on env t (ps, s))"
| rs_post: "runners_step env (ps, s) (ps, el_post k (fst s), snd s)"
| rs_stop: "runners_step env (ps, s) (ps, el_stop (fst s), snd s)"
| rs_world: "runners_step env (ps, s) (ps, fst s, w)"

definition one_runner :: "('t, 'c, 'k, 'w) runners \<Rightarrow> bool" where
  "one_runner c \<longleftrightarrow> (\<forall>t u. in_run (fst c t) \<and> in_run (fst c u) \<longrightarrow> t = u)
     \<and> (el_running (fst (snd c)) \<longleftrightarrow> (\<exists>t. in_run (fst c t) \<and> fst c t \<noteq> At_set_running))"

text \<open>A step of the thread that is inside, and the test.\<close>

lemma run_step_inside:
  assumes "callbacks_use_api env" and "in_run p" and "p \<noteq> At_set_running" and "run_step env (p, s) = (p', s')"
  shows "p' \<noteq> At_set_running \<and> p' \<noteq> At_entry \<and>
    (if in_run p' then el_running (fst s') = el_running (fst s) else \<not> el_running (fst s'))"
proof -
  note same = grows_def [THEN iffD1, THEN conjunct2, THEN conjunct2, THEN conjunct1]
  note task = run_task_grows [OF assms(1), THEN same]
    and event = dispatch_one_grows [OF assms(1), THEN same]
    and timer = fire_one_grows [OF assms(1), THEN same]
  show ?thesis
    using assms(2-4) by (cases "(env, p, s)" rule: run_step.cases)
      (auto simp: in_run_def task event timer simp del: dispatch_events.simps fire_timers.simps
        split: prod.splits sum.splits option.splits if_splits)
qed

lemma one_runner_move:
  assumes "callbacks_use_api env" and ok: "one_runner (ps, s)" and gap: "ps t = At_entry \<Longrightarrow> \<forall>u. ps u \<noteq> At_set_running"
  shows "one_runner (run_on env t (ps, s))"
proof -
  obtain p' s' where st: "run_step env (ps t, s) = (p', s')" by (cases "run_step env (ps t, s)")
  then have run: "run_on env t (ps, s) = (ps(t := p'), s')" by (simp add: run_on_def)
  consider "ps t = At_entry" | "\<exists>r. ps t = Returned r" | "ps t = At_set_running" | "in_run (ps t)" "ps t \<noteq> At_set_running"
    by (auto simp: in_run_def)
  then show ?thesis
  proof cases
    case 1
    then have st': "s' = s" "p' = (if el_running (fst s) then Returned invalid_state else At_set_running)" using st by auto
    have t: "\<not> in_run (ps t)" using 1 by (simp add: in_run_def)
    show ?thesis
    proof (cases "el_running (fst s)")
      case True
      define qs where "qs = ps(t := p')"
      have "in_run (qs u) = in_run (ps u)" "(qs u = At_set_running) = (ps u = At_set_running)" for u
        using t 1 True st' by (simp_all add: qs_def in_run_def)
      then show ?thesis using ok st'(1) unfolding run qs_def [symmetric] one_runner_def by simp
    next
      case False
      then have "\<not> in_run (ps u)" for u using ok gap [OF 1] by (auto simp: one_runner_def)
      then show ?thesis using False st' unfolding run one_runner_def by (auto split: if_splits)
    qed
  next
    case 2
    then have "ps(t := p') = ps" "s' = s" using st by auto
    then show ?thesis using ok by (simp add: run)
  next
    case 3
    then have st': "p' = At_clear_stopped" "el_running (fst s')" using st by auto
    have i: "in_run At_set_running" "in_run At_clear_stopped" by (simp_all add: in_run_def)
    then have "\<not> in_run (ps u)" if "u \<noteq> t" for u using ok 3 that unfolding one_runner_def by (metis fst_conv)
    then show ?thesis using i st' unfolding run one_runner_def by (auto split: if_splits)
  next
    case 4
    note r = run_step_inside [OF assms(1) 4 st]
    have alone: "\<not> in_run (ps u)" if "u \<noteq> t" for u using ok 4 that by (auto simp: one_runner_def)
    have "el_running (fst s)" using ok 4 by (auto simp: one_runner_def)
    then show ?thesis using r alone unfolding run one_runner_def by (auto split: if_splits)
  qed
qed

lemma one_runner_step:
  assumes "callbacks_use_api env" and "one_runner c" and "runners_step env c c'"
  shows "one_runner c'"
  using assms(3)
proof cases
  case (rs_call ps t r s)
  then show ?thesis using assms(2) by (auto simp: one_runner_def in_run_def)
next
  case (rs_move ps t s)
  then show ?thesis using one_runner_move [OF assms(1), of ps s t] assms(2) by simp
qed (use assms(2) in \<open>simp_all add: one_runner_def el_post_def el_stop_def\<close>)

lemma one_runner_reachable:
  assumes "callbacks_use_api env" and "\<not> el_running (fst s)"
    and "(runners_step env)\<^sup>*\<^sup>* ((\<lambda>t. At_entry), s) c"
  shows "one_runner c"
  using assms(3)
proof (induction rule: rtranclp_induct)
  case base
  show ?case using assms(2) by (simp add: one_runner_def in_run_def)
next
  case (step c c')
  then show ?case using one_runner_step [OF assms(1)] by blast
qed

lemma both_enter:
  assumes "\<not> el_running (fst s)" and "t \<noteq> u" and "ps t = At_entry" and "ps u = At_entry"
  shows "fold (run_on env) [t, u, t, u, t, u] (ps, s)
    = (ps(t := At_check, u := At_check), (fst s)\<lparr>el_running := True, el_stopped := False\<rparr>, snd s)"
  using assms by (auto simp: run_on_def fun_eq_iff)

end
