(* ===== verification/Timeout_Threads.thy ===== *)
theory Timeout_Threads
  imports Timeout_Facts
begin

text \<open>
  The timeout manager used by several threads: every operation of \<open>timeout_manager.cpp\<close>, and the closure a
  timeout leaves in the loop, runs under the mutex of the manager. A thread is a list of instructions, of which it
  executes one at a time: to lock, the statements of an operation (to look an entry up, to test what was found, to
  cancel a timer, to schedule one, to store an entry, to change a counter, to count), and to unlock; the
  other threads and the world go on between any two of them. The closure runs the caller's callback with the mutex
  held. The callback may call the manager: \<open>calls\<close> says what, \<open>act\<close> what else it does. To lock a mutex the
  thread holds itself is to wait for ever. The manager is one that lives (a thread must not use it while it is moved),
  and its loop has been set; \<open>set_event_loop\<close> and \<open>get_stats\<close> do not take the mutex. The loop is changed
  by the manager and by the callbacks only. \<open>replay\<close> is the sequential specification: the operations of
  \<open>Timeout_Manager\<close>, one after the other.
\<close>

datatype 'u tm_section =
    Sec_start native_handle timeout_type int "'u timeout_callback option"
  | Sec_cancel native_handle timeout_type
  | Sec_cancel_all native_handle
  | Sec_is_active native_handle timeout_type
  | Sec_active_count
  | Sec_fire native_handle timeout_type "'u timeout_callback option"

text \<open>A call of the manager: one section, or two of them for \<open>reset_idle\<close>, which gives the mutex back in
  between. On a manager that lives, \<open>cancel_timeout\<close> reports no error that would end \<open>reset_idle\<close>.\<close>

datatype 'u tm_call = Call "'u tm_section" | Call_reset_idle native_handle int

text \<open>The instructions. An iterator into the entries, which are never erased, is the key of its entry; \<open>None\<close> is
  \<open>end()\<close>. \<open>Section\<close> is the first statement of an operation.\<close>

type_synonym entry_it = "64 word option"

datatype 'u tm_instr =
    Lock
  | Section "'u tm_section"
  | Start_test entry_it native_handle timeout_type int "'u timeout_callback option"
  | Schedule native_handle timeout_type int "'u timeout_callback option"
  | Store timer_id native_handle timeout_type "'u timeout_callback option"
  | Cancel_test entry_it native_handle timeout_type
  | Sweep native_handle "64 word list"
  | Active_test entry_it native_handle timeout_type
  | Fire_test entry_it native_handle timeout_type "'u timeout_callback option"
  | Cancel_timer "64 word"
  | Deactivate "64 word"
  | Count_cancelled
  | Count_fired
  | Fire_call native_handle timeout_type "'u timeout_callback option"
  | Callback 'u native_handle timeout_type
  | Recount
  | Unlock

definition guarded :: "'u tm_section \<Rightarrow> 'u tm_instr list" where
  "guarded sec = [Lock, Section sec, Unlock]"

fun call_code :: "'u tm_call \<Rightarrow> 'u tm_instr list" where
  "call_code (Call sec) = guarded sec"
| "call_code (Call_reset_idle h d) = guarded (Sec_cancel h T_idle) @ guarded (Sec_start h T_idle d (Some No_op))"

type_synonym 'u callback_calls = "'u \<Rightarrow> native_handle \<Rightarrow> timeout_type \<Rightarrow> 'u tm_call list"

fun callback_code :: "'u callback_calls \<Rightarrow> native_handle \<Rightarrow> timeout_type \<Rightarrow> 'u timeout_callback option \<Rightarrow> 'u tm_instr list" where
  "callback_code calls h ty None = []"
| "callback_code calls h ty (Some No_op) = []"
| "callback_code calls h ty (Some (User_callback u)) = Callback u h ty # concat (map call_code (calls u h ty))"

text \<open>The sequential specification of a section: the operation of \<open>Timeout_Manager\<close> as a whole, and its answer.\<close>

datatype tm_answer = Result vresult | Active bool | Count nat | Fired bool

type_synonym ('u, 'c, 'k, 'w) tl_shared = "'u timeout_manager \<times> (('u, 'c) loop_closure, 'k, 'w) loop_state"

fun section_run ::
  "(('u, 'c) loop_closure, 'k, 'w) loop_env \<Rightarrow> 'u tm_section \<Rightarrow> ('u, 'c, 'k, 'w) tl_shared \<Rightarrow>
   tm_answer \<times> ('u, 'c, 'k, 'w) tl_shared" where
  "section_run env (Sec_start h ty d cb) (m, s) = (Result make_result_void, tm_start env h ty d cb m s)"
| "section_run env (Sec_cancel h ty) (m, s) = (case tm_cancel h ty m (fst s) of (r, m', l') \<Rightarrow> (Result r, m', (l', snd s)))"
| "section_run env (Sec_cancel_all h) (m, s) =
     (case tm_cancel_all h m (fst s) of (m', l') \<Rightarrow> (Result make_result_void, m', (l', snd s)))"
| "section_run env (Sec_is_active h ty) (m, s) = (Active (tm_is_active h ty m), m, s)"
| "section_run env Sec_active_count (m, s) = (Count (count_active_in_map (tm_entries m)), m, s)"
| "section_run env (Sec_fire h ty cb) (m, s) = (case tm_fire h ty m of (b, m') \<Rightarrow> (Fired b, m', s))"

subsection \<open>The statements\<close>

definition find_entry :: "native_handle \<Rightarrow> timeout_type \<Rightarrow> 'u timeout_manager \<Rightarrow> entry_it" where
  "find_entry h ty m =
     (case map_of (tm_entries m) (make_key h ty) of None \<Rightarrow> None | Some e \<Rightarrow> Some (make_key h ty))"

definition active_at :: "64 word \<Rightarrow> 'u timeout_manager \<Rightarrow> bool" where
  "active_at k m = (case map_of (tm_entries m) k of None \<Rightarrow> False | Some e \<Rightarrow> to_active e)"

definition cancel_timer_at ::
  "64 word \<Rightarrow> 'u timeout_manager \<Rightarrow> ('c, 'k, 'w) event_loop \<Rightarrow> ('c, 'k, 'w) event_loop" where
  "cancel_timer_at k m l =
     (case map_of (tm_entries m) k of None \<Rightarrow> l | Some e \<Rightarrow> cancel_entry_timer (tm_loop m) e l)"

definition handle_at :: "native_handle \<Rightarrow> 64 word \<Rightarrow> 'u timeout_manager \<Rightarrow> bool" where
  "handle_at h k m = (case map_of (tm_entries m) k of None \<Rightarrow> False | Some e \<Rightarrow> to_handle e = h)"

text \<open>
  What one statement does to the manager and the loop, the instructions it goes on with, and, of the statement that
  settles it, the answer of the operation: for \<open>start_timeout\<close> the one that reads the clock, for the others the test of
  the entry (the first statement, where there is none).
\<close>

type_synonym 'u tm_done = "('u tm_section \<times> tm_answer) option"

fun run_instr ::
  "(('u, 'c) loop_closure, 'k, 'w) loop_env \<Rightarrow> 'u tm_instr \<Rightarrow> ('u, 'c, 'k, 'w) tl_shared \<Rightarrow>
   'u tm_done \<times> 'u tm_instr list \<times> ('u, 'c, 'k, 'w) tl_shared" where
  "run_instr env (Section (Sec_start h ty d cb)) (m, s) = (None, [Start_test (find_entry h ty m) h ty d cb], m, s)"
| "run_instr env (Section (Sec_cancel h ty)) (m, s) = (None, [Cancel_test (find_entry h ty m) h ty], m, s)"
| "run_instr env (Section (Sec_cancel_all h)) (m, s) =
     (Some (Sec_cancel_all h, Result make_result_void), [Sweep h (map fst (tm_entries m))], m, s)"
| "run_instr env (Section (Sec_is_active h ty)) (m, s) = (None, [Active_test (find_entry h ty m) h ty], m, s)"
| "run_instr env (Section Sec_active_count) (m, s) =
     (Some (Sec_active_count, Count (count_active_in_map (tm_entries m))), [], m, s)"
| "run_instr env (Section (Sec_fire h ty cb)) (m, s) = (None, [Fire_test (find_entry h ty m) h ty cb], m, s)"
| "run_instr env (Start_test it h ty d cb) (m, s) =
     (None,
      (case it of
         None \<Rightarrow> []
       | Some k \<Rightarrow> if active_at k m then [Cancel_timer k, Count_cancelled] else []) @ [Schedule h ty d cb], m, s)"
| "run_instr env (Schedule h ty d cb) (m, s) =
     (case (if tm_loop m then schedule_timer env d (Timeout_closure h ty cb) False s else (invalid_timer_id, s)) of
        (tid, s') \<Rightarrow> (Some (Sec_start h ty d cb, Result make_result_void), [Store tid h ty cb, Recount], m, s'))"
| "run_instr env (Store tid h ty cb) (m, s) =
     (None, [],
      m\<lparr>tm_entries := AList.update (make_key h ty)
         \<lparr>to_timer = tid, to_handle = h, to_type = ty, to_callback = cb, to_active = True\<rparr> (tm_entries m)\<rparr>, s)"
| "run_instr env (Cancel_test it h ty) (m, s) =
     (case it of
        None \<Rightarrow> (Some (Sec_cancel h ty, Result invalid_argument), [], m, s)
      | Some k \<Rightarrow>
          if \<not> active_at k m then (Some (Sec_cancel h ty, Result invalid_argument), [], m, s)
          else (Some (Sec_cancel h ty, Result make_result_void), [Cancel_timer k, Deactivate k, Count_cancelled, Recount], m, s))"
| "run_instr env (Sweep h []) (m, s) = (None, [Recount], m, s)"
| "run_instr env (Sweep h (k # ks)) (m, s) =
     (None, (if handle_at h k m \<and> active_at k m then [Cancel_timer k, Deactivate k, Count_cancelled] else []) @ [Sweep h ks],
      m, s)"
| "run_instr env (Active_test it h ty) (m, s) =
     (Some (Sec_is_active h ty, Active (case it of None \<Rightarrow> False | Some k \<Rightarrow> active_at k m)), [], m, s)"
| "run_instr env (Fire_test it h ty cb) (m, s) =
     (case it of
        None \<Rightarrow> (Some (Sec_fire h ty cb, Fired False), [Recount], m, s)
      | Some k \<Rightarrow>
          if active_at k m
          then (Some (Sec_fire h ty cb, Fired True), [Deactivate k, Count_fired, Fire_call h ty cb, Recount], m, s)
          else (Some (Sec_fire h ty cb, Fired False), [Recount], m, s))"
| "run_instr env (Cancel_timer k) (m, s) = (None, [], m, (cancel_timer_at k m (fst s), snd s))"
| "run_instr env (Deactivate k) (m, s) = (None, [], m\<lparr>tm_entries := AList.map_entry k deactivate (tm_entries m)\<rparr>, s)"
| "run_instr env Count_cancelled (m, s) = (None, [], count_cancelled m, s)"
| "run_instr env Count_fired (m, s) =
     (None, [], m\<lparr>tm_stats := (tm_stats m)\<lparr>tst_fired := tst_fired (tm_stats m) + 1\<rparr>\<rparr>, s)"
| "run_instr env Recount (m, s) = (None, [], recount m, s)"
| "run_instr env i (m, s) = (None, [], m, s)"

subsection \<open>Threads\<close>

record ('t, 'u, 'c, 'k, 'w) tl_state =
  tl_mutex :: "'t option"
  tl_code :: "'t \<Rightarrow> 'u tm_instr list"
  tl_shared :: "('u, 'c, 'k, 'w) tl_shared"

text \<open>What a step shows of what a thread did: the operation whose answer it settled, or the callback it ran.\<close>

datatype ('t, 'u, 'w) tl_event = Did 't "'u tm_section" tm_answer | Ran 't 'u native_handle timeout_type | World 'w

type_synonym ('u, 'c, 'k, 'w) callback_acts =
  "'u \<Rightarrow> native_handle \<Rightarrow> timeout_type \<Rightarrow> (('u, 'c) loop_closure, 'k, 'w) loop_state \<Rightarrow> (('u, 'c) loop_closure, 'k, 'w) loop_state"

fun advance ::
  "(('u, 'c) loop_closure, 'k, 'w) loop_env \<Rightarrow> 'u callback_calls \<Rightarrow> ('u, 'c, 'k, 'w) callback_acts \<Rightarrow>
   't \<Rightarrow> ('t, 'u, 'c, 'k, 'w) tl_state \<Rightarrow> (('t, 'u, 'w) tl_event list \<times> ('t, 'u, 'c, 'k, 'w) tl_state) option" where
  "advance env calls act t c =
     (case tl_code c t of
        [] \<Rightarrow> None
      | Lock # is \<Rightarrow>
          if tl_mutex c = None then Some ([], c\<lparr>tl_mutex := Some t, tl_code := (tl_code c)(t := is)\<rparr>) else None
      | Fire_call h ty cb # is \<Rightarrow> Some ([], c\<lparr>tl_code := (tl_code c)(t := callback_code calls h ty cb @ is)\<rparr>)
      | Callback u h ty # is \<Rightarrow>
          Some ([Ran t u h ty], c\<lparr>tl_code := (tl_code c)(t := is),
                                   tl_shared := (fst (tl_shared c), act u h ty (snd (tl_shared c)))\<rparr>)
      | Unlock # is \<Rightarrow> Some ([], c\<lparr>tl_mutex := None, tl_code := (tl_code c)(t := is)\<rparr>)
      | i # is \<Rightarrow>
          (case run_instr env i (tl_shared c) of
             (a, pend, x) \<Rightarrow>
               Some (case a of None \<Rightarrow> [] | Some (sec, r) \<Rightarrow> [Did t sec r],
                     c\<lparr>tl_code := (tl_code c)(t := pend @ is), tl_shared := x\<rparr>)))"

declare advance.simps [simp del]

text \<open>A thread begins a call, a thread goes on, or the world changes.\<close>

inductive tl_step ::
  "(('u, 'c) loop_closure, 'k, 'w) loop_env \<Rightarrow> 'u callback_calls \<Rightarrow> ('u, 'c, 'k, 'w) callback_acts \<Rightarrow>
   ('t, 'u, 'c, 'k, 'w) tl_state \<Rightarrow> ('t, 'u, 'w) tl_event list \<Rightarrow> ('t, 'u, 'c, 'k, 'w) tl_state \<Rightarrow> bool"
  for env calls act where
  tl_call: "tl_code c t = [] \<Longrightarrow> tl_step env calls act c [] (c\<lparr>tl_code := (tl_code c)(t := call_code call)\<rparr>)"
| tl_move: "advance env calls act t c = Some (es, c') \<Longrightarrow> tl_step env calls act c es c'"
| tl_world: "tl_shared c = (m, l, w) \<Longrightarrow> tl_step env calls act c [World w'] (c\<lparr>tl_shared := (m, l, w')\<rparr>)"

inductive tl_run ::
  "(('u, 'c) loop_closure, 'k, 'w) loop_env \<Rightarrow> 'u callback_calls \<Rightarrow> ('u, 'c, 'k, 'w) callback_acts \<Rightarrow>
   ('t, 'u, 'c, 'k, 'w) tl_state \<Rightarrow> ('t, 'u, 'w) tl_event list \<Rightarrow> ('t, 'u, 'c, 'k, 'w) tl_state \<Rightarrow> bool"
  for env calls act c0 where
  tl_none: "tl_run env calls act c0 [] c0"
| tl_more: "tl_run env calls act c0 es c \<Longrightarrow> tl_step env calls act c fs c' \<Longrightarrow> tl_run env calls act c0 (es @ fs) c'"

definition tl_start :: "bool \<Rightarrow> (('u, 'c) loop_closure, 'k, 'w) loop_state \<Rightarrow> ('t, 'u, 'c, 'k, 'w) tl_state" where
  "tl_start has_loop s = \<lparr>tl_mutex = None, tl_code = (\<lambda>t. []), tl_shared = (tm_impl\<lparr>tm_loop := has_loop\<rparr>, s)\<rparr>"

text \<open>What was done, executed one after the other: every operation is one step and gives the answer it gave.\<close>

fun replay ::
  "(('u, 'c) loop_closure, 'k, 'w) loop_env \<Rightarrow> ('u, 'c, 'k, 'w) callback_acts \<Rightarrow> ('t, 'u, 'w) tl_event list \<Rightarrow>
   ('u, 'c, 'k, 'w) tl_shared \<Rightarrow> ('u, 'c, 'k, 'w) tl_shared option" where
  "replay env act [] x = Some x"
| "replay env act (Did t sec a # es) x = (case section_run env sec x of (b, y) \<Rightarrow> if a = b then replay env act es y else None)"
| "replay env act (Ran t u h ty # es) (m, s) = replay env act es (m, act u h ty s)"
| "replay env act (World w # es) (m, l, v) = replay env act es (m, l, w)"

lemma replay_append:
  "replay env act (es @ fs) x = (case replay env act es x of None \<Rightarrow> None | Some y \<Rightarrow> replay env act fs y)"
  by (induction env act es x rule: replay.induct) (auto split: prod.split)


subsection \<open>An operation executed without interruption\<close>

definition plain :: "'u tm_instr \<Rightarrow> bool" where
  "plain i \<longleftrightarrow> i \<noteq> Lock \<and> i \<noteq> Unlock \<and> (\<forall>h ty cb. i \<noteq> Fire_call h ty cb) \<and> (\<forall>u h ty. i \<noteq> Callback u h ty)"

text \<open>The statements of a section from one state to another, with the answers they settle. What the callback does
  it does to the loop, after the answer, and only the last count is left then.\<close>

inductive finishes ::
  "(('u, 'c) loop_closure, 'k, 'w) loop_env \<Rightarrow> 'u tm_instr list \<Rightarrow> ('u, 'c, 'k, 'w) tl_shared \<Rightarrow>
   ('u tm_section \<times> tm_answer) list \<Rightarrow> ('u, 'c, 'k, 'w) tl_shared \<Rightarrow> bool"
  for env where
  fin_done: "finishes env [] x [] x"
| fin_call: "finishes env [Fire_call h ty cb, Recount] (m, s) [] (recount m, s)"
| fin_step: "plain i \<Longrightarrow> run_instr env i x = (a, pend, y) \<Longrightarrow> finishes env (pend @ is) y as z \<Longrightarrow>
    finishes env (i # is) x ((case a of None \<Rightarrow> [] | Some r \<Rightarrow> [r]) @ as) z"

inductive_cases finishes_NilE: "finishes env [] x as z"
inductive_cases finishes_ConsE: "finishes env (i # is) x as z"

lemma fin_silent: "plain i \<Longrightarrow> run_instr env i x = (None, pend, y) \<Longrightarrow> finishes env (pend @ is) y as z \<Longrightarrow> finishes env (i # is) x as z"
  using fin_step [of i env x None pend y "is" as z] by simp

lemma fin_answer: "plain i \<Longrightarrow> run_instr env i x = (Some r, pend, y) \<Longrightarrow> finishes env (pend @ is) y [] z \<Longrightarrow> finishes env (i # is) x [r] z"
  using fin_step [of i env x "Some r" pend y "is" "[]" z] by simp

lemma plain_simps [simp]:
  "plain (Section sec)" "plain (Start_test it h ty d cb)" "plain (Schedule h ty d cb)" "plain (Store tid h ty cb)"
  "plain (Cancel_test it h ty)" "plain (Sweep h ks)" "plain (Active_test it h ty)" "plain (Fire_test it h ty cb)"
  "plain (Cancel_timer k)" "plain (Deactivate k)" "plain Count_cancelled" "plain Count_fired" "plain Recount"
  "\<not> plain Lock" "\<not> plain Unlock" "\<not> plain (Fire_call h ty cb)" "\<not> plain (Callback u h ty)"
  by (simp_all add: plain_def)

lemma fin_simple:
  "finishes env is (m, (cancel_timer_at k m (fst s), snd s)) as z \<Longrightarrow> finishes env (Cancel_timer k # is) (m, s) as z"
  "finishes env is (m\<lparr>tm_entries := AList.map_entry k deactivate (tm_entries m)\<rparr>, s) as z \<Longrightarrow>
   finishes env (Deactivate k # is) (m, s) as z"
  "finishes env is (count_cancelled m, s) as z \<Longrightarrow> finishes env (Count_cancelled # is) (m, s) as z"
  "finishes env is (m\<lparr>tm_stats := (tm_stats m)\<lparr>tst_fired := tst_fired (tm_stats m) + 1\<rparr>\<rparr>, s) as z \<Longrightarrow>
   finishes env (Count_fired # is) (m, s) as z"
  by - (rule fin_silent, simp, simp, simp)+

lemma fin_recount: "finishes env [Recount] (m, s) [] (recount m, s)"
  by (rule fin_silent) (auto intro: fin_done)

definition settled :: "'u timeout_manager \<Rightarrow> bool" where
  "settled m \<longleftrightarrow> tst_active (tm_stats m) = count_active_in_map (tm_entries m) \<and> distinct (map fst (tm_entries m))"

lemma settled_impl: "settled (tm_impl\<lparr>tm_loop := has_loop\<rparr>)"
  by (simp add: settled_def tm_impl_def count_active_in_map_def)

lemma map_entry_append:
  "k \<notin> fst ` set es \<Longrightarrow> AList.map_entry k f (es @ (k, e) # es') = es @ (k, f e) # es'"
  by (induction es) auto

lemma map_of_append_key: "k \<notin> fst ` set es \<Longrightarrow> map_of (es @ (k, e) # es') k = Some e"
  by (induction es) auto

lemma cancel_all_loop_keys: "cancel_all_loop h b es l = (es', n, l') \<Longrightarrow> map fst es' = map fst es"
  by (induction h b es l arbitrary: es' n l' rule: cancel_all_loop.induct) (auto split: if_splits prod.splits)

lemma section_run_settled: "section_run env sec (m, s) = (a, m', s') \<Longrightarrow> settled m \<Longrightarrow> settled m'"
proof (cases sec)
  case (Sec_start h ty d cb)
  assume "section_run env sec (m, s) = (a, m', s')" "settled m"
  then show ?thesis
    using Sec_start by (auto simp: tm_start_def settled_def replace_active_def distinct_update split: prod.splits option.splits if_splits)
qed (auto simp: settled_def tm_cancel_def tm_cancel_all_def tm_fire_def keys_map_entry dest: cancel_all_loop_keys
       split: prod.splits option.splits if_splits)

text \<open>The loop over the entries.\<close>

lemma sweep_finishes:
  assumes "cancel_all_loop h (tm_loop m) es l = (es', n, l')" and "tm_entries m = done @ es" and "distinct (map fst (done @ es))"
  shows "finishes env [Sweep h (map fst es)] (m, (l, w)) []
    (recount (m\<lparr>tm_entries := done @ es', tm_stats := (tm_stats m)\<lparr>tst_cancelled := tst_cancelled (tm_stats m) + n\<rparr>\<rparr>), (l', w))"
  using assms
proof (induction es arbitrary: m l es' n l' "done")
  case Nil
  then have m: "done = tm_entries m" by simp
  have "finishes env [Recount] (m, (l, w)) [] (recount m, (l, w))" by (rule fin_recount)
  then have "finishes env [Sweep h []] (m, (l, w)) [] (recount m, (l, w))" by (intro fin_silent) auto
  then show ?case using Nil m by simp
next
  case (Cons ke es)
  obtain k e where ke: "ke = (k, e)" by fastforce
  have k: "k \<notin> fst ` set done" using Cons.prems(3) ke by auto
  have e: "map_of (tm_entries m) k = Some e" using map_of_append_key [OF k] Cons.prems(2) ke by simp
  show ?case
  proof (cases "to_handle e = h \<and> to_active e")
    case True
    let ?l = "cancel_entry_timer (tm_loop m) e l"
    let ?m = "count_cancelled (m\<lparr>tm_entries := (done @ [(k, deactivate e)]) @ es\<rparr>)"
    obtain es2 n2 l2 where r: "cancel_all_loop h (tm_loop m) es ?l = (es2, n2, l2)" by (metis prod_cases3)
    have res: "es' = (k, deactivate e) # es2" "n = Suc n2" "l' = l2" using Cons.prems(1) r True by (simp_all add: ke)
    have "finishes env [Sweep h (map fst es)] (?m, (?l, w)) []
        (recount (?m\<lparr>tm_entries := (done @ [(k, deactivate e)]) @ es2, tm_stats := (tm_stats ?m)\<lparr>tst_cancelled := tst_cancelled (tm_stats ?m) + n2\<rparr>\<rparr>), (l2, w))"
      by (rule Cons.IH) (use r Cons.prems(3) ke in \<open>auto simp: count_cancelled_def\<close>)
    also have "recount (?m\<lparr>tm_entries := (done @ [(k, deactivate e)]) @ es2, tm_stats := (tm_stats ?m)\<lparr>tst_cancelled := tst_cancelled (tm_stats ?m) + n2\<rparr>\<rparr>)
        = recount (m\<lparr>tm_entries := done @ es', tm_stats := (tm_stats m)\<lparr>tst_cancelled := tst_cancelled (tm_stats m) + n\<rparr>\<rparr>)"
      by (simp add: res count_cancelled_def recount_def)
    finally have "finishes env [Sweep h (map fst es)] (?m, (?l, w)) []
        (recount (m\<lparr>tm_entries := done @ es', tm_stats := (tm_stats m)\<lparr>tst_cancelled := tst_cancelled (tm_stats m) + n\<rparr>\<rparr>), (l', w))"
      using res by simp
    then have "finishes env [Cancel_timer k, Deactivate k, Count_cancelled, Sweep h (map fst es)] (m, (l, w)) []
        (recount (m\<lparr>tm_entries := done @ es', tm_stats := (tm_stats m)\<lparr>tst_cancelled := tst_cancelled (tm_stats m) + n\<rparr>\<rparr>), (l', w))"
      using e Cons.prems(2) ke
      by (intro fin_simple) (auto simp: cancel_timer_at_def map_entry_append [OF k])
    then show ?thesis
      by (intro fin_silent) (use True e ke in \<open>auto simp: handle_at_def active_at_def\<close>)
  next
    case False
    obtain es2 n2 l2 where r: "cancel_all_loop h (tm_loop m) es l = (es2, n2, l2)" by (metis prod_cases3)
    have res: "es' = (k, e) # es2" "n = n2" "l' = l2" using Cons.prems(1) r False by (auto simp: ke)
    have "finishes env [Sweep h (map fst es)] (m, (l, w)) []
        (recount (m\<lparr>tm_entries := (done @ [(k, e)]) @ es2, tm_stats := (tm_stats m)\<lparr>tst_cancelled := tst_cancelled (tm_stats m) + n2\<rparr>\<rparr>), (l2, w))"
      by (rule Cons.IH) (use r Cons.prems(2,3) ke in auto)
    then show ?thesis
      using res by (intro fin_silent) (use False e ke in \<open>auto simp: handle_at_def active_at_def\<close>)
  qed
qed

text \<open>The statements of a section, executed without interruption, are its specification.\<close>

lemma section_finishes:
  assumes "section_run env sec (m, s) = (a, y)" and "settled m"
  shows "finishes env [Section sec] (m, s) [(sec, a)] y"
proof (cases sec)
  case (Sec_start h ty d cb)
  let ?k = "make_key h ty"
  obtain m1 l1 where r: "replace_active ?k (m, fst s) = (m1, l1)" by fastforce
  obtain tid s2 where t: "(if tm_loop m1 then schedule_timer env d (Timeout_closure h ty cb) False (l1, snd s)
      else (invalid_timer_id, (l1, snd s))) = (tid, s2)" by (metis surj_pair)
  have ay: "a = Result make_result_void" "y = (recount (m1\<lparr>tm_entries := AList.update ?k
      \<lparr>to_timer = tid, to_handle = h, to_type = ty, to_callback = cb, to_active = True\<rparr> (tm_entries m1)\<rparr>), s2)"
    using assms(1) r t by (auto simp: Sec_start tm_start_def)
  have "finishes env [Store tid h ty cb, Recount] (m1, s2) [] y"
    unfolding ay(2) by (rule fin_silent, simp, simp) (simp add: fin_recount)
  then have sch: "finishes env [Schedule h ty d cb] (m1, (l1, snd s)) [(sec, a)] y"
    using t by (intro fin_answer) (auto simp: Sec_start ay(1) split: prod.splits)
  have "finishes env [Start_test (find_entry h ty m) h ty d cb] (m, s) [(sec, a)] y"
  proof (cases "active_at ?k m")
    case True
    then obtain e where e: "map_of (tm_entries m) ?k = Some e" "to_active e" by (auto simp: active_at_def split: option.splits)
    have "finishes env [Cancel_timer ?k, Count_cancelled, Schedule h ty d cb] (m, s) [(sec, a)] y"
      using r e sch by (intro fin_simple) (auto simp: cancel_timer_at_def replace_active_def)
    then show ?thesis using True e by (intro fin_silent) (auto simp: find_entry_def)
  next
    case False
    then have "m1 = m" "l1 = fst s" using r by (auto simp: active_at_def replace_active_def split: option.splits if_splits)
    then show ?thesis using False sch by (intro fin_silent) (auto simp: find_entry_def split: option.splits)
  qed
  then show ?thesis by (intro fin_silent) (auto simp: Sec_start)
next
  case (Sec_cancel h ty)
  let ?k = "make_key h ty"
  have "finishes env [Cancel_test (find_entry h ty m) h ty] (m, s) [(sec, a)] y"
  proof (cases "active_at ?k m")
    case True
    then obtain e where e: "map_of (tm_entries m) ?k = Some e" "to_active e" by (auto simp: active_at_def split: option.splits)
    let ?m = "count_cancelled (m\<lparr>tm_entries := AList.map_entry ?k deactivate (tm_entries m)\<rparr>)"
    have ay: "a = Result make_result_void" "y = (recount ?m, (cancel_entry_timer (tm_loop m) e (fst s), snd s))"
      using assms(1) e by (auto simp: Sec_cancel tm_cancel_def)
    have "finishes env [Recount] (?m, (cancel_entry_timer (tm_loop m) e (fst s), snd s)) [] y"
      unfolding ay(2) by (rule fin_recount)
    then have "finishes env [Cancel_timer ?k, Deactivate ?k, Count_cancelled, Recount] (m, s) [] y"
      using e by (intro fin_simple) (auto simp: cancel_timer_at_def)
    then show ?thesis using True e ay(1) by (intro fin_answer) (auto simp: find_entry_def Sec_cancel)
  next
    case False
    then have "a = Result invalid_argument" "y = (m, s)"
      using assms(1) by (auto simp: Sec_cancel tm_cancel_def active_at_def split: option.splits)
    then show ?thesis using False by (intro fin_answer) (auto simp: find_entry_def Sec_cancel intro: fin_done split: option.splits)
  qed
  then show ?thesis by (intro fin_silent) (auto simp: Sec_cancel)
next
  case (Sec_cancel_all h)
  obtain es n l where r: "cancel_all_loop h (tm_loop m) (tm_entries m) (fst s) = (es, n, l)" by (metis prod_cases3)
  have ay: "a = Result make_result_void"
      "y = (recount (m\<lparr>tm_entries := es, tm_stats := (tm_stats m)\<lparr>tst_cancelled := tst_cancelled (tm_stats m) + n\<rparr>\<rparr>), (l, snd s))"
    using assms(1) r by (auto simp: Sec_cancel_all tm_cancel_all_def)
  have "finishes env [Sweep h (map fst (tm_entries m))] (m, (fst s, snd s)) [] y"
    using sweep_finishes [OF r, of "[]" env "snd s"] assms(2) by (simp add: ay(2) settled_def)
  then show ?thesis using ay(1) by (intro fin_answer) (auto simp: Sec_cancel_all)
next
  case (Sec_is_active h ty)
  have "finishes env [Active_test (find_entry h ty m) h ty] (m, s) [(sec, a)] y"
    using assms(1) by (intro fin_answer)
      (auto simp: Sec_is_active tm_is_active_def find_entry_def active_at_def intro: fin_done split: option.splits)
  then show ?thesis by (intro fin_silent) (auto simp: Sec_is_active)
next
  case Sec_active_count
  then show ?thesis using assms(1) by (intro fin_answer) (auto intro: fin_done)
next
  case (Sec_fire h ty cb)
  let ?k = "make_key h ty"
  have "finishes env [Fire_test (find_entry h ty m) h ty cb] (m, s) [(sec, a)] y"
  proof (cases "active_at ?k m")
    case True
    then obtain e where e: "map_of (tm_entries m) ?k = Some e" "to_active e" by (auto simp: active_at_def split: option.splits)
    let ?m = "m\<lparr>tm_entries := AList.map_entry ?k deactivate (tm_entries m), tm_stats := (tm_stats m)\<lparr>tst_fired := tst_fired (tm_stats m) + 1\<rparr>\<rparr>"
    have ay: "a = Fired True" "y = (recount ?m, s)" using assms(1) e by (auto simp: Sec_fire tm_fire_def)
    have "finishes env [Fire_call h ty cb, Recount] (?m, s) [] y" unfolding ay(2) by (rule fin_call)
    then have "finishes env [Deactivate ?k, Count_fired, Fire_call h ty cb, Recount] (m, s) [] y"
      by (intro fin_simple) auto
    then show ?thesis using True e ay(1) by (intro fin_answer) (auto simp: find_entry_def Sec_fire)
  next
    case False
    then have ay: "a = Fired False" "y = (recount m, s)"
      using assms(1) by (auto simp: Sec_fire tm_fire_def active_at_def split: option.splits)
    have "finishes env [Recount] (m, s) [] y" unfolding ay(2) by (rule fin_recount)
    then show ?thesis using False ay(1) by (intro fin_answer) (auto simp: find_entry_def Sec_fire split: option.splits)
  qed
  then show ?thesis by (intro fin_silent) (auto simp: Sec_fire)
qed

subsection \<open>Mutual exclusion\<close>

text \<open>What a thread outside the mutex still has to run: whole guarded sections.\<close>

inductive outside :: "'u tm_instr list \<Rightarrow> bool" where
  outside_Nil [intro!, simp]: "outside []"
| outside_guarded: "outside is \<Longrightarrow> outside (Lock # Section sec # Unlock # is)"

lemma outside_append: "outside is \<Longrightarrow> outside js \<Longrightarrow> outside (is @ js)"
  by (induction rule: outside.induct) (auto intro: outside.intros)

lemma outside_call [simp]: "outside (call_code call)"
  by (cases call) (auto simp: guarded_def intro!: outside.intros)

lemma outside_calls: "outside (concat (map call_code cs))"
  by (induction cs) (auto intro: outside_append)

text \<open>
  The thread that holds the mutex: the statements it has left up to the unlock, the state it works on, and the
  state in which the operations settled so far are done. It has not settled its own yet; it has; or it runs the
  callback of a timer.
\<close>

inductive holds ::
  "(('u, 'c) loop_closure, 'k, 'w) loop_env \<Rightarrow> 'u tm_instr list \<Rightarrow> ('u, 'c, 'k, 'w) tl_shared \<Rightarrow> ('u, 'c, 'k, 'w) tl_shared \<Rightarrow> bool"
  for env where
  holds_before: "(\<And>v. \<exists>a y. section_run env sec (xm, (xl, v)) = (a, y) \<and> finishes env body (m, (l, v)) [(sec, a)] y) \<Longrightarrow>
    holds env body (m, (l, w)) (xm, (xl, w))"
| holds_after: "finishes env body x [] y \<Longrightarrow> holds env body x y"
| holds_calling: "outside js \<Longrightarrow> holds env (js @ [Recount]) (m, s) (recount m, s)"
| holds_callback: "outside js \<Longrightarrow> holds env (Callback u h ty # js @ [Recount]) (m, s) (recount m, s)"

definition tl_inv ::
  "(('u, 'c) loop_closure, 'k, 'w) loop_env \<Rightarrow> ('t, 'u, 'c, 'k, 'w) tl_state \<Rightarrow> ('u, 'c, 'k, 'w) tl_shared \<Rightarrow> bool" where
  "tl_inv env c x \<longleftrightarrow>
     (\<forall>t. tl_mutex c \<noteq> Some t \<longrightarrow> outside (tl_code c t)) \<and> settled (fst x)
     \<and> (case tl_mutex c of
          None \<Rightarrow> x = tl_shared c
        | Some t \<Rightarrow> \<exists>body is. tl_code c t = body @ Unlock # is \<and> outside is \<and> holds env body (tl_shared c) x)"

text \<open>Only the statement that schedules a timer, which settles an answer, reads the world.\<close>

lemma run_instr_world:
  assumes "plain i" and "\<And>h ty d cb. i \<noteq> Schedule h ty d cb"
  shows "\<exists>a pend m' l'. \<forall>w. run_instr env i (m, (l, w)) = (a, pend, (m', (l', w)))"
proof (cases i)
  case (Section sec)
  then show ?thesis by (cases sec) auto
next
  case (Cancel_test it h ty)
  then show ?thesis by (cases it; cases "active_at (the it) m") auto
next
  case (Sweep h ks)
  then show ?thesis by (cases ks) auto
next
  case (Fire_test it h ty cb)
  then show ?thesis by (cases it; cases "active_at (the it) m") auto
qed (use assms in auto)

lemma finishes_world:
  assumes "finishes env is x as y" and "as = []" and "x = (m, (l, w))"
  shows "\<exists>m' l'. y = (m', (l', w)) \<and> (\<forall>v. finishes env is (m, (l, v)) [] (m', (l', v)))"
  using assms
proof (induction arbitrary: m l rule: finishes.induct)
  case (fin_step i x a pend y "is" as z)
  have a: "a = None" "as = []" using fin_step.prems(1) by (auto split: option.splits)
  then have "i \<noteq> Schedule h ty d cb" for h ty d cb
    using fin_step.hyps(2) by (cases x) (auto split: prod.splits)
  from run_instr_world [OF fin_step.hyps(1) this, of env m l]
  obtain b pend' m1 l1 where r: "\<forall>w. run_instr env i (m, (l, w)) = (b, pend', (m1, (l1, w)))" by metis
  then have "b = None" "pend' = pend" "y = (m1, (l1, w))" using fin_step.hyps(2) fin_step.prems(2) a by auto
  then obtain m' l' where "z = (m', (l', w))" "\<forall>v. finishes env (pend @ is) (m1, (l1, v)) [] (m', (l', v))"
    using fin_step.IH [OF a(2)] by blast
  then show ?case using r \<open>b = None\<close> \<open>pend' = pend\<close> fin_silent [OF fin_step.hyps(1)] by metis
qed (auto intro: fin_done fin_call)

lemma holds_world: "holds env body (m, (l, w)) x \<Longrightarrow> \<exists>xm xl. x = (xm, (xl, w)) \<and> holds env body (m, (l, v)) (xm, (xl, v))"
proof (erule holds.cases, goal_cases)
  case (1 sec xm xl body' m' l' w')
  have "holds env body' (m', (l', v)) (xm, (xl, v))" by (rule holds_before [of env sec xm xl]) (rule 1(4))
  then show ?case using 1 by simp
next
  case (2 body' x' y)
  then show ?thesis using finishes_world [of env body x' "[]" y m l w] by (metis holds_after)
next
  case (3 js m' s)
  then show ?thesis by (auto intro: holds_calling)
next
  case (4 js u h ty m' s)
  then show ?thesis by (auto intro: holds_callback)
qed

text \<open>A step of the thread that holds the mutex, in the middle of its section.\<close>

lemma advance_control:
  "tl_code c t = Lock # is \<Longrightarrow> advance env calls act t c =
     (if tl_mutex c = None then Some ([], c\<lparr>tl_mutex := Some t, tl_code := (tl_code c)(t := is)\<rparr>) else None)"
  "tl_code c t = Fire_call h ty cb # is \<Longrightarrow> advance env calls act t c =
     Some ([], c\<lparr>tl_code := (tl_code c)(t := callback_code calls h ty cb @ is)\<rparr>)"
  "tl_code c t = Callback u h ty # is \<Longrightarrow> advance env calls act t c =
     Some ([Ran t u h ty], c\<lparr>tl_code := (tl_code c)(t := is),
        tl_shared := (fst (tl_shared c), act u h ty (snd (tl_shared c)))\<rparr>)"
  "tl_code c t = Unlock # is \<Longrightarrow> advance env calls act t c = Some ([], c\<lparr>tl_mutex := None, tl_code := (tl_code c)(t := is)\<rparr>)"
  by (simp_all add: advance.simps)

lemma advance_plain:
  "tl_code c t = i # is \<Longrightarrow> plain i \<Longrightarrow> run_instr env i (tl_shared c) = (a, pend, x) \<Longrightarrow>
   advance env calls act t c = Some (case a of None \<Rightarrow> [] | Some (sec, r) \<Rightarrow> [Did t sec r],
     c\<lparr>tl_code := (tl_code c)(t := pend @ is), tl_shared := x\<rparr>)"
  by (cases i) (auto simp: advance.simps plain_def)

lemma plain_step_holds:
  assumes h: "holds env (i # body) x y" and i: "plain i" and r: "run_instr env i x = (a, pend, x')" and y: "settled (fst y)"
  shows "\<exists>y'. replay env act (case a of None \<Rightarrow> [] | Some (sec, b) \<Rightarrow> [Did t sec b]) y = Some y' \<and> holds env (pend @ body) x' y' \<and> settled (fst y')"
  using h
proof (cases rule: holds.cases)
  case (holds_before sec xm xl m l w)
  show ?thesis
  proof (cases a)
    case (Some sa)
    obtain b z where z: "section_run env sec y = (b, z)" "finishes env (i # body) x [(sec, b)] z"
      using holds_before(3) [of w] holds_before(1,2) by auto
    from z(2) have "finishes env (pend @ body) x' [] z \<and> sa = (sec, b)"
      by (rule finishes_ConsE) (use r Some i in auto)
    moreover have "settled (fst z)" using section_run_settled [of env sec "fst y" "snd y" b "fst z" "snd z"] z(1) y by simp
    ultimately show ?thesis using z(1) Some by (auto intro: holds_after)
  next
    case None
    have "i \<noteq> Schedule h ty d cb" for h ty d cb using r None by (cases x) (auto split: prod.splits)
    from run_instr_world [OF i this, of env m l] obtain a' pend' m1 l1
      where w: "\<And>v. run_instr env i (m, (l, v)) = (a', pend', (m1, (l1, v)))" by metis
    then have e: "a' = None" "pend' = pend" "x' = (m1, (l1, w))" using r None holds_before(1) by auto
    have "\<exists>b z. section_run env sec (xm, (xl, v)) = (b, z) \<and> finishes env (pend @ body) (m1, (l1, v)) [(sec, b)] z" for v
    proof -
      obtain b z where z: "section_run env sec (xm, (xl, v)) = (b, z)" "finishes env (i # body) (m, (l, v)) [(sec, b)] z"
        using holds_before(3) [of v] by auto
      from z(2) have "finishes env (pend @ body) (m1, (l1, v)) [(sec, b)] z"
        by (rule finishes_ConsE) (use w [of v] e i in auto)
      then show ?thesis using z(1) by blast
    qed
    then have "holds env (pend @ body) (m1, (l1, w)) (xm, (xl, w))" by (rule holds.holds_before)
    then show ?thesis using e None holds_before(2) y by simp
  qed
next
  case holds_after
  then have "finishes env (pend @ body) x' [] y \<and> a = None"
    by (rule finishes_ConsE) (use r i in \<open>auto split: option.splits\<close>)
  then show ?thesis using y by (auto intro: holds.holds_after)
next
  case (holds_calling js m s)
  have "js = []" using holds_calling(4) by cases (use holds_calling(1) i in auto)
  then have "i = Recount" "body = []" using holds_calling(1) by auto
  then show ?thesis using r holds_calling y by (auto intro: holds.holds_after fin_done)
next
  case (holds_callback js u h ty m s)
  then show ?thesis using i by simp
qed

text \<open>Every step of a thread keeps the invariant; what it settles is what the specification does.\<close>

lemma advance_inv:
  assumes step: "advance env calls act t c = Some (es, c')" and inv: "tl_inv env c x"
  shows "\<exists>x'. replay env act es x = Some x' \<and> tl_inv env c' x'"
proof (cases "tl_mutex c = Some t")
  case False
  then have "outside (tl_code c t)" using inv by (simp add: tl_inv_def)
  then show ?thesis
  proof cases
    case outside_Nil
    then show ?thesis using step by (simp add: advance.simps)
  next
    case (outside_guarded "is" sec)
    then have free: "tl_mutex c = None" and c': "es = []" "c' = c\<lparr>tl_mutex := Some t, tl_code := (tl_code c)(t := Section sec # Unlock # is)\<rparr>"
      using step by (auto simp: advance_control split: if_splits)
    obtain m l w where sh: "tl_shared c = (m, (l, w))" by (cases "tl_shared c") auto
    have x: "x = (m, (l, w))" "settled m" using inv free sh by (auto simp: tl_inv_def)
    have "holds env [Section sec] (m, (l, w)) (m, (l, w))"
      by (rule holds_before [of env sec]) (metis section_finishes x(2) surj_pair)
    then have "\<exists>body js. Section sec # Unlock # is = body @ Unlock # js \<and> outside js \<and> holds env body (tl_shared c) x"
      using outside_guarded(2) x sh by (intro exI [of _ "[Section sec]"] exI [of _ "is"]) simp
    then show ?thesis using inv free c' by (auto simp: tl_inv_def)
  qed
next
  case True
  obtain body "is" where b: "tl_code c t = body @ Unlock # is" "outside is" "holds env body (tl_shared c) x"
    using inv True by (auto simp: tl_inv_def)
  have others: "outside (tl_code c u)" if "u \<noteq> t" for u using inv True that by (auto simp: tl_inv_def)
  have x: "settled (fst x)" using inv by (simp add: tl_inv_def)
  have keep: "tl_inv env c2 x2"
    if "tl_mutex c2 = Some t" "\<And>u. u \<noteq> t \<Longrightarrow> tl_code c2 u = tl_code c u" "tl_code c2 t = body2 @ Unlock # is"
      "holds env body2 (tl_shared c2) x2" "settled (fst x2)" for c2 body2 x2
    using that others b(2) by (auto simp: tl_inv_def)
  show ?thesis
  proof (cases body)
    case Nil
    have "x = tl_shared c" using b(3) Nil by cases (auto elim: finishes_NilE)
    moreover have "es = []" "c' = c\<lparr>tl_mutex := None, tl_code := (tl_code c)(t := is)\<rparr>" using step b(1) Nil by (auto simp: advance_control)
    ultimately show ?thesis using x b(2) others by (auto simp: tl_inv_def)
  next
    case (Cons i bs)
    note code = b(1) [unfolded Cons append_Cons]
    show ?thesis
    proof (cases "plain i")
      case True
      obtain a pend x1 where r: "run_instr env i (tl_shared c) = (a, pend, x1)" by (metis prod_cases3)
      obtain x' where x': "replay env act (case a of None \<Rightarrow> [] | Some (sec, b) \<Rightarrow> [Did t sec b]) x = Some x'"
          "holds env (pend @ bs) x1 x'" "settled (fst x')"
        using plain_step_holds [OF b(3) [unfolded Cons] True r x, of act t] by metis
      have c': "es = (case a of None \<Rightarrow> [] | Some (sec, b) \<Rightarrow> [Did t sec b])"
          "c' = c\<lparr>tl_code := (tl_code c)(t := pend @ bs @ Unlock # is), tl_shared := x1\<rparr>"
        using step unfolding advance_plain [OF code True r] by simp_all
      have "tl_inv env c' x'"
        using x'(2,3) \<open>tl_mutex c = Some t\<close> by (intro keep [of c' "pend @ bs" x']) (simp_all add: c'(2))
      then show ?thesis using x'(1) c'(1) by blast
    next
      case False
      from b(3) show ?thesis
      proof cases
        case (holds_before sec xm xl m l w)
        obtain a y where "finishes env body (m, (l, w)) [(sec, a)] y" using holds_before(3) by blast
        then show ?thesis using False Cons by (auto elim: finishes.cases)
      next
        case holds_after
        then obtain h ty cb m s where f: "i = Fire_call h ty cb" "bs = [Recount]" "tl_shared c = (m, s)" "x = (recount m, s)"
          using False Cons by (auto elim: finishes.cases)
        have "holds env (callback_code calls h ty cb @ [Recount]) (m, s) (recount m, s)"
          using holds_calling [OF outside_Nil, of env m s] holds_callback [OF outside_calls, where m = m and s = s]
          by (cases "(calls, h, ty, cb)" rule: callback_code.cases) auto
        then show ?thesis
          using step code f x \<open>tl_mutex c = Some t\<close> keep [of c' "callback_code calls h ty cb @ [Recount]" x] by (auto simp: advance_control)
      next
        case (holds_calling js m s)
        from holds_calling(4) show ?thesis
        proof cases
          case outside_Nil
          then show ?thesis using holds_calling Cons False by simp
        next
          case outside_guarded
          then show ?thesis using holds_calling Cons step code \<open>tl_mutex c = Some t\<close> by (simp add: advance_control)
        qed
      next
        case (holds_callback js u h ty m s)
        then have ib: "i = Callback u h ty" "bs = js @ [Recount]" using Cons by auto
        have c': "es = [Ran t u h ty]" "c' = c\<lparr>tl_code := (tl_code c)(t := (js @ [Recount]) @ Unlock # is), tl_shared := (m, act u h ty s)\<rparr>"
          using step code holds_callback(2) ib by (simp_all add: advance_control)
        have "tl_inv env c' (recount m, act u h ty s)"
          using holds_callback(3) x \<open>tl_mutex c = Some t\<close> holds.holds_calling [OF holds_callback(4), of env m "act u h ty s"]
          by (intro keep [of c' "js @ [Recount]"]) (simp_all add: c'(2))
        moreover have "replay env act es x = Some (recount m, act u h ty s)" by (simp add: c'(1) holds_callback(3))
        ultimately show ?thesis by blast
      qed
    qed
  qed
qed

lemma tl_start_inv: "tl_inv env (tl_start has_loop s) (tm_impl\<lparr>tm_loop := has_loop\<rparr>, s)"
  by (simp add: tl_inv_def tl_start_def settled_impl)

lemma tl_step_inv:
  assumes "tl_step env calls act c es c'" and inv: "tl_inv env c x"
  shows "\<exists>x'. replay env act es x = Some x' \<and> tl_inv env c' x'"
  using assms(1)
proof cases
  case (tl_call t call)
  have "tl_mutex c \<noteq> Some t" using inv tl_call(3) by (auto simp: tl_inv_def)
  then show ?thesis using inv tl_call by (auto simp: tl_inv_def split: option.splits)
next
  case (tl_move t)
  show ?thesis by (rule advance_inv [OF tl_move inv])
next
  case (tl_world m l w w')
  show ?thesis
  proof (cases "tl_mutex c")
    case None
    then show ?thesis using inv tl_world by (auto simp: tl_inv_def)
  next
    case (Some t)
    obtain body "is" where b: "tl_code c t = body @ Unlock # is" "outside is" "holds env body (m, (l, w)) x"
      using inv Some tl_world(3) by (auto simp: tl_inv_def)
    obtain xm xl where "x = (xm, (xl, w))" "holds env body (m, (l, w')) (xm, (xl, w'))" using holds_world [OF b(3)] by blast
    then show ?thesis using inv tl_world b Some by (auto simp: tl_inv_def)
  qed
qed

lemma tl_run_inv:
  assumes "tl_run env calls act c0 es c" and "tl_inv env c0 x0"
  shows "\<exists>x. replay env act es x0 = Some x \<and> tl_inv env c x"
  using assms
proof (induction rule: tl_run.induct)
  case (tl_more es c fs c')
  then obtain x where x: "replay env act es x0 = Some x" "tl_inv env c x" by blast
  then show ?case using tl_step_inv [OF tl_more.hyps(2) x(2)] by (simp add: replay_append)
qed auto

subsection \<open>A callback that calls the manager\<close>

text \<open>A thread that waits for a mutex it holds: it waits for ever, and no operation of the manager is executed any more.\<close>

definition self_blocked :: "'t \<Rightarrow> ('t, 'u, 'c, 'k, 'w) tl_state \<Rightarrow> bool" where
  "self_blocked t c \<longleftrightarrow> tl_mutex c = Some t \<and> (\<exists>is. tl_code c t = Lock # is) \<and> (\<forall>u. u \<noteq> t \<longrightarrow> outside (tl_code c u))"

lemma self_blocked_step:
  assumes "self_blocked t c" and "tl_step env calls act c es c'"
  shows "self_blocked t c' \<and> tl_code c' t = tl_code c t \<and> fst (tl_shared c') = fst (tl_shared c) \<and> (\<forall>e \<in> set es. \<exists>w. e = World w)"
  using assms(2)
proof cases
  case (tl_call u call)
  then show ?thesis using assms(1) by (auto simp: self_blocked_def)
next
  case (tl_move u)
  then have "u \<noteq> t" using assms(1) by (auto simp: self_blocked_def advance.simps)
  then have "outside (tl_code c u)" using assms(1) by (simp add: self_blocked_def)
  then show ?thesis using assms(1) tl_move by cases (auto simp: self_blocked_def advance.simps)
next
  case (tl_world m l w w')
  then show ?thesis using assms(1) by (auto simp: self_blocked_def)
qed

lemma self_blocked_run:
  assumes "tl_run env calls act c es c'" and "self_blocked t c"
  shows "self_blocked t c' \<and> tl_code c' t = tl_code c t \<and> fst (tl_shared c') = fst (tl_shared c) \<and> (\<forall>e \<in> set es. \<exists>w. e = World w)"
  using assms
proof (induction rule: tl_run.induct)
  case (tl_more es c1 fs c2)
  then show ?case using self_blocked_step [of t c1 env calls act fs c2] by auto
qed simp

lemma self_blocked_stuck: "self_blocked t c \<Longrightarrow> advance env calls act t c = None"
  by (auto simp: self_blocked_def advance.simps)

text \<open>Steps of one thread.\<close>

fun steps_of ::
  "(('u, 'c) loop_closure, 'k, 'w) loop_env \<Rightarrow> 'u callback_calls \<Rightarrow> ('u, 'c, 'k, 'w) callback_acts \<Rightarrow>
   't \<Rightarrow> nat \<Rightarrow> ('t, 'u, 'c, 'k, 'w) tl_state \<Rightarrow> ('t, 'u, 'c, 'k, 'w) tl_state option" where
  "steps_of env calls act t 0 c = Some c"
| "steps_of env calls act t (Suc n) c =
     (case advance env calls act t c of None \<Rightarrow> None | Some (es, c') \<Rightarrow> steps_of env calls act t n c')"

lemma steps_of_Suc:
  "advance env calls act t c = Some (es, c1) \<Longrightarrow> steps_of env calls act t n c1 = Some c' \<Longrightarrow>
   steps_of env calls act t (Suc n) c = Some c'"
  by simp

text \<open>The entry is looked up and tested, its flag cleared, the firing counted, the callback called and run.\<close>

lemma callback_blocks:
  assumes inv: "tl_inv env c x" and code: "tl_code c t = Section (Sec_fire h ty (Some (User_callback u))) # is"
    and active: "tm_is_active h ty (fst (tl_shared c))" and calls: "calls u h ty \<noteq> []"
  shows "\<exists>c'. steps_of env calls act t 6 c = Some c' \<and> self_blocked t c'"
proof -
  have m: "tl_mutex c = Some t"
  proof (rule ccontr)
    assume "tl_mutex c \<noteq> Some t"
    then have "outside (tl_code c t)" using inv by (simp add: tl_inv_def)
    then show False using code by cases simp_all
  qed
  have others: "outside (tl_code c v)" if "v \<noteq> t" for v using inv m that by (auto simp: tl_inv_def)
  obtain call cs where cs: "calls u h ty = call # cs" using calls by (cases "calls u h ty") auto
  have "\<exists>js. call_code call = Lock # js" by (cases call) (auto simp: guarded_def)
  then obtain js where js: "call_code call = Lock # js" by blast
  obtain m1 s where sh: "tl_shared c = (m1, s)" by (cases "tl_shared c")
  let ?k = "make_key h ty"
  have f: "find_entry h ty m1 = Some ?k" "active_at ?k m1"
    using active sh by (auto simp: find_entry_def active_at_def tm_is_active_def split: option.splits)
  show ?thesis
    using m cs js sh f code others by (simp add: eval_nat_numeral advance_plain advance_control self_blocked_def)
qed

subsection \<open>Callbacks that do not\<close>

text \<open>
  Otherwise the thread that holds the mutex gives it back. The number of steps it has left: for
  \<open>cancel_all\<close> four for every entry.
\<close>

fun steps_left :: "nat \<Rightarrow> 'u tm_instr \<Rightarrow> nat" where
  "steps_left n (Section sec) = 7 + 4 * n"
| "steps_left n (Start_test it h ty d cb) = 6"
| "steps_left n (Schedule h ty d cb) = 3"
| "steps_left n (Cancel_test it h ty) = 5"
| "steps_left n (Sweep h ks) = 2 + 4 * length ks"
| "steps_left n (Fire_test it h ty cb) = 6"
| "steps_left n (Fire_call h ty cb) = 2"
| "steps_left n i = 1"

definition left :: "nat \<Rightarrow> 'u tm_instr list \<Rightarrow> nat" where
  "left n is = sum_list (map (steps_left n) is)"

lemma left_simps [simp]: "left n [] = 0" "left n (i # is) = steps_left n i + left n is" "left n (is @ js) = left n is + left n js"
  by (simp_all add: left_def)

definition entry_count :: "('t, 'u, 'c, 'k, 'w) tl_state \<Rightarrow> nat" where
  "entry_count c = length (tm_entries (fst (tl_shared c)))"

definition unsectioned :: "'u tm_instr \<Rightarrow> bool" where
  "unsectioned i \<longleftrightarrow> i \<noteq> Lock \<and> i \<noteq> Unlock \<and> (\<forall>sec. i \<noteq> Section sec)"

lemma left_unsectioned: "list_all unsectioned is \<Longrightarrow> left n is = left n' is"
proof (induction "is")
  case (Cons i "is")
  then show ?case by (cases i) (simp_all add: unsectioned_def)
qed simp

lemma entries_update_length: "length xs \<le> length (AList.update k v xs)"
  by (induction xs) auto

lemma run_instr_left:
  assumes "run_instr env i (m, s) = (a, pend, (m', s'))" and "plain i" and "n = length (tm_entries m)"
  shows "left n pend < steps_left n i \<and> list_all unsectioned pend \<and> n \<le> length (tm_entries m')"
proof (cases i)
  case (Section sec)
  then show ?thesis using assms by (cases sec) (auto simp: unsectioned_def)
next
  case (Sweep h ks)
  then show ?thesis using assms by (cases ks) (auto simp: unsectioned_def)
next
  case (Deactivate k)
  have "length (AList.map_entry k deactivate es) = length es" for es :: "(64 word \<times> 'a timeout_entry) list"
    by (induction es) auto
  then show ?thesis using Deactivate assms by auto
qed (use assms entries_update_length in \<open>auto simp: unsectioned_def count_cancelled_def recount_def split: option.splits if_splits prod.splits\<close>)

definition nearly_done :: "('t, 'u, 'c, 'k, 'w) tl_state \<Rightarrow> 't \<Rightarrow> bool" where
  "nearly_done c t \<longleftrightarrow>
     (\<exists>body is. tl_code c t = body @ Unlock # is \<and> ((\<exists>sec. body = [Section sec]) \<or> list_all unsectioned body)
        \<and> left (entry_count c) body \<le> 7 + 4 * entry_count c)"

lemma body_step:
  assumes code: "tl_code c t = i # body @ Unlock # is" and i: "(\<exists>sec. i = Section sec) \<and> body = [] \<or> list_all unsectioned (i # body)"
    and quiet: "\<forall>u h ty. calls u h ty = []"
  shows "\<exists>es c1 pend. advance env calls act t c = Some (es, c1) \<and> tl_mutex c1 = tl_mutex c \<and> tl_code c1 t = (pend @ body) @ Unlock # is
    \<and> list_all unsectioned (pend @ body) \<and> left (entry_count c) (pend @ body) < left (entry_count c) (i # body)
    \<and> entry_count c \<le> entry_count c1"
proof (cases "plain i")
  case True
  obtain a pend m' s' where r: "run_instr env i (tl_shared c) = (a, pend, (m', s'))" by (metis prod_cases3 surj_pair)
  have "left (entry_count c) pend < steps_left (entry_count c) i \<and> list_all unsectioned pend \<and> entry_count c \<le> length (tm_entries m')"
    using run_instr_left [of env i "fst (tl_shared c)" "snd (tl_shared c)" a pend m' s' "entry_count c"] r True
    by (simp add: entry_count_def)
  then show ?thesis using advance_plain [OF code True r] i by (auto simp: entry_count_def)
next
  case False
  then consider h ty cb where "i = Fire_call h ty cb" | u h ty where "i = Callback u h ty"
    using i by (auto simp: plain_def unsectioned_def)
  then show ?thesis
  proof cases
    case 1
    have "callback_code calls h ty cb = [] \<or> (\<exists>u. callback_code calls h ty cb = [Callback u h ty])"
      using quiet by (cases "(calls, h, ty, cb)" rule: callback_code.cases) auto
    then show ?thesis using code i 1 by (auto simp: advance_control entry_count_def unsectioned_def)
  next
    case 2
    then show ?thesis using code i by (auto simp: advance_control entry_count_def)
  qed
qed

lemma body_unlocks:
  assumes quiet: "\<forall>u h ty. calls u h ty = []"
  shows "tl_code c t = body @ Unlock # is \<Longrightarrow> (\<exists>sec. body = [Section sec]) \<or> list_all unsectioned body \<Longrightarrow>
    \<exists>n \<le> Suc (left (entry_count c) body). \<exists>c'. steps_of env calls act t n c = Some c' \<and> tl_mutex c' = None"
proof (induction "left (entry_count c) body" arbitrary: c body rule: less_induct)
  case less
  show ?case
  proof (cases body)
    case Nil
    then show ?thesis using less.prems(1) by (intro exI [of _ 1]) (simp add: advance_control)
  next
    case (Cons i bs)
    have "tl_code c t = i # bs @ Unlock # is" and "(\<exists>sec. i = Section sec) \<and> bs = [] \<or> list_all unsectioned (i # bs)"
      using less.prems Cons by auto
    from body_step [OF this quiet, where env = env and act = act] obtain es c1 pend
      where 1: "advance env calls act t c = Some (es, c1)" "tl_code c1 t = (pend @ bs) @ Unlock # is"
        "list_all unsectioned (pend @ bs)" "left (entry_count c) (pend @ bs) < left (entry_count c) body"
      unfolding Cons by blast
    have l: "left (entry_count c1) (pend @ bs) < left (entry_count c) body"
      using 1(4) left_unsectioned [OF 1(3)] by metis
    from less.hyps [OF l 1(2)] 1(3) obtain n c'
      where n: "n \<le> Suc (left (entry_count c1) (pend @ bs))" "steps_of env calls act t n c1 = Some c'" "tl_mutex c' = None"
      by blast
    then show ?thesis using steps_of_Suc [OF 1(1) n(2)] l by (intro exI [of _ "Suc n"]) auto
  qed
qed

lemma nearly_done_step:
  assumes "nearly_done c t" and "advance env calls act t c = Some (es, c')" and "tl_mutex c' = Some t"
    and quiet: "\<forall>u h ty. calls u h ty = []"
  shows "nearly_done c' t"
proof -
  obtain body "is" where b: "tl_code c t = body @ Unlock # is" "(\<exists>sec. body = [Section sec]) \<or> list_all unsectioned body"
      "left (entry_count c) body \<le> 7 + 4 * entry_count c"
    using assms(1) by (auto simp: nearly_done_def)
  show ?thesis
  proof (cases body)
    case Nil
    then show ?thesis using assms(2,3) b(1) by (auto simp: advance_control)
  next
    case (Cons i bs)
    have "tl_code c t = i # bs @ Unlock # is" and "(\<exists>sec. i = Section sec) \<and> bs = [] \<or> list_all unsectioned (i # bs)"
      using b(1,2) Cons by auto
    from body_step [OF this quiet, where env = env and act = act] obtain pend
      where 1: "tl_code c' t = (pend @ bs) @ Unlock # is" "list_all unsectioned (pend @ bs)"
        "left (entry_count c) (pend @ bs) < left (entry_count c) body" "entry_count c \<le> entry_count c'"
      unfolding Cons using assms(2) by auto
    have "left (entry_count c') (pend @ bs) \<le> 7 + 4 * entry_count c'"
      using 1(3,4) b(3) left_unsectioned [OF 1(2), of "entry_count c" "entry_count c'"] by linarith
    then show ?thesis using 1(1,2) unfolding nearly_done_def by blast
  qed
qed

lemma advance_keeps_owner:
  assumes "advance env calls act t c = Some (es, c')" and "tl_mutex c = Some t"
  shows "tl_mutex c' = Some t \<or> tl_mutex c' = None"
proof (cases "tl_code c t")
  case Nil
  then show ?thesis using assms by (simp add: advance.simps)
next
  case (Cons i "is")
  show ?thesis
  proof (cases "plain i")
    case True
    obtain a pend x where "run_instr env i (tl_shared c) = (a, pend, x)" by (metis prod_cases3)
    from advance_plain [OF Cons True this] show ?thesis using assms by auto
  next
    case False
    then show ?thesis using assms Cons by (auto simp: plain_def advance_control)
  qed
qed

definition calm :: "('t, 'u, 'c, 'k, 'w) tl_state \<Rightarrow> bool" where
  "calm c \<longleftrightarrow> (\<forall>t. tl_mutex c = Some t \<longrightarrow> nearly_done c t)"

text \<open>A step of a thread that does not hold the mutex leaves the others and what they share alone.\<close>

lemma advance_outside:
  assumes "advance env calls act t c = Some (es, c')" and "outside (tl_code c t)"
  obtains sec "is" where "es = []" "tl_mutex c = None"
    "c' = c\<lparr>tl_mutex := Some t, tl_code := (tl_code c)(t := Section sec # Unlock # is)\<rparr>"
  using assms(2) by cases (use assms(1) that in \<open>auto simp: advance_control advance.simps split: if_splits\<close>)

lemma tl_run_calm:
  assumes "tl_run env calls act (tl_start has_loop s) es c" and quiet: "\<forall>u h ty. calls u h ty = []"
  shows "calm c"
  using assms(1)
proof (induction rule: tl_run.induct)
  case tl_none
  show ?case by (simp add: calm_def tl_start_def)
next
  case (tl_more es c fs c')
  obtain x where inv: "tl_inv env c x" using tl_run_inv [OF tl_more.hyps(1) tl_start_inv] by blast
  from tl_more.hyps(2) show ?case
  proof cases
    case (tl_call t call)
    then have "tl_mutex c \<noteq> Some t" using inv by (auto simp: tl_inv_def)
    then show ?thesis using tl_more.IH tl_call by (auto simp: calm_def nearly_done_def entry_count_def)
  next
    case (tl_move t)
    show ?thesis
    proof (cases "tl_mutex c = Some t")
      case True
      then have "nearly_done c t" using tl_more.IH by (simp add: calm_def)
      then show ?thesis
        using nearly_done_step [OF _ tl_move _ quiet] advance_keeps_owner [OF tl_move True] by (auto simp: calm_def)
    next
      case False
      then have "outside (tl_code c t)" using inv by (simp add: tl_inv_def)
      from advance_outside [OF tl_move this] show ?thesis
      proof cases
        fix sec "is" assume "c' = c\<lparr>tl_mutex := Some t, tl_code := (tl_code c)(t := Section sec # Unlock # is)\<rparr>"
        then have "nearly_done c' t" "tl_mutex c' = Some t"
          unfolding nearly_done_def by (intro exI [of _ "[Section sec]"] exI [of _ "is"], auto)
        then show ?thesis by (simp add: calm_def)
      qed
    qed
  next
    case tl_world
    then show ?thesis using tl_more.IH by (auto simp: calm_def nearly_done_def entry_count_def)
  qed
qed

lemma owner_unlocks:
  assumes run: "tl_run env calls act (tl_start has_loop s) es c" and t: "tl_mutex c = Some t"
    and quiet: "\<forall>u h ty. calls u h ty = []"
  shows "\<exists>n \<le> 8 + 4 * entry_count c. \<exists>c'. steps_of env calls act t n c = Some c' \<and> tl_mutex c' = None"
proof -
  obtain body "is" where b: "tl_code c t = body @ Unlock # is" "(\<exists>sec. body = [Section sec]) \<or> list_all unsectioned body"
      "left (entry_count c) body \<le> 7 + 4 * entry_count c"
    using tl_run_calm [OF run quiet] t by (auto simp: calm_def nearly_done_def)
  obtain n c' where "n \<le> Suc (left (entry_count c) body)" "steps_of env calls act t n c = Some c'" "tl_mutex c' = None"
    using body_unlocks [OF quiet b(1,2)] by blast
  then show ?thesis using b(3) by (intro exI [of _ n]) auto
qed

subsection \<open>Given schedules\<close>

datatype ('t, 'u) tl_act = Begin 't "'u tm_call" | Go 't

fun drive ::
  "(('u, 'c) loop_closure, 'k, 'w) loop_env \<Rightarrow> 'u callback_calls \<Rightarrow> ('u, 'c, 'k, 'w) callback_acts \<Rightarrow>
   ('t, 'u) tl_act list \<Rightarrow> ('t, 'u, 'c, 'k, 'w) tl_state \<Rightarrow> (('t, 'u, 'w) tl_event list \<times> ('t, 'u, 'c, 'k, 'w) tl_state) option" where
  "drive env calls act [] c = Some ([], c)"
| "drive env calls act (Begin t call # as) c =
     (if tl_code c t = [] then drive env calls act as (c\<lparr>tl_code := (tl_code c)(t := call_code call)\<rparr>) else None)"
| "drive env calls act (Go t # as) c =
     (case advance env calls act t c of
        None \<Rightarrow> None
      | Some (es, c1) \<Rightarrow> (case drive env calls act as c1 of None \<Rightarrow> None | Some (fs, c2) \<Rightarrow> Some (es @ fs, c2)))"

lemma drive_run:
  "drive env calls act as c = Some (fs, c') \<Longrightarrow> tl_run env calls act c0 es c \<Longrightarrow> tl_run env calls act c0 (es @ fs) c'"
proof (induction env calls act as c arbitrary: es fs rule: drive.induct)
  case (2 env calls act t call as c)
  then show ?case using tl_more [OF 2(3) tl_call, of t call] by (auto split: if_splits)
next
  case (3 env calls act t as c)
  then obtain es1 c1 fs1 where 1: "advance env calls act t c = Some (es1, c1)" "drive env calls act as c1 = Some (fs1, c')"
      "fs = es1 @ fs1"
    by (auto split: option.splits)
  from "3.IH" [OF 1(1) refl 1(2) tl_more [OF "3.prems"(2) tl_move [OF 1(1)]]] show ?case using 1(3) by simp
qed simp

lemma replicate_turns: "replicate 4 x = [x, x, x, x]" "replicate 7 x = [x, x, x, x, x, x, x]"
  by (simp_all add: eval_nat_numeral)

lemmas manager_eval = replicate_turns tl_start_def advance.simps guarded_def tm_impl_def schedule_timer_def add_timer_def find_entry_def active_at_def
  recount_def deactivate_def Let_def

end
