(* ===== verification/Thread_Claims.thy ===== *)
theory Thread_Claims
  imports Loop_Claims Loop_Runners Timeout_Threads
begin

text \<open>
  The properties of a loop whose thread runs among other threads, of a timeout manager that threads share,
  and of threads that call \<open>run\<close> of one loop, evaluated on the runtime of \<open>Loop_Claims\<close>.
\<close>



text \<open>C10: Once the loop has started and a \<open>stop\<close> has arrived, from whichever thread, \<open>run\<close> returns in every fair
  schedule, with the loop no longer running, whatever is posted meanwhile: as long as the loop's waits have a
  timeout (\<open>default_timeout_ms\<close> is not negative) and a wait with a timeout ends, callbacks keep to the
  operations of the loop, timer callbacks leave the list of timers alone and no handler is null. Nothing wakes
  a wait without a timeout: \<open>wait_stays\<close>.\<close>

theorem stop_ends_run:
  assumes "callbacks_use_api env" and "careful env" and "fair acts" and "timed_waits_end env acts (p, s)" and "timed (p, s)"
    and "in_loop p" and "p \<noteq> Undefined" and "\<forall>r. p \<noteq> Returned r"
    and "el_stopped (fst s)" and "no_null_handler (fst s)"
  shows "\<exists>n r s'. after env acts (p, s) n = (Returned r, s') \<and> \<not> el_running (fst s')"
proof -
  obtain n r where n: "fst (after env acts (p, s) n) = Returned r"
    using stop_ends [OF assms(1,3,4,5)] careful_after [OF assms(2), of "(p, s)" acts] assms(6-10) by auto
  moreover have "\<not> el_running (fst (snd (after env acts (p, s) n)))"
    by (rule returned_not_running [OF _ _ _ n]) (use assms(6-8) in \<open>auto simp: in_loop_def\<close>)
  ultimately show ?thesis by (intro exI [of _ n] exI [of _ r] exI [of _ "snd (after env acts (p, s) n)"]) (simp add: prod_eq_iff)
qed

lemma demo_careful: "careful (rt_env demo_app)"
  by (auto simp: careful_def rt_env_def demo_app_def closure_loop_def shutdown_check_def el_stop_def no_null_handler_def
      split: loop_closure.split app_closure.split)

lemma demo_timed: "timed (p, demo_state) \<longleftrightarrow> (\<forall>t. wait_time p = Some t \<longrightarrow> 0 \<le> t)"
  by (simp add: timed_def demo_state_def loop_impl_def demo_now loop_config_default_def)

text \<open>A schedule in which the thread runs, its wait ends and another thread posts a task, again and again.\<close>

definition demo_acts :: "nat \<Rightarrow> (nat, demo_rt_world) act" where
  "demo_acts i = (if i mod 3 = 0 then Post i else if i mod 3 = 1 then Run_thread else Wait_ends)"

lemma demo_acts: "fair demo_acts" "timed_waits_end env demo_acts c"
proof -
  have "n \<le> 3 * n + 1 \<and> demo_acts (3 * n + 1) = Run_thread" "n \<le> 3 * n + 2 \<and> demo_acts (3 * n + 2) = Wait_ends" for n
    by (simp_all add: demo_acts_def) presburger
  then show "fair demo_acts" "timed_waits_end env demo_acts c" unfolding fair_def timed_waits_end_def by blast+
qed

text \<open>The stop came during the wait.\<close>

theorem stop_ends_run_witness:
  "\<exists>n r s'. after (rt_env demo_app) demo_acts (At_wait 5, (el_stop (fst demo_state), demo_world)) n = (Returned r, s')
    \<and> \<not> el_running (fst s')"
proof (rule stop_ends_run [OF demo_callbacks demo_careful demo_acts])
  show "timed (At_wait 5, (el_stop (fst demo_state), demo_world))"
    using demo_timed [of "At_wait 5"] by (simp add: timed_def el_stop_def wait_time_def)
qed (simp_all add: in_loop_def el_stop_def no_null_handler_def demo_state_sel)



subsection \<open>Threads that share a timeout manager\<close>

text \<open>C18: The operations of a timeout manager are atomic, although each is executed one statement at a time: whatever its
  threads do, every answer given so far is the one the operation gives when the operations, the firings of
  timeouts included, are executed as a whole one after the other, in the order in which they were settled; and
  whenever the mutex is free, the manager and the loop are as after that, and the count of active timeouts is that
  of the entries.\<close>

theorem timeouts_atomic:
  assumes "tl_run env calls act (tl_start has_loop s) es c"
  shows "\<exists>x. replay env act es (tm_impl\<lparr>tm_loop := has_loop\<rparr>, s) = Some x
    \<and> (tl_mutex c = None \<longrightarrow>
         x = tl_shared c \<and> tst_active (tm_stats (fst x)) = count_active_in_map (tm_entries (fst x)))"
  using tl_run_inv [OF assms tl_start_inv] by (auto simp: tl_inv_def settled_def)

text \<open>One thread starts a timeout and cancels it while another one fires it: the cancelling comes too late. The
  threads take turns within the operations.\<close>

theorem timeouts_atomic_witness:
  "\<exists>es c. drive (rt_env demo_app) (\<lambda>u h ty. []) (\<lambda>u h ty s. s)
      (Begin 0 (Call (Sec_start 5 T_read 100 (Some (User_callback 7)))) # replicate 7 (Go 0)
       @ [Begin 1 (Call (Sec_fire 5 T_read (Some (User_callback 7)))), Go 1, Go 1, Begin 0 (Call (Sec_cancel 5 T_read))]
       @ replicate 7 (Go 1) @ replicate 4 (Go 0)) (tl_start True demo_state) = Some (es, c)
    \<and> es = [Did (0::nat) (Sec_start 5 T_read 100 (Some (User_callback 7))) (Result make_result_void),
           Did 1 (Sec_fire 5 T_read (Some (User_callback 7))) (Fired True), Ran 1 7 5 T_read,
           Did 0 (Sec_cancel 5 T_read) (Result invalid_argument)]
    \<and> replay (rt_env demo_app) (\<lambda>u h ty s. s) es (tm_impl\<lparr>tm_loop := True\<rparr>, demo_state) = Some (tl_shared c)"
proof -
  let ?as = "Begin 0 (Call (Sec_start 5 T_read 100 (Some (User_callback 7)))) # replicate 7 (Go 0)
       @ [Begin 1 (Call (Sec_fire 5 T_read (Some (User_callback 7)))), Go 1, Go 1, Begin 0 (Call (Sec_cancel 5 T_read))]
       @ replicate 7 (Go 1) @ replicate 4 (Go 0)"
  have "\<exists>es c. drive (rt_env demo_app) (\<lambda>u h ty. []) (\<lambda>u h ty s. s) ?as (tl_start True demo_state) = Some (es, c)
    \<and> es = [Did (0::nat) (Sec_start 5 T_read 100 (Some (User_callback 7))) (Result make_result_void),
           Did 1 (Sec_fire 5 T_read (Some (User_callback 7))) (Fired True), Ran 1 7 5 T_read,
           Did 0 (Sec_cancel 5 T_read) (Result invalid_argument)] \<and> tl_mutex c = None"
    by (simp add: manager_eval demo_now demo_state_sel split: prod.split)
  then obtain es c where d: "drive (rt_env demo_app) (\<lambda>u h ty. []) (\<lambda>u h ty s. s) ?as (tl_start True demo_state) = Some (es, c)"
    "es = [Did (0::nat) (Sec_start 5 T_read 100 (Some (User_callback 7))) (Result make_result_void),
           Did 1 (Sec_fire 5 T_read (Some (User_callback 7))) (Fired True), Ran 1 7 5 T_read,
           Did 0 (Sec_cancel 5 T_read) (Result invalid_argument)]" "tl_mutex c = None"
    by blast
  have "tl_run (rt_env demo_app) (\<lambda>u h ty. []) (\<lambda>u h ty s. s) (tl_start True demo_state) es c"
    using drive_run [OF d(1) tl_none] by simp
  from timeouts_atomic [OF this] d(3)
  have "replay (rt_env demo_app) (\<lambda>u h ty s. s) es (tm_impl\<lparr>tm_loop := True\<rparr>, demo_state) = Some (tl_shared c)" by blast
  then show ?thesis using d(1,2) by blast
qed

text \<open>C19: The thread that holds the mutex of the manager gives it back within eight steps of its own and four more for
  every entry, when no callback calls the manager. But the callback of an active timeout that calls it makes its
  thread wait for the mutex it holds: six steps on, the thread waits for ever, the mutex is never free again, and
  no thread ever completes another operation of the manager.\<close>

theorem manager_mutex_released:
  assumes "tl_run env calls act (tl_start has_loop s) es c" and "tl_mutex c = Some t"
  shows "((\<forall>u h ty. calls u h ty = []) \<longrightarrow>
        (\<exists>n \<le> 8 + 4 * length (tm_entries (fst (tl_shared c))). \<exists>c'. steps_of env calls act t n c = Some c' \<and> tl_mutex c' = None))
    \<and> (tl_code c t = Section (Sec_fire h ty (Some (User_callback u))) # is \<and> tm_is_active h ty (fst (tl_shared c))
        \<and> calls u h ty \<noteq> [] \<longrightarrow>
       (\<exists>c'. steps_of env calls act t 6 c = Some c'
         \<and> (\<forall>fs d. tl_run env calls act c' fs d \<longrightarrow>
               advance env calls act t d = None \<and> tl_mutex d = Some t \<and> (\<forall>x sec a. Did x sec a \<notin> set fs))))"
proof (intro conjI impI)
  assume "\<forall>u h ty. calls u h ty = []"
  then show "\<exists>n \<le> 8 + 4 * length (tm_entries (fst (tl_shared c))). \<exists>c'. steps_of env calls act t n c = Some c' \<and> tl_mutex c' = None"
    using owner_unlocks [OF assms] by (simp add: entry_count_def)
next
  assume f: "tl_code c t = Section (Sec_fire h ty (Some (User_callback u))) # is \<and> tm_is_active h ty (fst (tl_shared c)) \<and> calls u h ty \<noteq> []"
  obtain x where "tl_inv env c x" using tl_run_inv [OF assms(1) tl_start_inv] by blast
  then obtain c' where c': "steps_of env calls act t 6 c = Some c'" "self_blocked t c'"
    using callback_blocks [of env c x t h ty u "is" calls act] f by blast
  have "advance env calls act t d = None \<and> tl_mutex d = Some t \<and> (\<forall>x sec a. Did x sec a \<notin> set fs)"
    if "tl_run env calls act c' fs d" for fs d
  proof -
    have d: "self_blocked t d" "\<forall>e \<in> set fs. \<exists>w. e = World w" using self_blocked_run [OF that c'(2)] by simp_all
    then show ?thesis using self_blocked_stuck [OF d(1)] by (auto simp: self_blocked_def)
  qed
  then show "\<exists>c'. steps_of env calls act t 6 c = Some c'
      \<and> (\<forall>fs d. tl_run env calls act c' fs d \<longrightarrow>
            advance env calls act t d = None \<and> tl_mutex d = Some t \<and> (\<forall>x sec a. Did x sec a \<notin> set fs))"
    using c'(1) by blast
qed

text \<open>A callback that cancels its own timeout, and one that does nothing.\<close>

theorem manager_mutex_released_witness:
  "let act = (\<lambda>u h ty s. s); calls = (\<lambda>u h ty. if u = 8 then [Call (Sec_cancel h ty)] else []);
       as = (\<lambda>u. Begin 0 (Call (Sec_start 5 T_read 100 (Some (User_callback u)))) # replicate 7 (Go 0)
                  @ [Begin (1::nat) (Call (Sec_fire 5 T_read (Some (User_callback (u::nat))))), Go 1]) in
   (\<exists>es c c'. drive (rt_env demo_app) calls act (as 8) (tl_start True demo_state) = Some (es, c)
      \<and> steps_of (rt_env demo_app) calls act 1 6 c = Some c'
      \<and> \<not> (\<exists>fs d. tl_run (rt_env demo_app) calls act c' fs d \<and> advance (rt_env demo_app) calls act 1 d \<noteq> None))
   \<and> (\<exists>es c n c'. drive (rt_env demo_app) (\<lambda>u h ty. []) act (as 7) (tl_start True demo_state) = Some (es, c)
      \<and> tl_mutex c = Some 1 \<and> n \<le> 12 \<and> steps_of (rt_env demo_app) (\<lambda>u h ty. []) act 1 n c = Some c' \<and> tl_mutex c' = None)"
proof -
  let ?act = "\<lambda>u h ty s. s" and ?calls = "\<lambda>u h ty. if u = 8 then [Call (Sec_cancel h ty)] else []"
  let ?as = "\<lambda>u. Begin 0 (Call (Sec_start 5 T_read 100 (Some (User_callback u)))) # replicate 7 (Go 0)
                  @ [Begin (1::nat) (Call (Sec_fire 5 T_read (Some (User_callback (u::nat))))), Go 1]"
  have drv: "\<exists>es c. drive (rt_env demo_app) calls ?act (?as u) (tl_start True demo_state) = Some (es, c)
      \<and> tl_mutex c = Some 1 \<and> tl_code c 1 = [Section (Sec_fire 5 T_read (Some (User_callback u))), Unlock]
      \<and> tm_is_active 5 T_read (fst (tl_shared c)) \<and> length (tm_entries (fst (tl_shared c))) = 1" for calls u
    by (simp add: manager_eval demo_now demo_state_sel tm_is_active_def split: prod.split)
  obtain es c where d: "drive (rt_env demo_app) ?calls ?act (?as 8) (tl_start True demo_state) = Some (es, c)"
    "tl_mutex c = Some 1" "tl_code c 1 = [Section (Sec_fire 5 T_read (Some (User_callback 8))), Unlock]"
    "tm_is_active 5 T_read (fst (tl_shared c))"
    using drv [of ?calls 8] by blast
  obtain es2 c2 where d2: "drive (rt_env demo_app) (\<lambda>u h ty. []) ?act (?as 7) (tl_start True demo_state) = Some (es2, c2)"
    "tl_mutex c2 = Some 1" "length (tm_entries (fst (tl_shared c2))) = 1"
    using drv [of "\<lambda>u h ty. []" 7] by blast
  have "tl_run (rt_env demo_app) ?calls ?act (tl_start True demo_state) es c" using drive_run [OF d(1) tl_none] by simp
  from manager_mutex_released [OF this d(2), of 5 T_read 8 "[Unlock]"] d(3,4)
  obtain c' where 1: "steps_of (rt_env demo_app) ?calls ?act 1 6 c = Some c'"
      "\<not> (\<exists>fs d. tl_run (rt_env demo_app) ?calls ?act c' fs d \<and> advance (rt_env demo_app) ?calls ?act 1 d \<noteq> None)"
    by auto
  have "tl_run (rt_env demo_app) (\<lambda>u h ty. []) ?act (tl_start True demo_state) es2 c2" using drive_run [OF d2(1) tl_none] by simp
  from manager_mutex_released [OF this d2(2)] d2(3)
  obtain n c2' where "n \<le> 12" "steps_of (rt_env demo_app) (\<lambda>u h ty. []) ?act 1 n c2 = Some c2'" "tl_mutex c2' = None"
    by auto
  then show ?thesis unfolding Let_def using 1 d(1) d2 by blast
qed

subsection \<open>Threads that call \<open>run\<close>\<close>

text \<open>C31: One thread at most is in \<open>run\<close> of a loop in every history in which no thread tests the flag \<open>running\<close>
  between another one's test and its setting; in the history where a second thread does, both enter the loop.\<close>

theorem run_entered_once_unless_tests_overlap:
  assumes "callbacks_use_api env" and "\<not> el_running (fst s)"
  shows "((runners_step env)\<^sup>*\<^sup>* ((\<lambda>x. At_entry), s) (ps, s') \<and> in_run (ps t) \<and> in_run (ps u) \<longrightarrow> t = u)
    \<and> (t \<noteq> u \<longrightarrow> fold (run_on env) [t, u, t, u, t, u] ((\<lambda>x. At_entry), s)
        = ((\<lambda>x. At_entry)(t := At_check, u := At_check), (fst s)\<lparr>el_running := True, el_stopped := False\<rparr>, snd s))"
proof (intro conjI impI)
  assume "(runners_step env)\<^sup>*\<^sup>* ((\<lambda>x. At_entry), s) (ps, s') \<and> in_run (ps t) \<and> in_run (ps u)"
  then show "t = u" using one_runner_reachable [OF assms, of "(ps, s')"] by (auto simp: one_runner_def)
qed (rule both_enter [OF assms(2)], simp_all)

text \<open>Two threads, one after the other and at the same time.\<close>

theorem run_entered_once_unless_tests_overlap_witness:
  "let env = rt_env demo_app; start = ((\<lambda>x. At_entry), demo_state) in
   (runners_step env)\<^sup>*\<^sup>* start (fold (run_on env) [0 :: nat, 0, 1] start)
   \<and> in_run (fst (fold (run_on env) [0, 0, 1] start) 0) \<and> \<not> in_run (fst (fold (run_on env) [0, 0, 1] start) 1)
   \<and> fst (fold (run_on env) [0, 1, 0, 1, 0, 1] start) 0 = At_check
   \<and> fst (fold (run_on env) [0, 1, 0, 1, 0, 1] start) 1 = At_check"
proof -
  let ?env = "rt_env demo_app" and ?start = "((\<lambda>x :: nat. At_entry), demo_state)"
  let ?c = "fold (run_on ?env) [0, 0, 1] ?start"
  have move: "runners_step ?env c (run_on ?env t c)" if "fst c t = At_entry \<Longrightarrow> \<forall>u. fst c u \<noteq> At_set_running" for c t
    using rs_move [of "fst c" t ?env "snd c"] that by simp
  have "runners_step ?env ?start (run_on ?env 0 ?start)" by (rule move) simp
  moreover have "runners_step ?env (run_on ?env 0 ?start) (run_on ?env 0 (run_on ?env 0 ?start))"
    by (rule move) (simp add: run_on_def demo_state_sel)
  moreover have "runners_step ?env (run_on ?env 0 (run_on ?env 0 ?start)) (run_on ?env 1 (run_on ?env 0 (run_on ?env 0 ?start)))"
    by (rule move) (auto simp: run_on_def demo_state_sel)
  ultimately have r: "(runners_step ?env)\<^sup>*\<^sup>* ?start ?c" by simp
  have 0: "in_run (fst ?c 0)" by (simp add: run_on_def demo_state_sel in_run_def)
  have nr: "\<not> el_running (fst demo_state)" by (simp add: demo_state_sel)
  have "\<not> in_run (fst ?c 1)"
    using run_entered_once_unless_tests_overlap [OF demo_callbacks nr, of "fst ?c" "snd ?c" 0 1] r 0
    by (metis prod.collapse zero_neq_one)
  then show ?thesis
    using run_entered_once_unless_tests_overlap [OF demo_callbacks nr, of "fst ?c" "snd ?c" 0 1] r 0
    unfolding Let_def by simp
qed

end
