(* ===== verification/Dns_Resolver.thy ===== *)
theory Dns_Resolver
  imports Tcp_Socket "HOL-Library.AList" "HOL-Library.Multiset"
begin

text \<open>
  \<open>include/vynx_http/dns_resolver.h\<close> and \<open>src/dns_resolver.cpp\<close>: the caching resolver over
  \<open>getaddrinfo\<close> and the connection loop on top of it. The cache is an association list in the order an
  iteration over the \<open>unordered_map\<close> takes; the record data is the list of its bytes; times are
  nanoseconds of the steady clock. The cache mutex excludes other threads and is left out
  here; \<open>Dns_Threads\<close> brings the threads back.
\<close>

datatype dns_record_type = Rec_a | Rec_aaaa | Rec_cname | Rec_mx | Rec_ns | Rec_txt | Rec_srv

record dns_record =
  dr_type :: dns_record_type
  dr_name :: string
  dr_data :: "8 word list"
  dr_ttl :: "32 word"
  dr_expiry :: int
  dr_priority :: "16 word"
  dr_port :: "16 word"

record dns_result =
  dn_records :: "dns_record list"
  dn_query_time :: int
  dn_from_cache :: bool

record dns_config =
  dc_primary_server :: string
  dc_secondary_server :: string
  dc_port :: "16 word"
  dc_timeout :: int
  dc_max_cache_size :: nat
  dc_cache_ttl :: int
  dc_enable_ipv6 :: bool
  dc_enable_canonical_names :: bool

definition dns_config_default :: dns_config where
  "dns_config_default =
     \<lparr>dc_primary_server = ''8.8.8.8'', dc_secondary_server = ''8.8.4.4'', dc_port = 53, dc_timeout = 5,
      dc_max_cache_size = 1024, dc_cache_ttl = 300, dc_enable_ipv6 = True, dc_enable_canonical_names = True\<rparr>"

record dns_cache_entry =
  ce_result :: dns_result
  ce_inserted :: int
  ce_ttl :: int

type_synonym dns_cache = "(string \<times> dns_cache_entry) list"

record dns_resolver =
  ds_config :: dns_config
  ds_cache :: dns_cache
  ds_hits :: nat
  ds_misses :: nat
  ds_expired :: nat

definition dns_create :: "dns_config \<Rightarrow> dns_resolver" where
  "dns_create cfg = \<lparr>ds_config = cfg, ds_cache = [], ds_hits = 0, ds_misses = 0, ds_expired = 0\<rparr>"

subsection \<open>The cache\<close>

definition sec_ns :: "int \<Rightarrow> int" where
  "sec_ns s = s * 1000000000"

definition entry_end :: "dns_cache_entry \<Rightarrow> int" where
  "entry_end e = ce_inserted e + sec_ns (ce_ttl e)"

definition is_cache_valid :: "int \<Rightarrow> dns_cache_entry \<Rightarrow> bool" where
  "is_cache_valid now e \<longleftrightarrow> now < entry_end e"

fun evict_loop :: "int \<Rightarrow> dns_cache \<Rightarrow> dns_cache \<times> nat" where
  "evict_loop now [] = ([], 0)"
| "evict_loop now ((k, e) # c) =
     (case evict_loop now c of
        (c', n) \<Rightarrow> if now \<ge> entry_end e then (c', Suc n) else ((k, e) # c', n))"

definition evict_expired :: "int \<Rightarrow> dns_resolver \<Rightarrow> dns_resolver" where
  "evict_expired now r =
     (case evict_loop now (ds_cache r) of (c, n) \<Rightarrow> r\<lparr>ds_cache := c, ds_expired := ds_expired r + n\<rparr>)"

text \<open>\<open>std::min_element\<close>: the first entry no other is older than.\<close>

fun oldest_from :: "string \<times> dns_cache_entry \<Rightarrow> dns_cache \<Rightarrow> string \<times> dns_cache_entry" where
  "oldest_from b [] = b"
| "oldest_from b (x # xs) = oldest_from (if ce_inserted (snd x) < ce_inserted (snd b) then x else b) xs"

definition evict_oldest_if_needed :: "dns_resolver \<Rightarrow> dns_resolver" where
  "evict_oldest_if_needed r =
     (if length (ds_cache r) \<le> dc_max_cache_size (ds_config r) then r
      else if ds_cache r = [] then r
      else r\<lparr>ds_cache := AList.delete (fst (oldest_from (hd (ds_cache r)) (tl (ds_cache r)))) (ds_cache r)\<rparr>)"

subsection \<open>Resolution\<close>

fun addresses_of :: "bool \<Rightarrow> sockaddr list \<Rightarrow> socket_address list" where
  "addresses_of ipv6 [] = []"
| "addresses_of ipv6 (AF_inet a # as) = Ipv4 (address_of_in a) # addresses_of ipv6 as"
| "addresses_of ipv6 (AF_inet6 a # as) =
     (if ipv6 then Ipv6 (address_of_in6 a) # addresses_of ipv6 as else addresses_of ipv6 as)"
| "addresses_of ipv6 (AF_other # as) = addresses_of ipv6 as"

definition resolve_addresses :: "'w os_api \<Rightarrow> dns_config \<Rightarrow> string \<Rightarrow> 'w \<Rightarrow> socket_address list \<times> 'w" where
  "resolve_addresses os cfg host w =
     (case os_getaddrinfo os host (to_string (unat (dc_port cfg))) w of
        ((status, infos), w1) \<Rightarrow>
          (if status \<noteq> 0 then [] else addresses_of (dc_enable_ipv6 cfg) infos, w1))"

text \<open>An address a cached record stands for; records of other types or sizes are skipped.\<close>

definition record_address :: "dns_config \<Rightarrow> dns_record \<Rightarrow> socket_address option" where
  "record_address cfg rc =
     (if dr_type rc = Rec_a \<and> length (dr_data rc) = 4
      then Some (Ipv4 \<lparr>v4_bytes = dr_data rc, v4_port = dc_port cfg\<rparr>)
      else if dr_type rc = Rec_aaaa \<and> length (dr_data rc) = 16
      then Some (Ipv6 \<lparr>v6_bytes = dr_data rc, v6_port = dc_port cfg, v6_scope_id = 0\<rparr>)
      else None)"

definition address_record :: "dns_config \<Rightarrow> string \<Rightarrow> int \<Rightarrow> socket_address \<Rightarrow> dns_record" where
  "address_record cfg host expiry a =
     \<lparr>dr_type = (case a of Ipv4 _ \<Rightarrow> Rec_a | Ipv6 _ \<Rightarrow> Rec_aaaa), dr_name = host,
      dr_data = (case a of Ipv4 v \<Rightarrow> v4_bytes v | Ipv6 v \<Rightarrow> v6_bytes v),
      dr_ttl = of_int (dc_cache_ttl cfg), dr_expiry = expiry, dr_priority = 0, dr_port = dc_port cfg\<rparr>"

definition cache_entry :: "dns_config \<Rightarrow> string \<Rightarrow> int \<Rightarrow> socket_address list \<Rightarrow> dns_cache_entry" where
  "cache_entry cfg host now addrs =
     \<lparr>ce_result = \<lparr>dn_records = map (address_record cfg host (now + sec_ns (dc_cache_ttl cfg))) addrs,
                  dn_query_time = now, dn_from_cache = False\<rparr>,
      ce_inserted = now, ce_ttl = dc_cache_ttl cfg\<rparr>"

text \<open>After a miss: ask the system and remember the answer.\<close>

definition resolve_miss :: "'w os_api \<Rightarrow> string \<Rightarrow> dns_resolver \<Rightarrow> 'w \<Rightarrow> socket_address list result \<times> dns_resolver \<times> 'w" where
  "resolve_miss os host r w =
     (let r1 = r\<lparr>ds_misses := ds_misses r + 1\<rparr> in
      case resolve_addresses os (ds_config r) host w of
        (addrs, w1) \<Rightarrow>
          if addrs = [] then (Inl dns_resolution_failed, r1, w1)
          else let r2 = evict_oldest_if_needed r1 in
               case os_now os w1 of
                 (now, w2) \<Rightarrow>
                   (Inr addrs, r2\<lparr>ds_cache := AList.update host (cache_entry (ds_config r) host now addrs) (ds_cache r2)\<rparr>, w2))"

definition dns_resolve :: "'w os_api \<Rightarrow> string \<Rightarrow> dns_resolver \<Rightarrow> 'w \<Rightarrow> socket_address list result \<times> dns_resolver \<times> 'w" where
  "dns_resolve os host r w =
     (case map_of (ds_cache r) host of
        None \<Rightarrow> resolve_miss os host r w
      | Some e \<Rightarrow>
          (case os_now os w of
             (now, w1) \<Rightarrow>
               if is_cache_valid now e
               then (Inr (List.map_filter (record_address (ds_config r)) (dn_records (ce_result e))),
                     r\<lparr>ds_hits := ds_hits r + 1\<rparr>, w1)
               else resolve_miss os host
                      (r\<lparr>ds_cache := AList.delete host (ds_cache r), ds_expired := ds_expired r + 1\<rparr>) w1))"

text \<open>What the callback of \<open>resolve_async\<close> is called with.\<close>

definition resolve_async ::
  "'w os_api \<Rightarrow> string \<Rightarrow> dns_resolver \<Rightarrow> 'w \<Rightarrow> (error_code \<times> socket_address list) \<times> dns_resolver \<times> 'w" where
  "resolve_async os host r w =
     (case dns_resolve os host r w of
        (Inl e, r1, w1) \<Rightarrow> ((e, []), r1, w1)
      | (Inr addrs, r1, w1) \<Rightarrow> ((ec_ok, addrs), r1, w1))"

fun fresh_records ::
  "'w os_api \<Rightarrow> dns_config \<Rightarrow> string \<Rightarrow> dns_record_type \<Rightarrow> socket_address list \<Rightarrow> 'w \<Rightarrow> dns_record list \<times> 'w" where
  "fresh_records os cfg host ty [] w = ([], w)"
| "fresh_records os cfg host ty (a # as) w =
     (case os_now os w of
        (now, w1) \<Rightarrow>
          let rc = address_record cfg host (now + sec_ns (dc_cache_ttl cfg)) a in
          case fresh_records os cfg host ty as w1 of
            (rcs, w2) \<Rightarrow> (if dr_type rc = ty then rc # rcs else rcs, w2))"

definition resolve_record_fresh ::
  "'w os_api \<Rightarrow> string \<Rightarrow> dns_record_type \<Rightarrow> dns_resolver \<Rightarrow> 'w \<Rightarrow> dns_record list result \<times> 'w" where
  "resolve_record_fresh os host ty r w =
     (case resolve_addresses os (ds_config r) host w of
        (addrs, w1) \<Rightarrow>
          (case fresh_records os (ds_config r) host ty addrs w1 of
             (rcs, w2) \<Rightarrow> (if rcs = [] \<and> addrs = [] then Inl dns_resolution_failed else Inr rcs, w2)))"

definition resolve_record ::
  "'w os_api \<Rightarrow> string \<Rightarrow> dns_record_type \<Rightarrow> dns_resolver \<Rightarrow> 'w \<Rightarrow> dns_record list result \<times> 'w" where
  "resolve_record os host ty r w =
     (case map_of (ds_cache r) host of
        None \<Rightarrow> resolve_record_fresh os host ty r w
      | Some e \<Rightarrow>
          (case os_now os w of
             (now, w1) \<Rightarrow>
               if is_cache_valid now e
               then (Inr (filter (\<lambda>rc. dr_type rc = ty) (dn_records (ce_result e))), w1)
               else resolve_record_fresh os host ty r w1))"

definition clear_cache :: "dns_resolver \<Rightarrow> dns_resolver" where
  "clear_cache r = r\<lparr>ds_cache := []\<rparr>"

record cache_stats =
  cs_size :: nat
  cs_hits :: nat
  cs_misses :: nat
  cs_expired :: nat

definition get_cache_stats :: "dns_resolver \<Rightarrow> cache_stats" where
  "get_cache_stats r =
     \<lparr>cs_size = length (ds_cache r), cs_hits = ds_hits r, cs_misses = ds_misses r, cs_expired = ds_expired r\<rparr>"

definition update_config :: "dns_config \<Rightarrow> dns_resolver \<Rightarrow> dns_resolver" where
  "update_config cfg r = r\<lparr>ds_config := cfg\<rparr>"

subsection \<open>Happy Eyeballs\<close>

record happy_eyeballs_config =
  hc_connection_delay :: int
  hc_dns_timeout :: int
  hc_connect_timeout :: int
  hc_enable_ipv4 :: bool
  hc_enable_ipv6 :: bool
  hc_prefer_ipv6 :: bool

definition happy_eyeballs_default :: happy_eyeballs_config where
  "happy_eyeballs_default =
     \<lparr>hc_connection_delay = 250, hc_dns_timeout = 5000, hc_connect_timeout = 3000,
      hc_enable_ipv4 = True, hc_enable_ipv6 = True, hc_prefer_ipv6 = False\<rparr>"

text \<open>The object refers to its resolver, which the operations take and return.\<close>

record happy_eyeballs =
  he_config :: happy_eyeballs_config

definition he_create :: "happy_eyeballs_config \<Rightarrow> happy_eyeballs" where
  "he_create cfg = \<lparr>he_config = cfg\<rparr>"

definition is_ipv4 :: "socket_address \<Rightarrow> bool" where
  "is_ipv4 a = (case a of Ipv4 _ \<Rightarrow> True | Ipv6 _ \<Rightarrow> False)"

definition at :: "'a list \<Rightarrow> nat \<Rightarrow> 'a list" where
  "at xs i = (if i < length xs then [xs ! i] else [])"

definition interleave :: "bool \<Rightarrow> socket_address list \<Rightarrow> socket_address list \<Rightarrow> socket_address list" where
  "interleave prefer6 v4 v6 =
     concat (map (\<lambda>i. if prefer6 then at v6 i @ at v4 i else at v4 i @ at v6 i) [0..<max (length v4) (length v6)])"

text \<open>One attempt per address, each to the host by name; a socket that fails is closed by its destructor.\<close>

fun connect_with_addresses ::
  "'w os_api \<Rightarrow> string \<Rightarrow> 16 word \<Rightarrow> socket_address list \<Rightarrow> 'w \<Rightarrow> tcp_socket result \<times> 'w" where
  "connect_with_addresses os host port [] w = (Inl connection_refused, w)"
| "connect_with_addresses os host port (a # as) w =
     (case tcp_create os w of
        (Inl _, w1) \<Rightarrow> connect_with_addresses os host port as w1
      | (Inr sock, w1) \<Rightarrow>
          (case tcp_connect os host port sock w1 of
             (r, sock', w2) \<Rightarrow>
               if v_ok r then (Inr sock', w2)
               else connect_with_addresses os host port as (tcp_destroy os sock' w2)))"

definition he_connect ::
  "'w os_api \<Rightarrow> happy_eyeballs \<Rightarrow> string \<Rightarrow> 16 word \<Rightarrow> dns_resolver \<Rightarrow> 'w \<Rightarrow>
   tcp_socket result \<times> dns_resolver \<times> 'w" where
  "he_connect os he host port r w =
     (case dns_resolve os host r w of
        (Inl _, r1, w1) \<Rightarrow> (Inl dns_resolution_failed, r1, w1)
      | (Inr addrs, r1, w1) \<Rightarrow>
          (case connect_with_addresses os host port
                  (interleave (hc_prefer_ipv6 (he_config he)) (filter is_ipv4 addrs) (filter (\<lambda>a. \<not> is_ipv4 a) addrs)) w1 of
             (res, w2) \<Rightarrow> (res, r1, w2)))"

definition he_connect_async ::
  "'w os_api \<Rightarrow> happy_eyeballs \<Rightarrow> string \<Rightarrow> 16 word \<Rightarrow> dns_resolver \<Rightarrow> 'w \<Rightarrow>
   (error_code \<times> tcp_socket) \<times> dns_resolver \<times> 'w" where
  "he_connect_async os he host port r w =
     (case he_connect os he host port r w of
        (Inl e, r1, w1) \<Rightarrow> ((e, tcp_invalid), r1, w1)
      | (Inr sock, r1, w1) \<Rightarrow> ((ec_ok, sock), r1, w1))"

end
