(* ===== verification/Dns_Facts.thy ===== *)
theory Dns_Facts
  imports Dns_Resolver
begin

text \<open>
  Facts about the resolver and the connection loop: the size of the cache, what a cached answer is, and
  the order and the use of the addresses.
\<close>

subsection \<open>The cache\<close>

definition dns_ok :: "dns_resolver \<Rightarrow> bool" where
  "dns_ok r \<longleftrightarrow> distinct (map fst (ds_cache r))"

lemma oldest_from_in: "oldest_from b xs \<in> set (b # xs)"
proof (induction xs arbitrary: b)
  case (Cons x xs)
  show ?case using Cons.IH [of "if ce_inserted (snd x) < ce_inserted (snd b) then x else b"] by auto
qed simp

lemma oldest_from_least: "y \<in> set (b # xs) \<Longrightarrow> ce_inserted (snd (oldest_from b xs)) \<le> ce_inserted (snd y)"
proof (induction xs arbitrary: b y)
  case (Cons x xs)
  let ?b = "if ce_inserted (snd x) < ce_inserted (snd b) then x else b"
  have b: "ce_inserted (snd (oldest_from ?b xs)) \<le> ce_inserted (snd ?b)" by (rule Cons.IH) simp
  show ?case
  proof (cases "y \<in> set xs")
    case True
    then show ?thesis using Cons.IH [of y ?b] by simp
  next
    case False
    then have "y = b \<or> y = x" using Cons.prems by auto
    then show ?thesis using b by (auto split: if_splits)
  qed
qed simp

lemma length_delete: "distinct (map fst c) \<Longrightarrow> length (AList.delete k c) = (if k \<in> fst ` set c then length c - 1 else length c)"
proof (induction c)
  case (Cons x c)
  then show ?case by (cases c) (auto simp: AList.delete_notin_dom)
qed simp

lemma length_update: "length (AList.update k v c) = (if k \<in> fst ` set c then length c else Suc (length c))"
  by (induction c) auto

lemma evict_oldest_length:
  assumes "dns_ok r"
  shows "length (ds_cache (evict_oldest_if_needed r)) =
      (if length (ds_cache r) \<le> dc_max_cache_size (ds_config r) then length (ds_cache r) else length (ds_cache r) - 1)"
    and "dns_ok (evict_oldest_if_needed r)" and "ds_config (evict_oldest_if_needed r) = ds_config r"
proof -
  show "ds_config (evict_oldest_if_needed r) = ds_config r"
    by (simp add: evict_oldest_if_needed_def)
  show "dns_ok (evict_oldest_if_needed r)"
    using assms by (simp add: evict_oldest_if_needed_def dns_ok_def distinct_delete)
  show "length (ds_cache (evict_oldest_if_needed r)) =
      (if length (ds_cache r) \<le> dc_max_cache_size (ds_config r) then length (ds_cache r) else length (ds_cache r) - 1)"
  proof (cases "ds_cache r = []")
    case False
    then have "fst (oldest_from (hd (ds_cache r)) (tl (ds_cache r))) \<in> fst ` set (ds_cache r)"
      using oldest_from_in [of "hd (ds_cache r)" "tl (ds_cache r)"] by simp
    then show ?thesis using assms False length_delete [of "ds_cache r"]
      by (simp add: evict_oldest_if_needed_def dns_ok_def)
  qed (simp add: evict_oldest_if_needed_def)
qed

subsection \<open>Cached answers\<close>

definition address_ok :: "socket_address \<Rightarrow> bool" where
  "address_ok a \<longleftrightarrow> (case a of Ipv4 v \<Rightarrow> length (v4_bytes v) = 4 | Ipv6 v \<Rightarrow> length (v6_bytes v) = 16)"

text \<open>What a cached address looks like: the port of the configuration, no scope.\<close>

definition cached_address :: "dns_config \<Rightarrow> socket_address \<Rightarrow> socket_address" where
  "cached_address cfg a = (case a of Ipv4 v \<Rightarrow> Ipv4 (v\<lparr>v4_port := dc_port cfg\<rparr>)
     | Ipv6 v \<Rightarrow> Ipv6 (v\<lparr>v6_port := dc_port cfg, v6_scope_id := 0\<rparr>))"

lemma record_address_record: "address_ok a \<Longrightarrow> record_address cfg (address_record cfg host x a) = Some (cached_address cfg a)"
  by (cases a) (auto simp: record_address_def address_record_def address_ok_def cached_address_def)

lemma records_round_trip:
  "list_all address_ok addrs \<Longrightarrow>
   List.map_filter (record_address cfg) (map (address_record cfg host x) addrs) = map (cached_address cfg) addrs"
  by (induction addrs) (simp_all add: List.map_filter_simps record_address_record)

lemma resolve_miss_then_hit:
  assumes m: "resolve_miss os host r w = (Inr addrs, r1, w1)" and a: "list_all address_ok addrs"
  shows "\<exists>e. map_of (ds_cache r1) host = Some e \<and> ds_config r1 = ds_config r
    \<and> (\<forall>now w2 w3. os_now os w2 = (now, w3) \<and> is_cache_valid now e \<longrightarrow>
        dns_resolve os host r1 w2 = (Inr (map (cached_address (ds_config r)) addrs), r1\<lparr>ds_hits := ds_hits r1 + 1\<rparr>, w3))"
proof -
  obtain now c where r1: "r1 = (evict_oldest_if_needed (r\<lparr>ds_misses := ds_misses r + 1\<rparr>))
      \<lparr>ds_cache := AList.update host (cache_entry (ds_config r) host now addrs) c\<rparr>"
    using m by (auto simp: resolve_miss_def Let_def split: prod.splits if_splits)
  let ?e = "cache_entry (ds_config r) host now addrs"
  have cfg: "ds_config r1 = ds_config r"
    by (simp add: r1 evict_oldest_if_needed_def)
  have mp: "map_of (ds_cache r1) host = Some ?e" by (simp add: r1 update_conv')
  have "dns_resolve os host r1 w2 = (Inr (map (cached_address (ds_config r)) addrs), r1\<lparr>ds_hits := ds_hits r1 + 1\<rparr>, w3)"
    if "os_now os w2 = (t, w3)" "is_cache_valid t ?e" for t w2 w3
    using that mp records_round_trip [OF a]
    by (simp add: dns_resolve_def cfg) (simp add: cache_entry_def)
  then show ?thesis using mp cfg by blast
qed

subsection \<open>Happy Eyeballs\<close>

fun alternate :: "'a list \<Rightarrow> 'a list \<Rightarrow> 'a list" where
  "alternate [] ys = ys"
| "alternate xs [] = xs"
| "alternate (x # xs) (y # ys) = x # y # alternate xs ys"

lemma concat_at: "concat (map (at xs) [0..<length xs]) = xs"
proof -
  have "concat (map (\<lambda>i. [xs ! i]) js) = map ((!) xs) js" for js by (induction js) simp_all
  moreover have "map (at xs) [0..<length xs] = map (\<lambda>i. [xs ! i]) [0..<length xs]" by (simp add: at_def)
  ultimately show ?thesis by (simp only: map_nth)
qed

lemma at_Cons_Suc [simp]: "at (x # xs) (Suc i) = at xs i" "at (x # xs) 0 = [x]" "at [] i = []"
  by (simp_all add: at_def)

lemma interleave_alternate_aux:
  "concat (map (\<lambda>i. at xs i @ at ys i) [0..<max (length xs) (length ys)]) = alternate xs ys"
proof (induction xs ys rule: alternate.induct)
  case (1 ys)
  then show ?case using concat_at [of ys] by simp
next
  case (2 v va)
  then show ?case using concat_at [of "v # va"] by simp
next
  case (3 x xs y ys)
  have "[0..<max (length (x # xs)) (length (y # ys))] = 0 # map Suc [0..<max (length xs) (length ys)]"
    by (simp add: upt_conv_Cons map_Suc_upt del: upt_Suc)
  then show ?case using 3 by (simp add: comp_def del: upt_Suc)
qed

lemma interleave_alternate: "interleave p v4 v6 = (if p then alternate v6 v4 else alternate v4 v6)"
  using interleave_alternate_aux [of v4 v6] interleave_alternate_aux [of v6 v4]
  by (simp add: interleave_def max.commute)

lemma mset_alternate: "mset (alternate xs ys) = mset xs + mset ys"
  by (induction xs ys rule: alternate.induct) auto

lemma connect_ignores_addresses:
  "length as = length bs \<Longrightarrow> connect_with_addresses os host port as w = connect_with_addresses os host port bs w"
proof (induction as arbitrary: bs w)
  case (Cons a as)
  then obtain b bs' where "bs = b # bs'" "length as = length bs'" by (cases bs) auto
  then show ?case using Cons.IH [of bs'] by (auto split: prod.split sum.split)
qed simp

end
