(* ===== verification/Dns_Threads.thy ===== *)
theory Dns_Threads
  imports Dns_Facts
begin

text \<open>
  A resolver used by several threads. \<open>dns_resolver::resolve\<close> holds the cache mutex while it looks into the
  cache and while it stores an answer; between the two it counts the miss and asks the system without the
  mutex. Each part is a step; the steps of any number of threads interleave.
\<close>

datatype dns_place =
    Dns_idle
  | Dns_called string
  | Dns_missed string
  | Dns_asking string
  | Dns_answered string "socket_address list"
  | Dns_done string "socket_address list result"

text \<open>The look into the cache, and the store.\<close>

definition cache_lookup :: "'w os_api \<Rightarrow> string \<Rightarrow> dns_resolver \<Rightarrow> 'w \<Rightarrow> socket_address list option \<times> dns_resolver \<times> 'w" where
  "cache_lookup os host r w =
     (case map_of (ds_cache r) host of
        None \<Rightarrow> (None, r, w)
      | Some e \<Rightarrow>
          (case os_now os w of
             (now, w1) \<Rightarrow>
               if is_cache_valid now e
               then (Some (List.map_filter (record_address (ds_config r)) (dn_records (ce_result e))),
                     r\<lparr>ds_hits := ds_hits r + 1\<rparr>, w1)
               else (None, r\<lparr>ds_cache := AList.delete host (ds_cache r), ds_expired := ds_expired r + 1\<rparr>, w1)))"

definition cache_store :: "'w os_api \<Rightarrow> string \<Rightarrow> socket_address list \<Rightarrow> dns_resolver \<Rightarrow> 'w \<Rightarrow> dns_resolver \<times> 'w" where
  "cache_store os host addrs r w =
     (let r1 = evict_oldest_if_needed r in
      case os_now os w of
        (now, w1) \<Rightarrow> (r1\<lparr>ds_cache := AList.update host (cache_entry (ds_config r1) host now addrs) (ds_cache r1)\<rparr>, w1))"

fun resolve_step :: "'w os_api \<Rightarrow> dns_place \<times> dns_resolver \<times> 'w \<Rightarrow> dns_place \<times> dns_resolver \<times> 'w" where
  "resolve_step os (Dns_called host, r, w) =
     (case cache_lookup os host r w of
        (Some addrs, r1, w1) \<Rightarrow> (Dns_done host (Inr addrs), r1, w1)
      | (None, r1, w1) \<Rightarrow> (Dns_missed host, r1, w1))"
| "resolve_step os (Dns_missed host, r, w) = (Dns_asking host, r\<lparr>ds_misses := ds_misses r + 1\<rparr>, w)"
| "resolve_step os (Dns_asking host, r, w) =
     (case resolve_addresses os (ds_config r) host w of
        (addrs, w1) \<Rightarrow>
          (if addrs = [] then Dns_done host (Inl dns_resolution_failed) else Dns_answered host addrs, r, w1))"
| "resolve_step os (Dns_answered host addrs, r, w) =
     (case cache_store os host addrs r w of (r1, w1) \<Rightarrow> (Dns_done host (Inr addrs), r1, w1))"
| "resolve_step os (Dns_idle, r, w) = (Dns_idle, r, w)"
| "resolve_step os (Dns_done host res, r, w) = (Dns_done host res, r, w)"

type_synonym ('t, 'w) dns_threads = "('t \<Rightarrow> dns_place) \<times> dns_resolver \<times> 'w"

inductive dns_threads_step :: "'w os_api \<Rightarrow> ('t, 'w) dns_threads \<Rightarrow> ('t, 'w) dns_threads \<Rightarrow> bool" for os where
  dns_call: "ps t = Dns_idle \<or> (\<exists>h res. ps t = Dns_done h res) \<Longrightarrow>
    dns_threads_step os (ps, r, w) (ps(t := Dns_called host), r, w)"
| dns_move: "resolve_step os (ps t, r, w) = (p, r', w') \<Longrightarrow> dns_threads_step os (ps, r, w) (ps(t := p), r', w')"
| dns_clear: "dns_threads_step os (ps, r, w) (ps, clear_cache r, w)"
| dns_elsewhere: "dns_threads_step os (ps, r, w) (ps, r, w')"

subsection \<open>A thread alone computes \<open>resolve\<close>\<close>

lemma evict_upd_misses [simp]:
  "ds_config (evict_oldest_if_needed r) = ds_config r"
  by (simp add: evict_oldest_if_needed_def)

lemma resolve_is_its_steps:
  assumes "dns_resolve os host r w = (res, r', w')"
  shows "\<exists>n. (resolve_step os ^^ n) (Dns_called host, r, w) = (Dns_done host res, r', w')"
proof -
  have miss: "\<exists>n. (resolve_step os ^^ n) (Dns_missed host, r1, w1) = (Dns_done host res, r', w')"
    if m: "resolve_miss os host r1 w1 = (res, r', w')" for r1 w1
  proof -
    obtain addrs w2 where a: "resolve_addresses os (ds_config r1) host w1 = (addrs, w2)" by fastforce
    have "(resolve_step os ^^ (if addrs = [] then 2 else 3)) (Dns_missed host, r1, w1) = (Dns_done host res, r', w')"
      using m a by (auto simp: resolve_miss_def Let_def cache_store_def numeral_2_eq_2 numeral_3_eq_3 split: prod.splits)
    then show ?thesis by blast
  qed
  obtain hit r1 w1 where l: "cache_lookup os host r w = (hit, r1, w1)" by (cases "cache_lookup os host r w")
  show ?thesis
  proof (cases hit)
    case (Some addrs)
    then have "(resolve_step os ^^ 1) (Dns_called host, r, w) = (Dns_done host res, r', w')"
      using l assms by (auto simp: cache_lookup_def dns_resolve_def split: option.splits prod.splits if_splits)
    then show ?thesis by blast
  next
    case None
    then have "resolve_miss os host r1 w1 = (res, r', w')"
      using l assms by (auto simp: cache_lookup_def dns_resolve_def split: option.splits prod.splits if_splits)
    from miss [OF this] obtain n where "(resolve_step os ^^ n) (Dns_missed host, r1, w1) = (Dns_done host res, r', w')"
      by blast
    then have "(resolve_step os ^^ Suc n) (Dns_called host, r, w) = (Dns_done host res, r', w')"
      using l None by (simp add: funpow_Suc_right del: funpow.simps)
    then show ?thesis by blast
  qed
qed

text \<open>One thread's call among the others.\<close>

lemma thread_steps:
  "(resolve_step os ^^ n) (ps t, r, w) = (p, r', w') \<Longrightarrow> (dns_threads_step os)\<^sup>*\<^sup>* (ps, r, w) (ps(t := p), r', w')"
proof (induction n arbitrary: p r' w')
  case (Suc n)
  obtain p1 r1 w1 where n: "(resolve_step os ^^ n) (ps t, r, w) = (p1, r1, w1)" by (cases "(resolve_step os ^^ n) (ps t, r, w)")
  then have "resolve_step os ((ps(t := p1)) t, r1, w1) = (p, r', w')" using Suc.prems by simp
  then have "dns_threads_step os (ps(t := p1), r1, w1) (ps(t := p), r', w')"
    using dns_move [of os "ps(t := p1)" t r1 w1] by simp
  with Suc.IH [OF n] show ?case by (rule rtranclp.rtrancl_into_rtrancl)
qed (simp add: fun_upd_idem)

lemma thread_resolves:
  assumes "dns_resolve os host r w = (res, r', w')" and "ps t = Dns_idle"
  shows "(dns_threads_step os)\<^sup>*\<^sup>* (ps, r, w) (ps(t := Dns_done host res), r', w')"
proof -
  obtain n where "(resolve_step os ^^ n) ((ps(t := Dns_called host)) t, r, w) = (Dns_done host res, r', w')"
    using resolve_is_its_steps [OF assms(1)] by auto
  then have "(dns_threads_step os)\<^sup>*\<^sup>* (ps(t := Dns_called host), r, w) (ps(t := Dns_done host res), r', w')"
    using thread_steps [of n os "ps(t := Dns_called host)" t r w] by simp
  moreover have "dns_threads_step os (ps, r, w) (ps(t := Dns_called host), r, w)" using assms(2) by (intro dns_call) simp
  ultimately show ?thesis by (rule converse_rtranclp_into_rtranclp [rotated])
qed

subsection \<open>What holds whatever the threads do\<close>

text \<open>An answer the system may give for a host; an answer from the cache stands for one.\<close>

definition system_answer :: "'w os_api \<Rightarrow> dns_config \<Rightarrow> string \<Rightarrow> socket_address list \<Rightarrow> bool" where
  "system_answer os cfg host addrs \<longleftrightarrow> addrs \<noteq> [] \<and> (\<exists>w w'. resolve_addresses os cfg host w = (addrs, w'))"

definition answer_ok :: "'w os_api \<Rightarrow> dns_config \<Rightarrow> string \<Rightarrow> socket_address list \<Rightarrow> bool" where
  "answer_ok os cfg host as \<longleftrightarrow>
     (\<exists>addrs. system_answer os cfg host addrs
        \<and> (as = addrs \<or> (list_all address_ok addrs \<longrightarrow> as = map (cached_address cfg) addrs)))"

definition cache_ok :: "'w os_api \<Rightarrow> dns_config \<Rightarrow> dns_resolver \<Rightarrow> bool" where
  "cache_ok os cfg r \<longleftrightarrow> dns_ok r \<and> ds_config r = cfg \<and> length (ds_cache r) \<le> Suc (dc_max_cache_size cfg)
     \<and> (\<forall>(h, e) \<in> set (ds_cache r). \<exists>addrs now. system_answer os cfg h addrs \<and> e = cache_entry cfg h now addrs)"

definition place_ok :: "'w os_api \<Rightarrow> dns_config \<Rightarrow> dns_place \<Rightarrow> bool" where
  "place_ok os cfg p \<longleftrightarrow>
     (case p of Dns_answered h addrs \<Rightarrow> system_answer os cfg h addrs
      | Dns_done h (Inr as) \<Rightarrow> answer_ok os cfg h as | _ \<Rightarrow> True)"

lemma set_evict: "set (ds_cache (evict_oldest_if_needed r)) \<subseteq> set (ds_cache r)"
  by (auto simp: evict_oldest_if_needed_def AList.delete_eq)

lemma set_update: "set (AList.update k v xs) \<subseteq> insert (k, v) (set xs)"
  by (induction xs) auto

lemma resolve_step_ok:
  assumes step: "resolve_step os (p, r, w) = (p', r', w')" and r: "cache_ok os cfg r" and p: "place_ok os cfg p"
  shows "cache_ok os cfg r' \<and> place_ok os cfg p'"
proof (cases p)
  case (Dns_called host)
  show ?thesis
  proof (cases "map_of (ds_cache r) host")
    case None
    then show ?thesis using step r Dns_called by (auto simp: cache_lookup_def place_ok_def)
  next
    case (Some e)
    then have "(host, e) \<in> set (ds_cache r)" by (rule map_of_SomeD)
    then obtain addrs now0 where a: "system_answer os cfg host addrs" "e = cache_entry cfg host now0 addrs"
      using r by (auto simp: cache_ok_def)
    have "answer_ok os cfg host (List.map_filter (record_address cfg) (dn_records (ce_result e)))"
      using a records_round_trip [of addrs cfg host] by (auto simp: answer_ok_def cache_entry_def)
    moreover have "set (AList.delete host (ds_cache r)) \<subseteq> set (ds_cache r)" by (auto simp: AList.delete_eq)
    moreover have "length (AList.delete host (ds_cache r)) \<le> length (ds_cache r)" by (rule length_delete_le)
    ultimately show ?thesis
      using step r Dns_called Some
      by (auto simp: cache_lookup_def place_ok_def cache_ok_def dns_ok_def distinct_delete split: prod.splits if_splits)
  qed
next
  case (Dns_asking host)
  then show ?thesis using step r p by (fastforce simp: place_ok_def system_answer_def cache_ok_def split: prod.splits if_splits)
next
  case (Dns_answered host addrs)
  obtain now w1 where now: "os_now os w = (now, w1)" by fastforce
  let ?r = "evict_oldest_if_needed r"
  have r': "r' = ?r\<lparr>ds_cache := AList.update host (cache_entry cfg host now addrs) (ds_cache ?r)\<rparr>" "p' = Dns_done host (Inr addrs)"
    using step r Dns_answered now by (auto simp: cache_store_def Let_def cache_ok_def)
  have a: "system_answer os cfg host addrs" using p Dns_answered by (simp add: place_ok_def)
  have ev: "dns_ok ?r" "length (ds_cache ?r) \<le> dc_max_cache_size cfg"
    using evict_oldest_length [of r] r by (auto simp: cache_ok_def)
  have "\<exists>addrs now. system_answer os cfg h addrs \<and> e = cache_entry cfg h now addrs"
    if "(h, e) \<in> set (ds_cache r')" for h e
    using that r a set_evict [of r] set_update [of host "cache_entry cfg host now addrs" "ds_cache ?r"]
    unfolding r'(1) cache_ok_def by fastforce
  then have "cache_ok os cfg r'"
    using r ev by (auto simp: cache_ok_def r'(1) dns_ok_def distinct_update length_update)
  then show ?thesis using a by (auto simp: r'(2) place_ok_def answer_ok_def)
qed (use step r p in \<open>auto simp: place_ok_def cache_ok_def dns_ok_def\<close>)

lemma dns_threads_ok:
  assumes "(dns_threads_step os)\<^sup>*\<^sup>* ((\<lambda>t. Dns_idle), dns_create cfg, w0) (ps, r, w)"
  shows "cache_ok os cfg r \<and> (\<forall>t. place_ok os cfg (ps t))"
  using assms(1)
proof (induction "(ps, r, w)" arbitrary: ps r w rule: rtranclp_induct)
  case base
  then show ?case by (simp add: cache_ok_def dns_create_def dns_ok_def place_ok_def)
next
  case (step y)
  obtain ps1 r1 w1 where y: "y = (ps1, r1, w1)" by (cases y)
  have ok: "cache_ok os cfg r1" "\<forall>t. place_ok os cfg (ps1 t)" using step.hyps(3) y by simp_all
  from step.hyps(2) [unfolded y] show ?case
  proof cases
    case (dns_call t host)
    then show ?thesis using ok by (simp add: place_ok_def)
  next
    case (dns_move t p)
    then show ?thesis using ok resolve_step_ok [OF dns_move(2) ok(1)] by auto
  next
    case dns_clear
    then show ?thesis using ok by (simp add: cache_ok_def clear_cache_def dns_ok_def)
  qed (use ok in simp)
qed

end
