(* ===== verification/Byte_Queue.thy ===== *)
theory Byte_Queue
  imports Prelude
begin

text \<open>
  The interface between the byte buffer and the code that fills and drains it: the response parser
  appends body bytes, the request serialiser appends lines, readers take bytes from the front. The
  laws speak of the readable bytes only; \<open>live\<close> is the state in which a write returns.
\<close>

fun write_all :: "(byte list \<Rightarrow> 'b \<Rightarrow> 'b option) \<Rightarrow> byte list list \<Rightarrow> 'b \<Rightarrow> 'b option" where
  "write_all wr [] b = Some b"
| "write_all wr (bs # bss) b = (case wr bs b of None \<Rightarrow> None | Some b' \<Rightarrow> write_all wr bss b')"

datatype buffer_op = Put "byte list" | Take nat

text \<open>A run of writes and reads: what the reads returned, in order, and the final buffer.\<close>

fun run_ops :: "(byte list \<Rightarrow> 'b \<Rightarrow> 'b option) \<Rightarrow> (nat \<Rightarrow> 'b \<Rightarrow> byte list \<times> 'b) \<Rightarrow>
    buffer_op list \<Rightarrow> 'b \<Rightarrow> (byte list \<times> 'b) option" where
  "run_ops wr rd [] b = Some ([], b)"
| "run_ops wr rd (Put bs # ops) b =
     (case wr bs b of None \<Rightarrow> None | Some b' \<Rightarrow> run_ops wr rd ops b')"
| "run_ops wr rd (Take n # ops) b =
     (case rd n b of (out, b') \<Rightarrow>
        (case run_ops wr rd ops b' of None \<Rightarrow> None | Some (outs, b'') \<Rightarrow> Some (out @ outs, b'')))"

fun puts :: "buffer_op list \<Rightarrow> byte list" where
  "puts [] = []"
| "puts (Put bs # ops) = bs @ puts ops"
| "puts (Take n # ops) = puts ops"

locale byte_sink =
  fixes put :: "byte list \<Rightarrow> 'b \<Rightarrow> 'b option"
    and contents :: "'b \<Rightarrow> byte list"
    and live :: "'b \<Rightarrow> bool"
  assumes put_law: "live b \<Longrightarrow> \<exists>b'. put bs b = Some b' \<and> live b' \<and> contents b' = contents b @ bs"
begin

lemma putE:
  assumes "live b"
  obtains b' where "put bs b = Some b'" and "live b'" and "contents b' = contents b @ bs"
  using put_law [OF assms] by blast

lemma write_all_law:
  "live b \<Longrightarrow> \<exists>b'. write_all put bss b = Some b' \<and> live b' \<and> contents b' = contents b @ concat bss"
proof (induction bss arbitrary: b)
  case Nil
  then show ?case by simp
next
  case (Cons bs bss)
  obtain b' where "put bs b = Some b'" "live b'" "contents b' = contents b @ bs"
    using Cons.prems by (rule putE)
  with Cons.IH [of b'] show ?case by auto
qed

end

locale byte_queue = byte_sink +
  fixes get :: "nat \<Rightarrow> 'b \<Rightarrow> byte list \<times> 'b"
  assumes get_law: "live b \<Longrightarrow> get n b = (out, b') \<Longrightarrow>
    live b' \<and> out = take n (contents b) \<and> contents b' = drop n (contents b)"
begin

lemma fifo:
  "live b \<Longrightarrow> \<exists>out b'. run_ops put get ops b = Some (out, b') \<and> live b' \<and>
     out @ contents b' = contents b @ puts ops"
proof (induction ops arbitrary: b)
  case Nil
  then show ?case by simp
next
  case (Cons op ops)
  show ?case
  proof (cases op)
    case (Put bs)
    obtain b' where "put bs b = Some b'" "live b'" "contents b' = contents b @ bs"
      using Cons.prems by (rule putE)
    with Cons.IH [of b'] Put show ?thesis by auto
  next
    case (Take n)
    obtain out b' where rd: "get n b = (out, b')" by (cases "get n b")
    then have l: "live b'" and o: "out = take n (contents b)" and c: "contents b' = drop n (contents b)"
      using get_law [OF Cons.prems rd] by auto
    obtain outs b'' where "run_ops put get ops b' = Some (outs, b'')" "live b''"
        "outs @ contents b'' = contents b' @ puts ops"
      using Cons.IH [OF l] by blast
    moreover have "out @ contents b' = contents b" by (simp add: o c)
    ultimately show ?thesis using Take rd by (auto simp: append_assoc)
  qed
qed

end

end
