(* ===== verification/Byte_Buffer.thy ===== *)
theory Byte_Buffer
  imports Error_Code Byte_Queue
begin

text \<open>
  \<open>include/vynx_http/byte_buffer.h\<close>: a byte array with a read and a write position. The array is
  modelled as it is, with its capacity and the stale bytes outside the readable window; the readable
  bytes are the abstraction \<open>bb_contents\<close>. Sizes are mathematical naturals: \<open>std::vector\<close> refuses
  any size whose doubling could wrap around in 64 bits.
\<close>

record byte_buffer =
  bb_data :: mem
  bb_read_pos :: nat
  bb_write_pos :: nat

definition default_capacity :: nat where
  "default_capacity = 4096"

definition bb_new :: "nat \<Rightarrow> byte_buffer" where
  "bb_new cap = \<lparr>bb_data = replicate cap (CHR 0x00), bb_read_pos = 0, bb_write_pos = 0\<rparr>"

definition bb_default :: byte_buffer where
  "bb_default = bb_new default_capacity"

definition bb_from_data :: "byte list \<Rightarrow> byte_buffer" where
  "bb_from_data bs = \<lparr>bb_data = bs, bb_read_pos = 0, bb_write_pos = length bs\<rparr>"

text \<open>
  Moving out of a buffer hands over the array and both positions; what is left has an empty array,
  hence no capacity at all.
\<close>

definition bb_moved_from :: byte_buffer where
  "bb_moved_from = \<lparr>bb_data = [], bb_read_pos = 0, bb_write_pos = 0\<rparr>"

definition bb_move :: "byte_buffer \<Rightarrow> byte_buffer \<times> byte_buffer" where
  "bb_move b = (b, bb_moved_from)"

definition bb_capacity :: "byte_buffer \<Rightarrow> nat" where
  "bb_capacity b = length (bb_data b)"

definition bb_size :: "byte_buffer \<Rightarrow> nat" where
  "bb_size b = bb_write_pos b - bb_read_pos b"

definition bb_available :: "byte_buffer \<Rightarrow> nat" where
  "bb_available b = bb_capacity b - bb_write_pos b"

definition bb_empty :: "byte_buffer \<Rightarrow> bool" where
  "bb_empty b \<longleftrightarrow> bb_read_pos b = bb_write_pos b"

text \<open>The two \<open>advance\<close> operations assert their bound; a failed assertion stops the program: \<open>None\<close>.\<close>

definition bb_advance_read :: "nat \<Rightarrow> byte_buffer \<Rightarrow> byte_buffer option" where
  "bb_advance_read n b =
     (if bb_read_pos b + n \<le> bb_write_pos b then Some (b\<lparr>bb_read_pos := bb_read_pos b + n\<rparr>) else None)"

definition bb_advance_write :: "nat \<Rightarrow> byte_buffer \<Rightarrow> byte_buffer option" where
  "bb_advance_write n b =
     (if bb_write_pos b + n \<le> bb_capacity b then Some (b\<lparr>bb_write_pos := bb_write_pos b + n\<rparr>) else None)"

definition bb_reset :: "byte_buffer \<Rightarrow> byte_buffer" where
  "bb_reset b = b\<lparr>bb_read_pos := 0, bb_write_pos := 0\<rparr>"

definition bb_clear :: "byte_buffer \<Rightarrow> byte_buffer" where
  "bb_clear b = bb_reset b"

text \<open>
  The doubling loop of \<open>grow\<close>. It does not end when it starts from 0 and something is required:
  \<open>None\<close> is a loop that never returns.
\<close>

partial_function (option) grow_capacity :: "nat \<Rightarrow> nat \<Rightarrow> nat option" where
  "grow_capacity cap required =
     (if cap < required then grow_capacity (cap * 2) required else Some cap)"

definition bb_grow :: "nat \<Rightarrow> byte_buffer \<Rightarrow> byte_buffer option" where
  "bb_grow additional b =
     (case grow_capacity (bb_capacity b) (bb_write_pos b + additional) of
        None \<Rightarrow> None
      | Some cap \<Rightarrow>
          let n = bb_size b;
              fresh = replicate cap (CHR 0x00);
              data = (if n > 0 then mem_write 0 (mem_read (bb_read_pos b) n (bb_data b)) fresh else fresh)
          in Some \<lparr>bb_data = data, bb_read_pos = 0, bb_write_pos = n\<rparr>)"

definition bb_ensure_capacity :: "nat \<Rightarrow> byte_buffer \<Rightarrow> byte_buffer option" where
  "bb_ensure_capacity additional b =
     (if additional > bb_available b then bb_grow additional b else Some b)"

definition bb_write :: "byte list \<Rightarrow> byte_buffer \<Rightarrow> byte_buffer option" where
  "bb_write bs b =
     (case bb_ensure_capacity (length bs) b of
        None \<Rightarrow> None
      | Some b' \<Rightarrow> Some (b'\<lparr>bb_data := mem_write (bb_write_pos b') bs (bb_data b'),
                           bb_write_pos := bb_write_pos b' + length bs\<rparr>))"

definition bb_contents :: "byte_buffer \<Rightarrow> byte list" where
  "bb_contents b = mem_read (bb_read_pos b) (bb_size b) (bb_data b)"

definition bb_write_buffer :: "byte_buffer \<Rightarrow> byte_buffer \<Rightarrow> byte_buffer option" where
  "bb_write_buffer other b = bb_write (bb_contents other) b"

definition bb_read :: "nat \<Rightarrow> byte_buffer \<Rightarrow> byte list \<times> byte_buffer" where
  "bb_read max_size b =
     (let to_read = min max_size (bb_size b)
      in (mem_read (bb_read_pos b) to_read (bb_data b), b\<lparr>bb_read_pos := bb_read_pos b + to_read\<rparr>))"

definition bb_peek :: "nat \<Rightarrow> byte_buffer \<Rightarrow> byte list" where
  "bb_peek max_size b = mem_read (bb_read_pos b) (min max_size (bb_size b)) (bb_data b)"

text \<open>
  Searching for one byte runs \<open>std::find\<close> over \<open>[read_ptr + offset, data + write_pos)\<close>; an offset
  beyond the readable bytes makes that range invalid: \<open>None\<close>. The result counts from \<open>read_ptr\<close>.
\<close>

definition bb_find_byte :: "byte \<Rightarrow> nat \<Rightarrow> byte_buffer \<Rightarrow> nat option" where
  "bb_find_byte v offset b =
     (if bb_size b < offset then None
      else Some (case find_char v (mem_read (bb_read_pos b + offset) (bb_size b - offset) (bb_data b)) of
                   Some i \<Rightarrow> offset + i
                 | None \<Rightarrow> npos))"

definition bb_find :: "byte list \<Rightarrow> nat \<Rightarrow> byte_buffer \<Rightarrow> nat" where
  "bb_find pattern offset b =
     (if length pattern = 0 then offset
      else if length pattern > bb_size b then npos
      else case List.find (\<lambda>i. mem_read (bb_read_pos b + i) (length pattern) (bb_data b) = pattern)
                 [offset..<Suc (bb_size b - length pattern)] of
             Some i \<Rightarrow> i
           | None \<Rightarrow> npos)"

definition bb_compact :: "byte_buffer \<Rightarrow> byte_buffer" where
  "bb_compact b =
     (if bb_read_pos b = 0 then b
      else let remaining = bb_size b;
               data = (if remaining > 0
                       then mem_write 0 (mem_read (bb_read_pos b) remaining (bb_data b)) (bb_data b)
                       else bb_data b)
           in b\<lparr>bb_data := data, bb_read_pos := 0, bb_write_pos := remaining\<rparr>)"

subsection \<open>The invariant\<close>

definition bb_wf :: "byte_buffer \<Rightarrow> bool" where
  "bb_wf b \<longleftrightarrow> bb_read_pos b \<le> bb_write_pos b \<and> bb_write_pos b \<le> bb_capacity b"

text \<open>A buffer that can take bytes: well formed and not moved from.\<close>

definition bb_live :: "byte_buffer \<Rightarrow> bool" where
  "bb_live b \<longleftrightarrow> bb_wf b \<and> 0 < bb_capacity b"

lemmas bb_size_defs = bb_capacity_def bb_size_def bb_available_def

lemma bb_live_wf [simp, intro]: "bb_live b \<Longrightarrow> bb_wf b"
  by (simp add: bb_live_def)

lemma length_bb_contents [simp]: "bb_wf b \<Longrightarrow> length (bb_contents b) = bb_size b"
  by (auto simp: bb_contents_def bb_wf_def bb_size_defs)

lemma bb_wf_new [simp]: "bb_wf (bb_new cap)" and bb_contents_new [simp]: "bb_contents (bb_new cap) = []"
  by (simp_all add: bb_wf_def bb_new_def bb_contents_def bb_size_defs)

lemma bb_live_new [wf_intros]: "0 < cap \<Longrightarrow> bb_live (bb_new cap)"
  by (simp add: bb_live_def bb_capacity_def) (simp add: bb_new_def)

lemma bb_live_default [simp]: "bb_live bb_default"
  by (simp add: bb_default_def bb_live_new default_capacity_def)

lemma bb_contents_default [simp]: "bb_contents bb_default = []"
  by (simp add: bb_default_def)

lemma bb_from_data_view [simp]: "bb_wf (bb_from_data bs)" "bb_contents (bb_from_data bs) = bs"
  by (simp_all add: bb_wf_def bb_from_data_def bb_contents_def bb_size_defs mem_read_def)

lemma bb_reset_view [simp]: "bb_contents (bb_reset b) = []" "bb_capacity (bb_reset b) = bb_capacity b"
  by (simp_all add: bb_reset_def bb_contents_def bb_size_defs)

lemma bb_wf_reset [simp]: "bb_wf (bb_reset b)"
  by (simp add: bb_wf_def bb_reset_def)

lemma bb_live_reset [simp]: "bb_live (bb_reset b) \<longleftrightarrow> 0 < bb_capacity b"
  by (simp add: bb_live_def)

lemma bb_moved_from_dead [simp]: "\<not> bb_live bb_moved_from" "bb_wf bb_moved_from"
    "bb_contents bb_moved_from = []" "bb_capacity bb_moved_from = 0"
  by (simp_all add: bb_live_def bb_wf_def bb_moved_from_def bb_contents_def bb_size_defs)

subsection \<open>The doubling loop\<close>

lemma grow_capacity_ge: "required \<le> cap \<Longrightarrow> grow_capacity cap required = Some cap"
  by (subst grow_capacity.simps) simp

lemma grow_capacity_step: "cap < required \<Longrightarrow> grow_capacity cap required = grow_capacity (cap * 2) required"
  by (subst grow_capacity.simps) simp

lemma grow_capacity_total:
  "0 < cap \<Longrightarrow> \<exists>n \<ge> required. grow_capacity cap required = Some n \<and> cap \<le> n"
proof (induction "required - cap" arbitrary: cap rule: less_induct)
  case less
  show ?case
  proof (cases "cap < required")
    case True
    then have "required - cap * 2 < required - cap" and "0 < cap * 2"
      using less.prems by auto
    then obtain n where "n \<ge> required" "grow_capacity (cap * 2) required = Some n" "cap * 2 \<le> n"
      using less.hyps by blast
    then show ?thesis
      using True by (auto simp: grow_capacity_step intro!: exI [of _ n])
  next
    case False
    then show ?thesis by (auto simp: grow_capacity_ge intro!: exI [of _ cap])
  qed
qed

lemma grow_capacity_zero_aux: "grow_capacity cap required = Some n \<Longrightarrow> cap = 0 \<longrightarrow> required = 0"
proof (rule grow_capacity.raw_induct [where P = "\<lambda>cap required n. cap = 0 \<longrightarrow> required = 0"])
  fix f :: "nat \<Rightarrow> nat \<Rightarrow> nat option" and cap required n
  assume IH: "\<And>cap required n. f cap required = Some n \<Longrightarrow> cap = 0 \<longrightarrow> required = 0"
    and eq: "(if cap < required then f (cap * 2) required else Some cap) = Some n"
  show "cap = 0 \<longrightarrow> required = 0"
    using IH [of "cap * 2" required n] eq by (auto split: if_splits)
qed

lemma grow_capacity_zero: "0 < required \<Longrightarrow> grow_capacity 0 required = None"
  using grow_capacity_zero_aux [of 0 required] by (cases "grow_capacity 0 required") auto

text \<open>The loop ends exactly when the buffer has some capacity, or nothing is required of it.\<close>

lemma grow_capacity_terminates_iff:
  "(\<exists>n. grow_capacity cap required = Some n) \<longleftrightarrow> 0 < cap \<or> required = 0"
proof (cases "cap = 0")
  case True
  then show ?thesis
    using grow_capacity_zero [of required] grow_capacity_ge [of 0 0] by (cases required) auto
next
  case False
  then show ?thesis using grow_capacity_total [of cap required] by auto
qed

subsection \<open>What the operations do to the contents\<close>

lemma bb_grow_view:
  assumes "bb_live b"
  shows "\<exists>b'. bb_grow k b = Some b' \<and> bb_live b' \<and> bb_contents b' = bb_contents b \<and> k \<le> bb_available b'"
proof -
  have wf: "bb_wf b" and pos: "0 < bb_capacity b"
    using assms by (simp_all add: bb_live_def)
  obtain cap where cap: "grow_capacity (bb_capacity b) (bb_write_pos b + k) = Some cap"
      "bb_write_pos b + k \<le> cap" "bb_capacity b \<le> cap"
    using grow_capacity_total [OF pos] by blast
  let ?n = "bb_size b" and ?f = "replicate cap (CHR 0x00)"
  let ?d = "if ?n > 0 then mem_write 0 (mem_read (bb_read_pos b) ?n (bb_data b)) ?f else ?f"
  let ?b = "\<lparr>bb_data = ?d, bb_read_pos = 0, bb_write_pos = ?n\<rparr>"
  have res: "bb_grow k b = Some ?b"
    by (simp add: bb_grow_def cap Let_def)
  have len: "length (bb_contents b) = ?n" and n: "?n \<le> bb_write_pos b"
    using wf by (simp_all add: bb_size_def)
  have c: "bb_contents b = mem_read (bb_read_pos b) ?n (bb_data b)"
    by (simp add: bb_contents_def)
  have capd: "length ?d = cap"
    using len n cap(2) by (simp add: c)
  have "mem_read 0 ?n ?d = bb_contents b"
  proof (cases "?n > 0")
    case True
    have "mem_read 0 (length (bb_contents b)) (mem_write 0 (bb_contents b) ?f) = bb_contents b"
      using len n cap(2) by (intro mem_read_write_start [of _ 0]) simp
    then show ?thesis using True len by (simp add: c)
  next
    case False
    then show ?thesis using len by simp
  qed
  then have "bb_contents ?b = bb_contents b"
    by (simp add: bb_contents_def bb_size_def)
  moreover have "0 < cap" and "?n \<le> cap"
    using pos cap n by linarith+
  then have "bb_live ?b"
    by (simp only: bb_live_def bb_wf_def bb_capacity_def capd byte_buffer.simps le0 simp_thms)
  moreover have "k \<le> bb_available ?b"
    using capd n cap(2) by (simp add: bb_available_def bb_capacity_def)
  ultimately show ?thesis using res by blast
qed

lemma bb_ensure_capacity_view:
  assumes "bb_live b"
  shows "\<exists>b'. bb_ensure_capacity k b = Some b' \<and> bb_live b' \<and> bb_contents b' = bb_contents b
     \<and> k \<le> bb_available b'"
  using assms bb_grow_view [OF assms, of k] by (auto simp: bb_ensure_capacity_def)

lemma bb_write_view:
  assumes "bb_live b"
  shows "\<exists>b'. bb_write bs b = Some b' \<and> bb_live b' \<and> bb_contents b' = bb_contents b @ bs"
proof -
  obtain b1 where b1: "bb_ensure_capacity (length bs) b = Some b1" "bb_live b1"
      "bb_contents b1 = bb_contents b" "length bs \<le> bb_available b1"
    using bb_ensure_capacity_view [OF assms] by blast
  let ?b = "b1\<lparr>bb_data := mem_write (bb_write_pos b1) bs (bb_data b1),
                 bb_write_pos := bb_write_pos b1 + length bs\<rparr>"
  have wf: "bb_read_pos b1 \<le> bb_write_pos b1" "bb_write_pos b1 + length bs \<le> length (bb_data b1)"
    using b1 by (auto simp: bb_live_def bb_wf_def bb_size_defs)
  have "bb_contents ?b = bb_contents b1 @ bs"
    using mem_read_write_extend [OF wf] wf(1) by (simp add: bb_contents_def bb_size_def)
  moreover have "bb_live ?b"
    using wf b1(2) by (simp add: bb_live_def bb_wf_def bb_capacity_def)
  ultimately show ?thesis
    using b1 by (auto simp: bb_write_def)
qed

lemma bb_write_dead: "\<not> 0 < bb_capacity b \<Longrightarrow> bb_wf b \<Longrightarrow> bs \<noteq> [] \<Longrightarrow> bb_write bs b = None"
  by (simp add: bb_write_def bb_ensure_capacity_def bb_grow_def bb_wf_def bb_available_def
      grow_capacity_zero)

lemma bb_read_view:
  assumes "bb_wf b" and "bb_read n b = (out, b')"
  shows "bb_wf b' \<and> out = take n (bb_contents b) \<and> bb_contents b' = drop n (bb_contents b)
    \<and> bb_capacity b' = bb_capacity b"
proof -
  let ?k = "min n (bb_size b)"
  have out: "out = mem_read (bb_read_pos b) ?k (bb_data b)"
    and b': "b' = b\<lparr>bb_read_pos := bb_read_pos b + ?k\<rparr>"
    using assms(2) by (auto simp: bb_read_def Let_def)
  have "take n (bb_contents b) = take ?k (bb_contents b)"
    using assms(1) by (cases "n \<le> bb_size b") (simp_all add: min_def)
  also have "\<dots> = out"
    by (simp add: out bb_contents_def mem_read_take)
  finally have o: "out = take n (bb_contents b)" ..
  have "drop n (bb_contents b) = drop ?k (bb_contents b)"
    using assms(1) by (cases "n \<le> bb_size b") (simp_all add: min_def)
  also have "\<dots> = bb_contents b'"
    using assms(1) by (simp add: b' bb_contents_def mem_read_drop bb_size_def)
  finally have c: "bb_contents b' = drop n (bb_contents b)" ..
  have "bb_wf b'"
    using assms(1) by (auto simp: b' bb_wf_def bb_size_def bb_capacity_def)
  then show ?thesis using o c by (simp add: b' bb_capacity_def)
qed

lemma bb_peek_view: "bb_wf b \<Longrightarrow> bb_peek n b = take n (bb_contents b)"
  using bb_read_view [of b n] by (auto simp: bb_peek_def bb_read_def Let_def)

interpretation bq: byte_queue bb_write bb_contents bb_live bb_read
proof (unfold_locales, goal_cases)
  case (1 b bs)
  then show ?case by (rule bb_write_view)
next
  case (2 b n out b')
  then show ?case using bb_read_view [of b n out b'] by (simp add: bb_live_def)
qed

subsection \<open>Searching and compacting\<close>

definition occurs_at :: "byte list \<Rightarrow> byte_buffer \<Rightarrow> nat \<Rightarrow> bool" where
  "occurs_at pattern b i \<longleftrightarrow>
     i + length pattern \<le> bb_size b \<and> take (length pattern) (drop i (bb_contents b)) = pattern"

lemma occurs_at_mem:
  assumes "bb_wf b" and "i + length pattern \<le> bb_size b"
  shows "mem_read (bb_read_pos b + i) (length pattern) (bb_data b) = take (length pattern) (drop i (bb_contents b))"
  using assms by (simp add: bb_contents_def mem_read_drop mem_read_take)

lemma find_upt_first:
  "List.find P [m..<n] = Some i \<longleftrightarrow> m \<le> i \<and> i < n \<and> P i \<and> (\<forall>j. m \<le> j \<and> j < i \<longrightarrow> \<not> P j)"
proof
  assume "List.find P [m..<n] = Some i"
  then obtain k where k: "k < n - m" "P (m + k)" "i = m + k" "\<forall>j<k. \<not> P (m + j)"
    by (auto simp: find_Some_iff)
  have "\<not> P j" if "m \<le> j" "j < i" for j
    using k(4) that k(3) by (metis le_add_diff_inverse nat_add_left_cancel_less)
  with k show "m \<le> i \<and> i < n \<and> P i \<and> (\<forall>j. m \<le> j \<and> j < i \<longrightarrow> \<not> P j)"
    by auto
next
  assume a: "m \<le> i \<and> i < n \<and> P i \<and> (\<forall>j. m \<le> j \<and> j < i \<longrightarrow> \<not> P j)"
  then show "List.find P [m..<n] = Some i"
    by (auto simp: find_Some_iff intro!: exI [of _ "i - m"])
qed

lemma find_upt_None: "List.find P [m..<n] = None \<longleftrightarrow> (\<forall>j. m \<le> j \<and> j < n \<longrightarrow> \<not> P j)"
  by (auto simp: find_None_iff)

lemma bb_find_view:
  assumes wf: "bb_wf b" and ne: "pattern \<noteq> []"
  shows "(\<exists>i \<ge> offset. occurs_at pattern b i) \<and> offset \<le> bb_find pattern offset b
           \<and> occurs_at pattern b (bb_find pattern offset b)
           \<and> (\<forall>j. offset \<le> j \<and> j < bb_find pattern offset b \<longrightarrow> \<not> occurs_at pattern b j)
       \<or> (\<nexists>i. offset \<le> i \<and> occurs_at pattern b i) \<and> bb_find pattern offset b = npos"
proof (cases "length pattern > bb_size b")
  case True
  then have "\<not> occurs_at pattern b i" for i by (simp add: occurs_at_def)
  moreover have "bb_find pattern offset b = npos" using True ne by (simp add: bb_find_def)
  ultimately show ?thesis by blast
next
  case False
  let ?P = "\<lambda>i. mem_read (bb_read_pos b + i) (length pattern) (bb_data b) = pattern"
  let ?n = "Suc (bb_size b - length pattern)"
  have P: "occurs_at pattern b i \<longleftrightarrow> i < ?n \<and> ?P i" for i
    using False occurs_at_mem [OF wf, of i pattern] by (auto simp: occurs_at_def)
  have res: "bb_find pattern offset b =
      (case List.find ?P [offset..<?n] of Some i \<Rightarrow> i | None \<Rightarrow> npos)"
    using False ne by (simp add: bb_find_def)
  show ?thesis
  proof (cases "List.find ?P [offset..<?n]")
    case None
    then have "\<not> occurs_at pattern b i" if "offset \<le> i" for i
      using that unfolding find_upt_None P by blast
    then show ?thesis using res None by auto
  next
    case (Some i)
    have i: "offset \<le> i" "i < ?n" "?P i" "\<forall>j. offset \<le> j \<and> j < i \<longrightarrow> \<not> ?P j"
      using Some unfolding find_upt_first by auto
    have "occurs_at pattern b i" "\<forall>j. offset \<le> j \<and> j < i \<longrightarrow> \<not> occurs_at pattern b j"
      using i P by auto
    then show ?thesis using i(1) res Some by auto
  qed
qed

lemma bb_compact_view:
  assumes "bb_wf b"
  shows "bb_wf (bb_compact b) \<and> bb_contents (bb_compact b) = bb_contents b
     \<and> bb_read_pos (bb_compact b) = 0 \<and> bb_capacity (bb_compact b) = bb_capacity b
     \<and> bb_available (bb_compact b) = bb_available b + bb_read_pos b"
proof (cases "bb_read_pos b = 0")
  case True
  then show ?thesis using assms by (simp add: bb_compact_def)
next
  case False
  let ?c = "bb_contents b"
  have len: "length ?c = bb_size b" and le: "bb_size b \<le> length (bb_data b)"
      and pos: "bb_read_pos b \<le> bb_write_pos b" "bb_write_pos b \<le> length (bb_data b)"
    using assms by (auto simp: bb_wf_def bb_size_def bb_capacity_def)
  have data: "bb_compact b =
      b\<lparr>bb_data := mem_write 0 ?c (bb_data b), bb_read_pos := 0, bb_write_pos := bb_size b\<rparr>"
    using False len by (auto simp: bb_compact_def Let_def bb_contents_def)
  have "mem_read 0 (length ?c) (mem_write 0 ?c (bb_data b)) = ?c"
    using len le by (intro mem_read_write_start [of _ 0]) simp
  then have "bb_contents (bb_compact b) = ?c"
    using len by (simp add: data bb_contents_def [of "b\<lparr>bb_data := _, bb_read_pos := _, bb_write_pos := _\<rparr>"] bb_size_def [of "b\<lparr>bb_data := _, bb_read_pos := _, bb_write_pos := _\<rparr>"])
  then show ?thesis
    using len le pos by (auto simp: data bb_wf_def bb_capacity_def bb_available_def bb_size_def)
qed

end
