(* ===== verification/Buffer_Pool.thy ===== *)
theory Buffer_Pool
  imports Byte_Buffer
begin

text \<open>
  \<open>include/vynx_http/buffer_pool.h\<close> and \<open>src/buffer_pool.cpp\<close>. A \<open>unique_ptr\<close> is the buffer it owns,
  \<open>None\<close> when null; the pool is a vector whose back is the end of the list.
\<close>

record pool_config =
  pc_initial_size :: nat
  pc_max_size :: nat
  pc_buffer_capacity :: nat

definition pool_config_default :: pool_config where
  "pool_config_default = \<lparr>pc_initial_size = 16, pc_max_size = 256, pc_buffer_capacity = 4096\<rparr>"

record buffer_pool =
  bp_config :: pool_config
  bp_pool :: "byte_buffer list"

definition bp_new :: "pool_config \<Rightarrow> buffer_pool" where
  "bp_new cfg = \<lparr>bp_config = cfg, bp_pool = replicate (pc_initial_size cfg) (bb_new (pc_buffer_capacity cfg))\<rparr>"

definition bp_default :: buffer_pool where
  "bp_default = bp_new pool_config_default"

definition bp_acquire :: "buffer_pool \<Rightarrow> byte_buffer \<times> buffer_pool" where
  "bp_acquire p =
     (if bp_pool p \<noteq> [] then (bb_reset (last (bp_pool p)), p\<lparr>bp_pool := butlast (bp_pool p)\<rparr>)
      else (bb_new (pc_buffer_capacity (bp_config p)), p))"

definition bp_release :: "byte_buffer option \<Rightarrow> buffer_pool \<Rightarrow> buffer_pool" where
  "bp_release bo p =
     (case bo of
        None \<Rightarrow> p
      | Some b \<Rightarrow> if length (bp_pool p) < pc_max_size (bp_config p)
                  then p\<lparr>bp_pool := bp_pool p @ [bb_reset b]\<rparr> else p)"

definition bp_size :: "buffer_pool \<Rightarrow> nat" where
  "bp_size p = length (bp_pool p)"

definition bp_clear :: "buffer_pool \<Rightarrow> buffer_pool" where
  "bp_clear p = p\<lparr>bp_pool := []\<rparr>"

subsection \<open>The guard\<close>

text \<open>
  A guard refers to a pool, by its number among the pools of the program, and owns a buffer or nothing.
  Move assignment hands its old buffer back to its own pool and keeps that pool for the new one.
\<close>

record buffer_guard =
  bg_pool :: nat
  bg_buffer :: "byte_buffer option"

type_synonym pools = "nat \<Rightarrow> buffer_pool"

definition guard_new :: "nat \<Rightarrow> pools \<Rightarrow> buffer_guard \<times> pools" where
  "guard_new i ps = (case bp_acquire (ps i) of (b, p) \<Rightarrow> (\<lparr>bg_pool = i, bg_buffer = Some b\<rparr>, ps(i := p)))"

definition guard_destroy :: "buffer_guard \<Rightarrow> pools \<Rightarrow> pools" where
  "guard_destroy g ps = ps(bg_pool g := bp_release (bg_buffer g) (ps (bg_pool g)))"

definition guard_move :: "buffer_guard \<Rightarrow> buffer_guard \<times> buffer_guard" where
  "guard_move other = (\<lparr>bg_pool = bg_pool other, bg_buffer = bg_buffer other\<rparr>, other\<lparr>bg_buffer := None\<rparr>)"

definition guard_move_assign :: "buffer_guard \<Rightarrow> buffer_guard \<Rightarrow> pools \<Rightarrow> buffer_guard \<times> buffer_guard \<times> pools" where
  "guard_move_assign self other ps =
     (self\<lparr>bg_buffer := bg_buffer other\<rparr>, other\<lparr>bg_buffer := None\<rparr>, guard_destroy self ps)"

definition guard_release :: "buffer_guard \<Rightarrow> byte_buffer option \<times> buffer_guard" where
  "guard_release g = (bg_buffer g, g\<lparr>bg_buffer := None\<rparr>)"

subsection \<open>Facts\<close>

text \<open>
  Buffers in a pool are well formed and empty, and there are never more than the pool may hold or began with.
  Every operation is one section under the mutex, so the steps are also those of several threads.
\<close>

definition bp_ok :: "buffer_pool \<Rightarrow> bool" where
  "bp_ok p \<longleftrightarrow> length (bp_pool p) \<le> max (pc_initial_size (bp_config p)) (pc_max_size (bp_config p))
     \<and> (\<forall>b \<in> set (bp_pool p). bb_wf b \<and> bb_contents b = [])"

inductive bp_step :: "buffer_pool \<Rightarrow> buffer_pool \<Rightarrow> bool" where
  bps_acquire: "bp_acquire p = (b, p') \<Longrightarrow> bp_step p p'"
| bps_release: "(\<And>b. bo = Some b \<Longrightarrow> bb_wf b) \<Longrightarrow> bp_step p (bp_release bo p)"
| bps_clear: "bp_step p (bp_clear p)"

lemma bp_new_ok: "bp_ok (bp_new cfg)"
  by (auto simp: bp_ok_def bp_new_def)

lemma bp_acquire_ok:
  assumes "bp_ok p" and "bp_acquire p = (b, p')"
  shows "bp_ok p'" and "bb_wf b" and "bb_contents b = []" and "bp_size p' = bp_size p - 1"
  using assms by (auto simp: bp_ok_def bp_acquire_def bp_size_def split: if_splits dest!: in_set_butlastD)

lemma bp_step_ok: "bp_step p p' \<Longrightarrow> bp_ok p \<Longrightarrow> bp_ok p' \<and> bp_config p' = bp_config p"
proof (induction rule: bp_step.induct)
  case (bps_acquire p b p')
  then show ?case using bp_acquire_ok by (auto simp: bp_acquire_def split: if_splits)
next
  case (bps_release bo p)
  then show ?case by (auto simp: bp_release_def bp_ok_def split: option.split)
next
  case (bps_clear p)
  then show ?case by (simp add: bp_clear_def bp_ok_def)
qed

lemma bp_reachable_ok: "bp_step\<^sup>*\<^sup>* (bp_new cfg) p \<Longrightarrow> bp_ok p \<and> bp_config p = cfg"
proof (induction rule: rtranclp_induct)
  case base
  then show ?case using bp_new_ok [of cfg] by (simp add: bp_new_def)
next
  case (step q p)
  then show ?case using bp_step_ok by blast
qed

end
