(* ===== verification/Logger.thy ===== *)
theory Logger
  imports Cpp_Std
begin

text \<open>
  \<open>include/vynx_http/logger.h\<close> and \<open>src/logger.cpp\<close>. The levels are ordered as the enumeration is; a
  sink is a number and the effect of a message on it is a parameter over the outside world \<open>'w\<close>. The
  text a sink writes is the message with the time as \<open>put_time\<close> renders it.
\<close>

datatype log_level = Level_trace | Level_debug | Level_info | Level_warn | Level_error | Level_fatal

definition level_code :: "log_level \<Rightarrow> nat" where
  "level_code l = (case l of Level_trace \<Rightarrow> 0 | Level_debug \<Rightarrow> 1 | Level_info \<Rightarrow> 2 | Level_warn \<Rightarrow> 3
     | Level_error \<Rightarrow> 4 | Level_fatal \<Rightarrow> 5)"

lemma level_code_inj: "level_code a = level_code b \<Longrightarrow> a = b"
  by (cases a; cases b) (simp_all add: level_code_def)

instantiation log_level :: linorder
begin

definition less_eq_log_level :: "log_level \<Rightarrow> log_level \<Rightarrow> bool" where
  "less_eq_log_level a b \<longleftrightarrow> level_code a \<le> level_code b"

definition less_log_level :: "log_level \<Rightarrow> log_level \<Rightarrow> bool" where
  "less_log_level a b \<longleftrightarrow> level_code a < level_code b"

instance
  by standard (auto simp: less_eq_log_level_def less_log_level_def intro: level_code_inj)

end

definition level_to_string :: "log_level \<Rightarrow> string" where
  "level_to_string l = (case l of Level_trace \<Rightarrow> ''TRACE'' | Level_debug \<Rightarrow> ''DEBUG'' | Level_info \<Rightarrow> ''INFO''
     | Level_warn \<Rightarrow> ''WARN'' | Level_error \<Rightarrow> ''ERROR'' | Level_fatal \<Rightarrow> ''FATAL'')"

record log_message =
  lm_level :: log_level
  lm_component :: string
  lm_message :: string
  lm_timestamp :: int

text \<open>The line of the console and file sinks.\<close>

definition sink_line :: "(int \<Rightarrow> string) \<Rightarrow> log_message \<Rightarrow> string" where
  "sink_line put_time msg =
     ''['' @ put_time (lm_timestamp msg) @ ''] ['' @ level_to_string (lm_level msg) @ ''] ['' @ lm_component msg @ ''] ''
     @ lm_message msg @ [CHR 0x0A]"

definition console_log :: "(int \<Rightarrow> string) \<Rightarrow> (string \<Rightarrow> 'w \<Rightarrow> 'w) \<Rightarrow> log_message \<Rightarrow> 'w \<Rightarrow> 'w" where
  "console_log put_time write_out msg w = write_out (sink_line put_time msg) w"

definition file_log :: "bool \<Rightarrow> (int \<Rightarrow> string) \<Rightarrow> (string \<Rightarrow> 'w \<Rightarrow> 'w) \<Rightarrow> log_message \<Rightarrow> 'w \<Rightarrow> 'w" where
  "file_log is_open put_time write_file msg w = (if \<not> is_open then w else write_file (sink_line put_time msg) w)"

record logger =
  lg_level :: log_level
  lg_sinks :: "nat list"

text \<open>The constructor adds the console sink, number 0.\<close>

definition logger_new :: logger where
  "logger_new = \<lparr>lg_level = Level_info, lg_sinks = [0]\<rparr>"

definition set_level :: "log_level \<Rightarrow> logger \<Rightarrow> logger" where
  "set_level l lg = lg\<lparr>lg_level := l\<rparr>"

definition add_sink :: "nat \<Rightarrow> logger \<Rightarrow> logger" where
  "add_sink s lg = lg\<lparr>lg_sinks := lg_sinks lg @ [s]\<rparr>"

definition clear_sinks :: "logger \<Rightarrow> logger" where
  "clear_sinks lg = lg\<lparr>lg_sinks := []\<rparr>"

definition log_at ::
  "('w \<Rightarrow> int \<times> 'w) \<Rightarrow> (nat \<Rightarrow> log_message \<Rightarrow> 'w \<Rightarrow> 'w) \<Rightarrow> log_level \<Rightarrow> string \<Rightarrow> string \<Rightarrow> logger \<Rightarrow> 'w \<Rightarrow> 'w" where
  "log_at now sink level component message lg w =
     (if level < lg_level lg then w
      else case now w of
             (t, w1) \<Rightarrow>
               fold (\<lambda>s. sink s \<lparr>lm_level = level, lm_component = component, lm_message = message, lm_timestamp = t\<rparr>)
                 (lg_sinks lg) w1)"

definition log_trace where "log_trace now sink = log_at now sink Level_trace"
definition log_debug where "log_debug now sink = log_at now sink Level_debug"
definition log_info where "log_info now sink = log_at now sink Level_info"
definition log_warn where "log_warn now sink = log_at now sink Level_warn"
definition log_error where "log_error now sink = log_at now sink Level_error"
definition log_fatal where "log_fatal now sink = log_at now sink Level_fatal"

text \<open>A message is dropped exactly below the logger's level; a level that lets one through lets all higher ones through.\<close>

lemma log_at_dropped: "level < lg_level lg \<Longrightarrow> log_at now sink level c m lg w = w"
  by (simp add: log_at_def)

lemma log_at_monotone:
  "\<not> level < lg_level lg \<Longrightarrow> level \<le> level' \<Longrightarrow> now w = (t, w1) \<Longrightarrow>
   log_at now sink level' c m lg w =
     fold (\<lambda>s. sink s \<lparr>lm_level = level', lm_component = c, lm_message = m, lm_timestamp = t\<rparr>) (lg_sinks lg) w1"
  by (auto simp: log_at_def dest: le_less_trans)

lemma level_to_string_inj: "level_to_string a = level_to_string b \<Longrightarrow> a = b"
  by (cases a; cases b) (simp_all add: level_to_string_def)

end
