(* ===== verification/Http_Headers.thy ===== *)
theory Http_Headers
  imports Error_Code
begin

text \<open>
  \<open>include/vynx_http/http_headers.h\<close> and \<open>src/http_headers.cpp\<close>: the ordered collection of header
  fields with case-insensitive names. The class has one member, the vector of fields, so the
  collection is that list.
\<close>

record header_field =
  hf_name :: string
  hf_value :: string

type_synonym http_headers = "header_field list"

definition hdr_add :: "string \<Rightarrow> string \<Rightarrow> http_headers \<Rightarrow> http_headers" where
  "hdr_add name val hs = hs @ [\<lparr>hf_name = name, hf_value = val\<rparr>]"

fun hdr_set :: "string \<Rightarrow> string \<Rightarrow> http_headers \<Rightarrow> http_headers" where
  "hdr_set name val [] = [\<lparr>hf_name = name, hf_value = val\<rparr>]"
| "hdr_set name val (f # fs) =
     (if iequal (hf_name f) name then f\<lparr>hf_value := val\<rparr> # fs else f # hdr_set name val fs)"

fun hdr_get :: "string \<Rightarrow> http_headers \<Rightarrow> string option" where
  "hdr_get name [] = None"
| "hdr_get name (f # fs) = (if iequal (hf_name f) name then Some (hf_value f) else hdr_get name fs)"

fun hdr_contains :: "string \<Rightarrow> http_headers \<Rightarrow> bool" where
  "hdr_contains name [] = False"
| "hdr_contains name (f # fs) = (if iequal (hf_name f) name then True else hdr_contains name fs)"

definition hdr_remove :: "string \<Rightarrow> http_headers \<Rightarrow> http_headers" where
  "hdr_remove name hs = filter (\<lambda>f. \<not> iequal (hf_name f) name) hs"

definition hdr_clear :: "http_headers \<Rightarrow> http_headers" where
  "hdr_clear hs = []"

definition hdr_size :: "http_headers \<Rightarrow> nat" where
  "hdr_size hs = length hs"

definition hdr_empty :: "http_headers \<Rightarrow> bool" where
  "hdr_empty hs \<longleftrightarrow> hs = []"

definition hdr_host :: "string \<Rightarrow> http_headers \<Rightarrow> string" where
  "hdr_host default_host hs = (case hdr_get ''Host'' hs of Some v \<Rightarrow> v | None \<Rightarrow> default_host)"

definition hdr_content_length :: "http_headers \<Rightarrow> nat option" where
  "hdr_content_length hs =
     (case hdr_get ''Content-Length'' hs of
        None \<Rightarrow> None
      | Some v \<Rightarrow> from_chars 10 size_max v)"

subsection \<open>Token lists\<close>

definition token_sep :: "char \<Rightarrow> bool" where
  "token_sep c \<longleftrightarrow> c = CHR '' '' \<or> c = CHR 0x09 \<or> c = CHR '',''"

text \<open>
  The scan both token queries run: skip separators, take the token up to the next separator,
  compare, go on behind it. The string argument is the part of the value from \<open>pos\<close> on.
\<close>

function has_token :: "string \<Rightarrow> string \<Rightarrow> bool" where
  "has_token needle s =
     (let s' = dropWhile token_sep s
      in if s' = [] then False
         else if iequal (takeWhile (\<lambda>c. \<not> token_sep c) s') needle then True
         else has_token needle (dropWhile (\<lambda>c. \<not> token_sep c) s'))"
  by pat_completeness auto
termination
proof (relation "measure (length \<circ> snd)", simp)
  fix s s' :: string
  assume s': "s' = dropWhile token_sep s" and ne: "s' \<noteq> []"
  obtain c t where c: "s' = c # t" using ne by (cases s') auto
  then have "\<not> token_sep c" using dropWhile_hd [of token_sep s] s' by auto
  then have "length (dropWhile (\<lambda>c. \<not> token_sep c) s') < length s'"
    using c by (simp add: length_dropWhile_Cons_less)
  also have "length s' \<le> length s" by (simp add: s' length_dropWhile_le)
  finally show "((needle, dropWhile (\<lambda>c. \<not> token_sep c) s'), needle, s) \<in> measure (length \<circ> snd)" for needle
    by simp
qed

declare has_token.simps [simp del]

definition hdr_is_chunked :: "http_headers \<Rightarrow> bool" where
  "hdr_is_chunked hs =
     (case hdr_get ''Transfer-Encoding'' hs of
        None \<Rightarrow> False
      | Some v \<Rightarrow> has_token ''chunked'' v)"

definition hdr_connection_keep_alive :: "http_headers \<Rightarrow> bool" where
  "hdr_connection_keep_alive hs =
     (case hdr_get ''Connection'' hs of
        None \<Rightarrow> True
      | Some v \<Rightarrow> \<not> has_token ''close'' v)"

subsection \<open>The comparator\<close>

definition lower_less :: "char \<Rightarrow> char \<Rightarrow> bool" where
  "lower_less a b \<longleftrightarrow> (of_char (tolower a) :: nat) < of_char (tolower b)"

fun header_name_less :: "string \<Rightarrow> string \<Rightarrow> bool" where
  "header_name_less [] [] = False"
| "header_name_less [] (y # ys) = True"
| "header_name_less (x # xs) [] = False"
| "header_name_less (x # xs) (y # ys) =
     (if lower_less x y then True else if lower_less y x then False else header_name_less xs ys)"

subsection \<open>Lookup laws\<close>

lemma hdr_contains_get: "hdr_contains name hs \<longleftrightarrow> hdr_get name hs \<noteq> None"
  by (induction hs) auto

lemma hdr_get_cong: "iequal a b \<Longrightarrow> hdr_get a hs = hdr_get b hs"
  by (induction hs) (auto simp: iequal_map)

lemma hdr_get_set: "hdr_get n (hdr_set m v hs) = (if iequal n m then Some v else hdr_get n hs)"
  by (induction hs) (auto simp: iequal_map)

lemma hdr_get_add: "hdr_get n (hdr_add m v hs) =
    (case hdr_get n hs of Some w \<Rightarrow> Some w | None \<Rightarrow> if iequal m n then Some v else None)"
  by (induction hs) (auto simp: hdr_add_def)

lemma hdr_get_remove: "hdr_get n (hdr_remove m hs) = (if iequal n m then None else hdr_get n hs)"
  by (induction hs) (auto simp: hdr_remove_def iequal_map)

lemma hdr_set_names: "map hf_name (hdr_set m v hs) = map hf_name hs @ (if hdr_contains m hs then [] else [m])"
  by (induction hs) auto

lemma hdr_get_append: "hdr_get n (a @ b) = (case hdr_get n a of Some v \<Rightarrow> Some v | None \<Rightarrow> hdr_get n b)"
  by (induction a) auto

lemma hdr_get_in: "hdr_get n hs = Some v \<Longrightarrow> \<exists>f \<in> set hs. iequal (hf_name f) n \<and> hf_value f = v"
  by (induction hs) (auto split: if_splits)

subsection \<open>The scan finds exactly the tokens of the list\<close>

text \<open>
  The reference: a token of a value is a maximal non-empty run of characters that are not
  separators.
\<close>

definition token_in :: "string \<Rightarrow> string \<Rightarrow> bool" where
  "token_in tok s \<longleftrightarrow>
     tok \<noteq> [] \<and> list_all (\<lambda>c. \<not> token_sep c) tok \<and>
     (\<exists>pre post. s = pre @ tok @ post \<and> (pre = [] \<or> token_sep (last pre))
        \<and> (post = [] \<or> token_sep (hd post)))"

lemma token_in_Nil [simp]: "\<not> token_in tok []"
  by (simp add: token_in_def)

lemma token_in_sep_Cons:
  assumes "token_sep c"
  shows "token_in tok (c # s) \<longleftrightarrow> token_in tok s"
proof
  assume t: "token_in tok (c # s)"
  then obtain pre post where e: "c # s = pre @ tok @ post" "pre = [] \<or> token_sep (last pre)"
      "post = [] \<or> token_sep (hd post)" and k: "tok \<noteq> []" "list_all (\<lambda>c. \<not> token_sep c) tok"
    by (auto simp: token_in_def)
  have "pre \<noteq> []"
    using e(1) k assms by (cases tok) auto
  then obtain pre' where p: "pre = c # pre'" "s = pre' @ tok @ post"
    using e(1) by (cases pre) auto
  moreover have "pre' = [] \<or> token_sep (last pre')" using e(2) p(1) by (cases "pre' = []") auto
  ultimately show "token_in tok s" using k e(3) by (auto simp: token_in_def)
next
  assume "token_in tok s"
  then obtain pre post where "s = pre @ tok @ post" "pre = [] \<or> token_sep (last pre)"
      "post = [] \<or> token_sep (hd post)" and k: "tok \<noteq> []" "list_all (\<lambda>c. \<not> token_sep c) tok"
    by (auto simp: token_in_def)
  then have "c # s = (c # pre) @ tok @ post \<and> token_sep (last (c # pre)) \<and> (post = [] \<or> token_sep (hd post))"
    using assms by auto
  then show "token_in tok (c # s)" using k unfolding token_in_def by blast
qed

lemma token_in_dropWhile: "token_in tok (dropWhile token_sep s) \<longleftrightarrow> token_in tok s"
  by (induction s) (auto simp: token_in_sep_Cons)

lemma token_in_run:
  assumes run: "list_all (\<lambda>c. \<not> token_sep c) t" "t \<noteq> []" and rest: "r = [] \<or> token_sep (hd r)"
  shows "token_in tok (t @ r) \<longleftrightarrow> tok = t \<or> token_in tok r"
proof
  assume "token_in tok (t @ r)"
  then obtain pre post where e: "t @ r = pre @ tok @ post" "pre = [] \<or> token_sep (last pre)"
      "post = [] \<or> token_sep (hd post)" and k: "tok \<noteq> []" "list_all (\<lambda>c. \<not> token_sep c) tok"
    by (auto simp: token_in_def)
  show "tok = t \<or> token_in tok r"
  proof (cases "pre = []")
    case True
    have "takeWhile (\<lambda>c. \<not> token_sep c) (t @ r) = t"
      using run rest by (cases r) (auto simp: list_all_iff takeWhile_append)
    moreover have "takeWhile (\<lambda>c. \<not> token_sep c) (tok @ post) = tok"
      using k e(3) by (cases post) (auto simp: list_all_iff takeWhile_append)
    ultimately show ?thesis using e(1) True by simp
  next
    case False
    then have sep: "token_sep (last pre)" using e(2) by simp
    have "length t \<le> length pre"
    proof (rule ccontr)
      assume "\<not> length t \<le> length pre"
      then have "last pre \<in> set t"
        using e(1) False by (metis append_eq_append_conv_if in_set_takeD last_in_set linear)
      then show False using run sep by (auto simp: list_all_iff)
    qed
    then obtain p where p: "pre = t @ p" "r = p @ tok @ post"
      using e(1) by (auto simp: append_eq_append_conv2 dest: arg_cong [of _ _ length])
    have "p = [] \<or> token_sep (last p)" using p(1) sep by (cases "p = []") auto
    then show ?thesis using p(2) k e(3) by (auto simp: token_in_def)
  qed
next
  assume "tok = t \<or> token_in tok r"
  then show "token_in tok (t @ r)"
  proof
    assume "tok = t"
    then show ?thesis
      using run rest unfolding token_in_def by (intro conjI exI [of _ "[]"] exI [of _ r]) auto
  next
    assume "token_in tok r"
    then obtain pre post where e: "r = pre @ tok @ post" "pre = [] \<or> token_sep (last pre)"
        "post = [] \<or> token_sep (hd post)" and k: "tok \<noteq> []" "list_all (\<lambda>c. \<not> token_sep c) tok"
      by (auto simp: token_in_def)
    have "pre \<noteq> []" using e(1) k rest by (cases tok) auto
    then have "t @ r = (t @ pre) @ tok @ post \<and> token_sep (last (t @ pre))"
      using e(1,2) by auto
    then show ?thesis using k e(3) unfolding token_in_def by blast
  qed
qed

lemma has_token_iff: "has_token needle s \<longleftrightarrow> (\<exists>tok. token_in tok s \<and> iequal tok needle)"
proof (induction needle s rule: has_token.induct)
  case (1 needle s)
  define s' where "s' = dropWhile token_sep s"
  show ?case
  proof (cases "s' = []")
    case True
    then have "\<not> token_in tok s" for tok
      by (metis s'_def token_in_Nil token_in_dropWhile)
    then show ?thesis using True by (simp add: has_token.simps [of needle s] s'_def Let_def)
  next
    case False
    let ?t = "takeWhile (\<lambda>c. \<not> token_sep c) s'" and ?r = "dropWhile (\<lambda>c. \<not> token_sep c) s'"
    have hd: "\<not> token_sep (hd s')" using dropWhile_hd False by (simp add: s'_def)
    have t: "list_all (\<lambda>c. \<not> token_sep c) ?t" "?t \<noteq> []"
      using hd False by (auto simp: list_all_iff takeWhile_eq_Nil_iff dest: set_takeWhileD)
    have r: "?r = [] \<or> token_sep (hd ?r)"
      using dropWhile_hd [of "\<lambda>c. \<not> token_sep c" s'] by blast
    have tokens: "token_in tok s \<longleftrightarrow> tok = ?t \<or> token_in tok ?r" for tok
      using token_in_run [OF t r, of tok] token_in_dropWhile [of tok s]
      by (simp only: s'_def [symmetric] takeWhile_dropWhile_id)
    have step: "has_token needle s = (if iequal ?t needle then True else has_token needle ?r)"
      using False by (subst has_token.simps) (simp only: s'_def [symmetric] Let_def if_False)
    show ?thesis
    proof (cases "iequal ?t needle")
      case True
      then show ?thesis using step tokens by auto
    next
      case False
      have "has_token needle ?r \<longleftrightarrow> (\<exists>tok. token_in tok ?r \<and> iequal tok needle)"
        using "1.IH" [OF s'_def \<open>s' \<noteq> []\<close> False] .
      then show ?thesis using False step tokens by auto
    qed
  qed
qed

subsection \<open>The comparator is a strict weak order whose ties are the equal names\<close>

lemma tolower_of_char_inj: "\<not> lower_less a b \<Longrightarrow> \<not> lower_less b a \<Longrightarrow> tolower a = tolower b"
  by (simp add: lower_less_def)

lemma header_name_less_irrefl [simp]: "\<not> header_name_less a a"
  by (induction a) (auto simp: lower_less_def)

lemma header_name_less_trans:
  "header_name_less a b \<Longrightarrow> header_name_less b c \<Longrightarrow> header_name_less a c"
proof (induction a b arbitrary: c rule: header_name_less.induct)
  case (4 x xs y ys)
  then show ?case by (cases c) (auto simp: lower_less_def split: if_splits)
next
  case (2 y ys)
  then show ?case by (cases c) auto
qed auto

lemma header_name_less_incomparable:
  "\<not> header_name_less a b \<and> \<not> header_name_less b a \<longleftrightarrow> iequal a b"
proof (induction a b rule: header_name_less.induct)
  case (4 x xs y ys)
  then show ?case
    by (auto simp: iequal_map lower_less_def split: if_splits)
qed (auto simp: iequal_map)

subsection \<open>The store interface\<close>

text \<open>
  The client fills in defaults: a header is set only when the request has none of that name. What it
  relies on is the lookup after a \<open>set\<close>, for names compared by \<open>same\<close>.
\<close>

definition default_header :: "('n \<Rightarrow> 's \<Rightarrow> bool) \<Rightarrow> ('n \<Rightarrow> 'v \<Rightarrow> 's \<Rightarrow> 's) \<Rightarrow> 'n \<Rightarrow> 'v \<Rightarrow> 's \<Rightarrow> 's" where
  "default_header has put n v s = (if has n s then s else put n v s)"

locale header_store =
  fixes same :: "'n \<Rightarrow> 'n \<Rightarrow> bool"
    and look :: "'n \<Rightarrow> 's \<Rightarrow> 'v option"
    and has :: "'n \<Rightarrow> 's \<Rightarrow> bool"
    and put :: "'n \<Rightarrow> 'v \<Rightarrow> 's \<Rightarrow> 's"
  assumes same_refl: "same n n"
    and has_look: "has n s \<longleftrightarrow> look n s \<noteq> None"
    and look_put: "look n (put m v s) = (if same n m then Some v else look n s)"
begin

lemma look_default:
  "look n (default_header has put m v s) =
     (if same n m \<and> look m s = None then Some v else look n s)"
  by (auto simp: default_header_def has_look look_put)

lemma default_provides: "look m (default_header has put m v s) =
    Some (case look m s of Some w \<Rightarrow> w | None \<Rightarrow> v)"
  by (auto simp: look_default same_refl split: option.splits)

lemma default_keeps: "look n s = Some w \<Longrightarrow> (same n m \<Longrightarrow> look m s = look n s) \<Longrightarrow>
    look n (default_header has put m v s) = Some w"
  by (auto simp: look_default)

lemma default_idem: "default_header has put m w (default_header has put m v s) = default_header has put m v s"
  using default_provides [of m v s] has_look [of m "default_header has put m v s"]
  by (simp add: default_header_def [of has put m w])

end

interpretation hs: header_store iequal hdr_get hdr_contains hdr_set
  by unfold_locales (simp_all add: hdr_contains_get hdr_get_set)

end
