(* ===== verification/Http_Response.thy ===== *)
theory Http_Response
  imports Byte_Buffer Http_Headers
begin

text \<open>
  \<open>include/vynx_http/http_response.h\<close> and \<open>src/http_response.cpp\<close>: the response, its classification
  and the reason phrases. The type of the body is a parameter, \<^typ>\<open>byte_buffer\<close> in the program and
  \<^typ>\<open>byte list\<close> in the specification of the parser.
\<close>

record 'b http_response =
  rs_status_code :: "16 word"
  rs_reason :: string
  rs_headers :: http_headers
  rs_body :: 'b

definition is_success :: "'b http_response \<Rightarrow> bool" where
  "is_success r \<longleftrightarrow> rs_status_code r \<ge> 200 \<and> rs_status_code r < 300"

definition is_redirect :: "'b http_response \<Rightarrow> bool" where
  "is_redirect r \<longleftrightarrow> rs_status_code r \<ge> 300 \<and> rs_status_code r < 400"

definition resp_is_chunked :: "'b http_response \<Rightarrow> bool" where
  "resp_is_chunked r = hdr_is_chunked (rs_headers r)"

definition resp_content_length :: "'b http_response \<Rightarrow> nat option" where
  "resp_content_length r = hdr_content_length (rs_headers r)"

text \<open>
  \<open>http_status\<close> has a fixed underlying type, so each \<open>uint16_t\<close> is one of its values and a cast
  changes nothing; the enumerators are the seventeen named ones.
\<close>

type_synonym http_status = "16 word"

definition resp_status :: "'b http_response \<Rightarrow> http_status" where
  "resp_status r = rs_status_code r"

definition status_table :: "(http_status \<times> string) list" where
  "status_table =
     [(200, ''OK''), (201, ''Created''), (204, ''No Content''), (301, ''Moved Permanently''),
      (302, ''Found''), (304, ''Not Modified''), (400, ''Bad Request''), (401, ''Unauthorized''),
      (403, ''Forbidden''), (404, ''Not Found''), (405, ''Method Not Allowed''),
      (408, ''Request Timeout''), (429, ''Too Many Requests''), (500, ''Internal Server Error''),
      (502, ''Bad Gateway''), (503, ''Service Unavailable''), (504, ''Gateway Timeout'')]"

definition reason_phrase :: "http_status \<Rightarrow> string" where
  "reason_phrase s = (case map_of status_table s of Some t \<Rightarrow> t | None \<Rightarrow> ''Unknown'')"

definition response_default :: "byte_buffer http_response" where
  "response_default = \<lparr>rs_status_code = 0, rs_reason = [], rs_headers = [], rs_body = bb_default\<rparr>"

definition resp_map_body :: "('b \<Rightarrow> 'c) \<Rightarrow> 'b http_response \<Rightarrow> 'c http_response" where
  "resp_map_body f r =
     \<lparr>rs_status_code = rs_status_code r, rs_reason = rs_reason r, rs_headers = rs_headers r,
      rs_body = f (rs_body r)\<rparr>"

lemma resp_map_body_sel [simp]:
  "rs_status_code (resp_map_body f r) = rs_status_code r"
  "rs_reason (resp_map_body f r) = rs_reason r"
  "rs_headers (resp_map_body f r) = rs_headers r"
  "rs_body (resp_map_body f r) = f (rs_body r)"
  by (simp_all add: resp_map_body_def)

lemma success_redirect_disjoint: "\<not> (is_success r \<and> is_redirect r)"
  by (auto simp: is_success_def is_redirect_def)

end
