(* ===== verification/Http_Parser.thy ===== *)
theory Http_Parser
  imports Http_Response
begin

text \<open>
  \<open>include/vynx_http/http_parser.h\<close> and \<open>src/http_parser.cpp\<close>: the incremental response parser. The
  state record has the members of the class. The body is filled through a write operation \<open>wr\<close>, which
  is \<^const>\<open>bb_write\<close> in the program; a result \<open>None\<close> is a call that never returns because that
  write does not.
\<close>

datatype parser_state =
    St_status_line
  | St_headers
  | St_body_raw
  | St_body_chunked
  | St_body_until_eof
  | St_complete
  | St_error

record 'b http_parser =
  hp_state :: parser_state
  hp_response :: "'b http_response"
  hp_error :: string
  hp_buffer :: string
  hp_body_remaining :: nat
  hp_content_length_set :: bool

definition max_chunk_size :: nat where
  "max_chunk_size = 64 * 1024 * 1024"

definition max_header_buffer :: nat where
  "max_header_buffer = 8192"

text \<open>The largest \<open>unsigned long\<close>; both its usual widths exceed \<^const>\<open>max_chunk_size\<close>.\<close>

definition ulong_max :: nat where
  "ulong_max = 2 ^ 32 - 1"

definition http_parser_init :: "byte_buffer http_parser" where
  "http_parser_init =
     \<lparr>hp_state = St_status_line, hp_response = response_default, hp_error = [], hp_buffer = [],
      hp_body_remaining = 0, hp_content_length_set = False\<rparr>"

subsection \<open>Status line\<close>

text \<open>
  The decimal loop runs on a 32-bit \<open>int\<close>. A digit string that exceeds it overflows, which C++ leaves
  undefined; the model wraps around, as the compilers the project names do without optimisation.
\<close>

fun status_digits :: "string \<Rightarrow> 32 word \<Rightarrow> 32 word option" where
  "status_digits [] code = Some code"
| "status_digits (c # cs) code =
     (if (of_char c :: nat) < 48 \<or> (of_char c :: nat) > 57 then None
      else status_digits cs (code * 10 + of_nat (of_char c - 48)))"

definition fail_with :: "error_code \<Rightarrow> string \<Rightarrow> 'b http_parser \<Rightarrow> vresult \<times> 'b http_parser" where
  "fail_with ec msg p = (ec, p\<lparr>hp_error := msg\<rparr>)"

definition parse_status_line :: "string \<Rightarrow> 'b http_parser \<Rightarrow> vresult \<times> 'b http_parser" where
  "parse_status_line line p =
     (case find_char (CHR '' '') line of
        None \<Rightarrow> fail_with http_parse_error ''missing status code in status line'' p
      | Some sp1 \<Rightarrow>
          let version = take sp1 line; rest = drop (sp1 + 1) line
          in if length version < 8 \<or> take 7 version \<noteq> ''HTTP/1.''
             then fail_with http_invalid_version ''invalid HTTP version'' p
             else let code_str = (case find_char (CHR '' '') rest of None \<Rightarrow> rest | Some k \<Rightarrow> take k rest);
                      reason = (case find_char (CHR '' '') rest of None \<Rightarrow> [] | Some k \<Rightarrow> drop (k + 1) rest)
                  in if code_str = [] then fail_with http_parse_error ''empty status code'' p
                     else case status_digits code_str 0 of
                            None \<Rightarrow> fail_with http_parse_error ''non-digit in status code'' p
                          | Some code \<Rightarrow>
                              if sint code < 100 \<or> sint code > 599
                              then fail_with http_parse_error ''status code out of range'' p
                              else (ec_ok, p\<lparr>hp_response := (hp_response p)
                                     \<lparr>rs_status_code := ucast code, rs_reason := reason\<rparr>\<rparr>))"

subsection \<open>Header lines\<close>

definition ows :: "char \<Rightarrow> bool" where
  "ows c \<longleftrightarrow> c = CHR '' '' \<or> c = CHR 0x09"

definition parse_header_line :: "string \<Rightarrow> 'b http_parser \<Rightarrow> vresult \<times> 'b http_parser" where
  "parse_header_line line p =
     (case find_char (CHR '':'') line of
        None \<Rightarrow> fail_with http_invalid_header ''missing colon in header line'' p
      | Some colon \<Rightarrow>
          let name = take colon line;
              val = rtrim ows (ltrim ows (drop (colon + 1) line))
          in if name = [] then fail_with http_invalid_header ''empty header name'' p
             else (ec_ok, p\<lparr>hp_response := (hp_response p)
                    \<lparr>rs_headers := hdr_add name val (rs_headers (hp_response p))\<rparr>\<rparr>))"

subsection \<open>Body\<close>

definition write_body :: "(byte list \<Rightarrow> 'b \<Rightarrow> 'b option) \<Rightarrow> byte list \<Rightarrow> 'b http_parser \<Rightarrow> 'b http_parser option" where
  "write_body wr bs p =
     (case wr bs (rs_body (hp_response p)) of
        None \<Rightarrow> None
      | Some b \<Rightarrow> Some (p\<lparr>hp_response := (hp_response p)\<lparr>rs_body := b\<rparr>\<rparr>))"

text \<open>The hex digits of a chunk-size line: extensions and leading blanks dropped.\<close>

definition chunk_hex :: "string \<Rightarrow> string" where
  "chunk_hex line =
     ltrim (\<lambda>c. c = CHR '' '') (case find_char (CHR '';'') line of Some semi \<Rightarrow> take semi line | None \<Rightarrow> line)"

lemma write_body_buffer: "write_body wr bs p = Some p' \<Longrightarrow> hp_buffer p' = hp_buffer p"
  by (auto simp: write_body_def split: option.splits)

function chunk_loop :: "(byte list \<Rightarrow> 'b \<Rightarrow> 'b option) \<Rightarrow> 'b http_parser \<Rightarrow> (vresult \<times> 'b http_parser) option" where
  "chunk_loop wr p =
     (case find_str crlf (hp_buffer p) of
        None \<Rightarrow> Some (ec_ok, p)
      | Some pos \<Rightarrow>
          let hex_str = chunk_hex (take pos (hp_buffer p))
          in if hex_str = [] then Some (fail_with http_chunked_encoding_error ''empty chunk size'' p)
             else case from_chars 16 ulong_max hex_str of
                    None \<Rightarrow> Some (fail_with http_chunked_encoding_error
                                    ''chunk size overflow or exceeds maximum'' p)
                  | Some chunk_size \<Rightarrow>
                      if chunk_size > max_chunk_size
                      then Some (fail_with http_chunked_encoding_error
                                    ''chunk size overflow or exceeds maximum'' p)
                      else let buf = drop (pos + 2) (hp_buffer p)
                           in if chunk_size = 0
                              then let buf' = (if length buf \<ge> 2 \<and> take 2 buf = crlf then drop 2 buf else buf)
                                   in Some (ec_ok, p\<lparr>hp_buffer := buf', hp_state := St_complete\<rparr>)
                              else if length buf < chunk_size + 2
                                   then Some (ec_ok, p\<lparr>hp_buffer := buf\<rparr>)
                                   else case write_body wr (take chunk_size buf) (p\<lparr>hp_buffer := buf\<rparr>) of
                                          None \<Rightarrow> None
                                        | Some p' \<Rightarrow> chunk_loop wr (p'\<lparr>hp_buffer := drop (chunk_size + 2) buf\<rparr>))"
  by pat_completeness auto
termination
  by (relation "measure (\<lambda>(wr, p). length (hp_buffer p))") (auto dest: find_str_bound)

declare chunk_loop.simps [simp del]

definition process_body :: "(byte list \<Rightarrow> 'b \<Rightarrow> 'b option) \<Rightarrow> 'b http_parser \<Rightarrow> (vresult \<times> 'b http_parser) option" where
  "process_body wr p =
     (case hp_state p of
        St_body_raw \<Rightarrow>
          if hp_body_remaining p = 0 then Some (ec_ok, p\<lparr>hp_state := St_complete\<rparr>)
          else if hp_buffer p = [] then Some (ec_ok, p)
          else let to_read = min (hp_body_remaining p) (length (hp_buffer p))
               in (case write_body wr (take to_read (hp_buffer p)) p of
                     None \<Rightarrow> None
                   | Some p' \<Rightarrow>
                       let left = hp_body_remaining p - to_read;
                           p'' = p'\<lparr>hp_buffer := drop to_read (hp_buffer p), hp_body_remaining := left\<rparr>
                       in Some (ec_ok, if left = 0 then p''\<lparr>hp_state := St_complete\<rparr> else p''))
      | St_body_chunked \<Rightarrow> chunk_loop wr p
      | St_body_until_eof \<Rightarrow>
          if hp_buffer p \<noteq> []
          then (case write_body wr (hp_buffer p) p of
                  None \<Rightarrow> None
                | Some p' \<Rightarrow> Some (ec_ok, p'\<lparr>hp_buffer := []\<rparr>))
          else Some (ec_ok, p)
      | _ \<Rightarrow> Some (ec_ok, p))"

subsection \<open>The feed loop\<close>

lemma parse_status_line_frame:
  "hp_buffer (snd (parse_status_line l p)) = hp_buffer p"
  "hp_state (snd (parse_status_line l p)) = hp_state p"
  "hp_body_remaining (snd (parse_status_line l p)) = hp_body_remaining p"
  "hp_content_length_set (snd (parse_status_line l p)) = hp_content_length_set p"
  by (auto simp: parse_status_line_def fail_with_def Let_def split: option.splits)

lemma parse_header_line_frame:
  "hp_buffer (snd (parse_header_line l p)) = hp_buffer p"
  "hp_state (snd (parse_header_line l p)) = hp_state p"
  "hp_body_remaining (snd (parse_header_line l p)) = hp_body_remaining p"
  "hp_content_length_set (snd (parse_header_line l p)) = hp_content_length_set p"
  by (auto simp: parse_header_line_def fail_with_def Let_def split: option.splits)

text \<open>What the empty line decides: how the body is framed.\<close>

definition end_of_headers :: "'b http_parser \<Rightarrow> 'b http_parser" where
  "end_of_headers p =
     (if resp_is_chunked (hp_response p) then p\<lparr>hp_state := St_body_chunked\<rparr>
      else case resp_content_length (hp_response p) of
             Some n \<Rightarrow> p\<lparr>hp_body_remaining := n, hp_content_length_set := True, hp_state := St_body_raw\<rparr>
           | None \<Rightarrow> p\<lparr>hp_state := St_body_until_eof\<rparr>)"

lemma end_of_headers_buffer [simp]: "hp_buffer (end_of_headers p) = hp_buffer p"
  by (simp add: end_of_headers_def split: option.splits)

definition header_overflow :: "'b http_parser \<Rightarrow> vresult \<times> 'b http_parser" where
  "header_overflow p =
     (http_parse_error, p\<lparr>hp_error := ''header section exceeds maximum size'', hp_state := St_error\<rparr>)"

definition enter_error :: "vresult \<times> 'b http_parser \<Rightarrow> vresult \<times> 'b http_parser" where
  "enter_error rp = (if v_has_error (fst rp) then (fst rp, (snd rp)\<lparr>hp_state := St_error\<rparr>) else rp)"

text \<open>
  One unfolding is one pass of the \<open>while (progress)\<close> loop: a pass that consumes a line goes round
  again, every other pass ends the call.
\<close>

function feed_loop :: "(byte list \<Rightarrow> 'b \<Rightarrow> 'b option) \<Rightarrow> 'b http_parser \<Rightarrow> (vresult \<times> 'b http_parser) option" where
  "feed_loop wr p =
     (case hp_state p of
        St_status_line \<Rightarrow>
          (case find_str crlf (hp_buffer p) of
             None \<Rightarrow> Some (if length (hp_buffer p) > max_header_buffer then header_overflow p else (ec_ok, p))
           | Some pos \<Rightarrow>
               let rp = parse_status_line (take pos (hp_buffer p)) p
               in if v_has_error (fst rp) then Some (enter_error rp)
                  else feed_loop wr ((snd rp)\<lparr>hp_buffer := drop (pos + 2) (hp_buffer p), hp_state := St_headers\<rparr>))
      | St_headers \<Rightarrow>
          (case find_str crlf (hp_buffer p) of
             None \<Rightarrow> Some (if length (hp_buffer p) > max_header_buffer then header_overflow p else (ec_ok, p))
           | Some pos \<Rightarrow>
               if pos = 0 then feed_loop wr (end_of_headers (p\<lparr>hp_buffer := drop 2 (hp_buffer p)\<rparr>))
               else let rp = parse_header_line (take pos (hp_buffer p)) p
                    in if v_has_error (fst rp) then Some (enter_error rp)
                       else feed_loop wr ((snd rp)\<lparr>hp_buffer := drop (pos + 2) (hp_buffer p)\<rparr>))
      | St_body_raw \<Rightarrow> map_option enter_error (process_body wr p)
      | St_body_chunked \<Rightarrow> map_option enter_error (process_body wr p)
      | St_body_until_eof \<Rightarrow> map_option enter_error (process_body wr p)
      | St_complete \<Rightarrow> Some (ec_ok, p)
      | St_error \<Rightarrow> Some (ec_ok, p))"
  by pat_completeness auto
termination
  by (relation "measure (\<lambda>(wr, p). length (hp_buffer p))") (auto dest: find_str_bound)

declare feed_loop.simps [simp del]

definition feed_with :: "(byte list \<Rightarrow> 'b \<Rightarrow> 'b option) \<Rightarrow> byte list \<Rightarrow> 'b http_parser \<Rightarrow> (vresult \<times> 'b http_parser) option" where
  "feed_with wr data p =
     (if hp_state p = St_error \<or> hp_state p = St_complete then Some (make_result_void, p)
      else feed_loop wr (p\<lparr>hp_buffer := hp_buffer p @ data\<rparr>))"

definition feed :: "byte list \<Rightarrow> byte_buffer http_parser \<Rightarrow> (vresult \<times> byte_buffer http_parser) option" where
  "feed data p = feed_with bb_write data p"

subsection \<open>The other operations\<close>

definition hp_reset :: "byte_buffer http_parser \<Rightarrow> byte_buffer http_parser" where
  "hp_reset p =
     p\<lparr>hp_state := St_status_line,
       hp_response := \<lparr>rs_status_code = 0, rs_reason = [], rs_headers = hdr_clear (rs_headers (hp_response p)),
                       rs_body = bb_reset (rs_body (hp_response p))\<rparr>,
       hp_error := [], hp_buffer := [], hp_body_remaining := 0, hp_content_length_set := False\<rparr>"

text \<open>
  Moving the response out leaves its buffer without an array and its vector without elements; the
  moved-from string, whose value the standard leaves open, is taken to be empty.
\<close>

definition release_response :: "byte_buffer http_parser \<Rightarrow> byte_buffer http_response \<times> byte_buffer http_parser" where
  "release_response p =
     (hp_response p,
      p\<lparr>hp_response := \<lparr>rs_status_code = rs_status_code (hp_response p), rs_reason = [],
                        rs_headers = [], rs_body = snd (bb_move (rs_body (hp_response p)))\<rparr>\<rparr>)"

definition parse_response :: "byte list \<Rightarrow> byte_buffer http_response result option" where
  "parse_response data =
     (case feed data http_parser_init of
        None \<Rightarrow> None
      | Some (r, p) \<Rightarrow>
          Some (if v_has_error r then Inl r
                else if hp_state p = St_error then Inl http_parse_error
                else if hp_state p \<noteq> St_complete then Inl http_parse_error
                else Inr (fst (release_response p))))"

subsection \<open>One pass at a time\<close>

text \<open>The size a chunk-size line announces; \<open>None\<close> when the line is refused.\<close>

definition chunk_size_of :: "string \<Rightarrow> nat option" where
  "chunk_size_of line =
     (if chunk_hex line = [] then None
      else case from_chars 16 ulong_max (chunk_hex line) of
             None \<Rightarrow> None
           | Some n \<Rightarrow> if n > max_chunk_size then None else Some n)"

definition bad_chunk_message :: "string \<Rightarrow> string" where
  "bad_chunk_message line =
     (if chunk_hex line = [] then ''empty chunk size'' else ''chunk size overflow or exceeds maximum'')"

definition after_last_chunk :: "string \<Rightarrow> string" where
  "after_last_chunk buf = (if length buf \<ge> 2 \<and> take 2 buf = crlf then drop 2 buf else buf)"

lemma chunk_loop_unfold:
  "chunk_loop wr p =
     (case find_str crlf (hp_buffer p) of
        None \<Rightarrow> Some (ec_ok, p)
      | Some pos \<Rightarrow>
          (case chunk_size_of (take pos (hp_buffer p)) of
             None \<Rightarrow> Some (fail_with http_chunked_encoding_error (bad_chunk_message (take pos (hp_buffer p))) p)
           | Some n \<Rightarrow>
               let buf = drop (pos + 2) (hp_buffer p)
               in if n = 0 then Some (ec_ok, p\<lparr>hp_buffer := after_last_chunk buf, hp_state := St_complete\<rparr>)
                  else if length buf < n + 2 then Some (ec_ok, p\<lparr>hp_buffer := buf\<rparr>)
                  else case write_body wr (take n buf) (p\<lparr>hp_buffer := buf\<rparr>) of
                         None \<Rightarrow> None
                       | Some p' \<Rightarrow> chunk_loop wr (p'\<lparr>hp_buffer := drop (n + 2) buf\<rparr>)))"
  by (subst chunk_loop.simps)
    (simp add: chunk_size_of_def bad_chunk_message_def after_last_chunk_def Let_def split: option.split)

lemma chunk_loop_no_line: "find_str crlf (hp_buffer p) = None \<Longrightarrow> chunk_loop wr p = Some (ec_ok, p)"
  by (simp add: chunk_loop_unfold [of wr p])

lemma chunk_loop_bad:
  "find_str crlf (hp_buffer p) = Some pos \<Longrightarrow> chunk_size_of (take pos (hp_buffer p)) = None \<Longrightarrow>
   chunk_loop wr p = Some (fail_with http_chunked_encoding_error (bad_chunk_message (take pos (hp_buffer p))) p)"
  by (simp add: chunk_loop_unfold [of wr p])

lemma chunk_loop_last:
  "find_str crlf (hp_buffer p) = Some pos \<Longrightarrow> chunk_size_of (take pos (hp_buffer p)) = Some 0 \<Longrightarrow>
   chunk_loop wr p =
     Some (ec_ok, p\<lparr>hp_buffer := after_last_chunk (drop (pos + 2) (hp_buffer p)), hp_state := St_complete\<rparr>)"
  by (simp add: chunk_loop_unfold [of wr p])

lemma chunk_loop_wait:
  "find_str crlf (hp_buffer p) = Some pos \<Longrightarrow> chunk_size_of (take pos (hp_buffer p)) = Some n \<Longrightarrow> 0 < n \<Longrightarrow>
   buf = drop (pos + 2) (hp_buffer p) \<Longrightarrow> length buf < n + 2 \<Longrightarrow>
   chunk_loop wr p = Some (ec_ok, p\<lparr>hp_buffer := buf\<rparr>)"
  by (simp add: chunk_loop_unfold [of wr p])

lemma chunk_loop_more:
  "find_str crlf (hp_buffer p) = Some pos \<Longrightarrow> chunk_size_of (take pos (hp_buffer p)) = Some n \<Longrightarrow> 0 < n \<Longrightarrow>
   buf = drop (pos + 2) (hp_buffer p) \<Longrightarrow> n + 2 \<le> length buf \<Longrightarrow>
   chunk_loop wr p =
     (case write_body wr (take n buf) (p\<lparr>hp_buffer := buf\<rparr>) of
        None \<Rightarrow> None
      | Some p' \<Rightarrow> chunk_loop wr (p'\<lparr>hp_buffer := drop (n + 2) buf\<rparr>))"
  by (simp add: chunk_loop_unfold [of wr p] Let_def cong: option.case_cong)

text \<open>The five outcomes of a pass over the chunks.\<close>

lemma chunk_cases:
  obtains (no_line) "find_str crlf (hp_buffer p) = None"
  | (bad) pos where "find_str crlf (hp_buffer p) = Some pos" "chunk_size_of (take pos (hp_buffer p)) = None"
  | (last) pos where "find_str crlf (hp_buffer p) = Some pos" "chunk_size_of (take pos (hp_buffer p)) = Some 0"
  | (wait) pos n buf where "find_str crlf (hp_buffer p) = Some pos"
      "chunk_size_of (take pos (hp_buffer p)) = Some n" "0 < n" "buf = drop (pos + 2) (hp_buffer p)"
      "length buf < n + 2"
  | (more) pos n buf where "find_str crlf (hp_buffer p) = Some pos"
      "chunk_size_of (take pos (hp_buffer p)) = Some n" "0 < n" "buf = drop (pos + 2) (hp_buffer p)"
      "n + 2 \<le> length buf"
proof (cases "find_str crlf (hp_buffer p)")
  case None
  then show ?thesis by (rule no_line)
next
  case f: (Some pos)
  show ?thesis
  proof (cases "chunk_size_of (take pos (hp_buffer p))")
    case None
    with f show ?thesis by (rule bad)
  next
    case n: (Some n)
    consider "n = 0" | "0 < n" "length (drop (pos + 2) (hp_buffer p)) < n + 2"
      | "0 < n" "n + 2 \<le> length (drop (pos + 2) (hp_buffer p))"
      by linarith
    then show ?thesis
    proof cases
      case 1
      then show ?thesis using last [OF f] n by simp
    next
      case 2
      then show ?thesis using wait [OF f n _ refl] by blast
    next
      case 3
      then show ?thesis using more [OF f n _ refl] by blast
    qed
  qed
qed

lemma feed_loop_status_none:
  "hp_state p = St_status_line \<or> hp_state p = St_headers \<Longrightarrow> find_str crlf (hp_buffer p) = None \<Longrightarrow>
   feed_loop wr p = Some (if length (hp_buffer p) > max_header_buffer then header_overflow p else (ec_ok, p))"
  by (auto simp: feed_loop.simps [of wr p])

lemma feed_loop_status_line:
  "hp_state p = St_status_line \<Longrightarrow> find_str crlf (hp_buffer p) = Some pos \<Longrightarrow>
   feed_loop wr p =
     (let rp = parse_status_line (take pos (hp_buffer p)) p
      in if v_has_error (fst rp) then Some (enter_error rp)
         else feed_loop wr ((snd rp)\<lparr>hp_buffer := drop (pos + 2) (hp_buffer p), hp_state := St_headers\<rparr>))"
  by (simp add: feed_loop.simps [of wr p])

lemma feed_loop_header_line:
  "hp_state p = St_headers \<Longrightarrow> find_str crlf (hp_buffer p) = Some pos \<Longrightarrow> pos \<noteq> 0 \<Longrightarrow>
   feed_loop wr p =
     (let rp = parse_header_line (take pos (hp_buffer p)) p
      in if v_has_error (fst rp) then Some (enter_error rp)
         else feed_loop wr ((snd rp)\<lparr>hp_buffer := drop (pos + 2) (hp_buffer p)\<rparr>))"
  by (simp add: feed_loop.simps [of wr p])

lemma feed_loop_empty_line:
  "hp_state p = St_headers \<Longrightarrow> find_str crlf (hp_buffer p) = Some 0 \<Longrightarrow>
   feed_loop wr p = feed_loop wr (end_of_headers (p\<lparr>hp_buffer := drop 2 (hp_buffer p)\<rparr>))"
  by (simp add: feed_loop.simps [of wr p])

definition in_body :: "'b http_parser \<Rightarrow> bool" where
  "in_body p \<longleftrightarrow> hp_state p \<in> {St_body_raw, St_body_chunked, St_body_until_eof}"

definition at_rest :: "'b http_parser \<Rightarrow> bool" where
  "at_rest p \<longleftrightarrow> hp_state p \<in> {St_complete, St_error}"

lemma feed_loop_body: "in_body p \<Longrightarrow> feed_loop wr p = map_option enter_error (process_body wr p)"
  by (auto simp: feed_loop.simps [of wr p] in_body_def)

lemma feed_loop_rest: "at_rest p \<Longrightarrow> feed_loop wr p = Some (ec_ok, p)"
  by (auto simp: feed_loop.simps [of wr p] at_rest_def)

text \<open>The cases of one pass of the feed loop.\<close>

lemma feed_cases:
  obtains (no_line) "hp_state p = St_status_line \<or> hp_state p = St_headers" "find_str crlf (hp_buffer p) = None"
  | (status) pos where "hp_state p = St_status_line" "find_str crlf (hp_buffer p) = Some pos"
  | (header) pos where "hp_state p = St_headers" "find_str crlf (hp_buffer p) = Some pos" "pos \<noteq> 0"
  | (empty) "hp_state p = St_headers" "find_str crlf (hp_buffer p) = Some 0"
  | (body) "in_body p"
  | (rest) "at_rest p"
  unfolding in_body_def at_rest_def
  by (cases "hp_state p"; cases "find_str crlf (hp_buffer p)") auto

end
