(* ===== verification/Http_Parser_Spec.thy ===== *)
theory Http_Parser_Spec
  imports Http_Parser
begin

text \<open>
  The specification of the body buffer: the same passes over a body that is a plain list of bytes
  (what the passes themselves should do is the matter of \<open>Http_Reference\<close>). The client lemmas of the buffer interface show that filling any lawful buffer simulates
  the specification and always returns; they are used on \<^typ>\<open>byte_buffer\<close> through \<open>bq\<close>.
\<close>

definition push :: "byte list \<Rightarrow> byte list \<Rightarrow> byte list option" where
  "push bs body = Some (body @ bs)"

definition hp_map_body :: "('b \<Rightarrow> 'c) \<Rightarrow> 'b http_parser \<Rightarrow> 'c http_parser" where
  "hp_map_body f p =
     \<lparr>hp_state = hp_state p, hp_response = resp_map_body f (hp_response p), hp_error = hp_error p,
      hp_buffer = hp_buffer p, hp_body_remaining = hp_body_remaining p,
      hp_content_length_set = hp_content_length_set p\<rparr>"

type_synonym spec_parser = "byte list http_parser"

definition spec_init :: spec_parser where
  "spec_init =
     \<lparr>hp_state = St_status_line,
      hp_response = \<lparr>rs_status_code = 0, rs_reason = [], rs_headers = [], rs_body = []\<rparr>,
      hp_error = [], hp_buffer = [], hp_body_remaining = 0, hp_content_length_set = False\<rparr>"

definition spec_loop :: "spec_parser \<Rightarrow> vresult \<times> spec_parser" where
  "spec_loop p = the (feed_loop push p)"

definition spec_feed :: "byte list \<Rightarrow> spec_parser \<Rightarrow> vresult \<times> spec_parser" where
  "spec_feed data p = the (feed_with push data p)"

subsection \<open>The abstraction commutes with every step that leaves the body alone\<close>

lemma hp_map_body_sel [simp]:
  "hp_state (hp_map_body f p) = hp_state p"
  "hp_response (hp_map_body f p) = resp_map_body f (hp_response p)"
  "hp_error (hp_map_body f p) = hp_error p"
  "hp_buffer (hp_map_body f p) = hp_buffer p"
  "hp_body_remaining (hp_map_body f p) = hp_body_remaining p"
  "hp_content_length_set (hp_map_body f p) = hp_content_length_set p"
  by (simp_all add: hp_map_body_def)

lemma hp_map_body_upd [simp]:
  "hp_map_body f (p\<lparr>hp_state := s\<rparr>) = (hp_map_body f p)\<lparr>hp_state := s\<rparr>"
  "hp_map_body f (p\<lparr>hp_error := e\<rparr>) = (hp_map_body f p)\<lparr>hp_error := e\<rparr>"
  "hp_map_body f (p\<lparr>hp_buffer := b\<rparr>) = (hp_map_body f p)\<lparr>hp_buffer := b\<rparr>"
  "hp_map_body f (p\<lparr>hp_body_remaining := n\<rparr>) = (hp_map_body f p)\<lparr>hp_body_remaining := n\<rparr>"
  "hp_map_body f (p\<lparr>hp_content_length_set := c\<rparr>) = (hp_map_body f p)\<lparr>hp_content_length_set := c\<rparr>"
  "hp_map_body f (p\<lparr>hp_response := r\<rparr>) = (hp_map_body f p)\<lparr>hp_response := resp_map_body f r\<rparr>"
  by (simp_all add: hp_map_body_def)

lemma resp_map_body_upd [simp]:
  "resp_map_body f (r\<lparr>rs_status_code := c, rs_reason := t\<rparr>) =
     (resp_map_body f r)\<lparr>rs_status_code := c, rs_reason := t\<rparr>"
  "resp_map_body f (r\<lparr>rs_headers := hs\<rparr>) = (resp_map_body f r)\<lparr>rs_headers := hs\<rparr>"
  "resp_map_body f (r\<lparr>rs_body := b\<rparr>) = (resp_map_body f r)\<lparr>rs_body := f b\<rparr>"
  by (simp_all add: resp_map_body_def)

lemma fail_with_map: "fail_with e m (hp_map_body f p) = map_prod id (hp_map_body f) (fail_with e m p)"
  by (simp add: fail_with_def)

lemma parse_status_line_map:
  "parse_status_line l (hp_map_body f p) = map_prod id (hp_map_body f) (parse_status_line l p)"
  by (simp add: parse_status_line_def fail_with_map Let_def split: option.split)

lemma parse_header_line_map:
  "parse_header_line l (hp_map_body f p) = map_prod id (hp_map_body f) (parse_header_line l p)"
  by (simp add: parse_header_line_def fail_with_map Let_def split: option.split)

lemma end_of_headers_map: "end_of_headers (hp_map_body f p) = hp_map_body f (end_of_headers p)"
  by (simp add: end_of_headers_def resp_is_chunked_def resp_content_length_def split: option.split)

lemma header_overflow_map: "header_overflow (hp_map_body f p) = map_prod id (hp_map_body f) (header_overflow p)"
  by (simp add: header_overflow_def)

lemma enter_error_map: "enter_error (map_prod id (hp_map_body f) rp) = map_prod id (hp_map_body f) (enter_error rp)"
  by (cases rp) (simp add: enter_error_def)

subsection \<open>What the line parsers leave of the body\<close>

lemma parse_status_line_body [simp]:
  "rs_body (hp_response (snd (parse_status_line l p))) = rs_body (hp_response p)"
  by (auto simp: parse_status_line_def fail_with_def Let_def split: option.splits)

lemma parse_header_line_body [simp]:
  "rs_body (hp_response (snd (parse_header_line l p))) = rs_body (hp_response p)"
  by (auto simp: parse_header_line_def fail_with_def Let_def split: option.splits)

lemma end_of_headers_response [simp]: "hp_response (end_of_headers p) = hp_response p"
  by (simp add: end_of_headers_def split: option.splits)

lemma header_overflow_body [simp]: "hp_response (snd (header_overflow p)) = hp_response p"
  by (simp add: header_overflow_def)

lemma enter_error_response [simp]: "hp_response (snd (enter_error rp)) = hp_response (snd rp)"
  by (simp add: enter_error_def)

subsection \<open>Filling a lawful buffer simulates the specification\<close>

context byte_sink begin

lemma write_body_sim:
  assumes "live (rs_body (hp_response p))"
  shows "\<exists>p'. write_body put bs p = Some p' \<and> live (rs_body (hp_response p'))
     \<and> write_body push bs (hp_map_body contents p) = Some (hp_map_body contents p')"
  using put_law [OF assms, of bs] by (auto simp: write_body_def push_def)

lemma chunk_loop_sim:
  "live (rs_body (hp_response p)) \<Longrightarrow>
   \<exists>r p'. chunk_loop put p = Some (r, p') \<and> live (rs_body (hp_response p'))
     \<and> chunk_loop push (hp_map_body contents p) = Some (r, hp_map_body contents p')"
proof (induction "length (hp_buffer p)" arbitrary: p rule: less_induct)
  case less
  show ?case
  proof (cases p rule: chunk_cases)
    case no_line
    then show ?thesis using less.prems by (simp add: chunk_loop_no_line)
  next
    case (bad pos)
    then show ?thesis using less.prems by (simp add: chunk_loop_bad fail_with_def)
  next
    case (last pos)
    then show ?thesis using less.prems by (simp add: chunk_loop_last)
  next
    case (wait pos n buf)
    then show ?thesis using less.prems by (simp add: chunk_loop_wait)
  next
    case (more pos n buf)
    obtain p1 where p1: "write_body put (take n buf) (p\<lparr>hp_buffer := buf\<rparr>) = Some p1"
        "live (rs_body (hp_response p1))"
        "write_body push (take n buf) ((hp_map_body contents p)\<lparr>hp_buffer := buf\<rparr>) = Some (hp_map_body contents p1)"
      using write_body_sim [of "p\<lparr>hp_buffer := buf\<rparr>" "take n buf"] less.prems by auto
    let ?p = "p1\<lparr>hp_buffer := drop (n + 2) buf\<rparr>"
    have "chunk_loop put p = chunk_loop put ?p"
      by (simp add: chunk_loop_more [OF more] p1)
    moreover have "chunk_loop push (hp_map_body contents p) = chunk_loop push (hp_map_body contents ?p)"
      using chunk_loop_more [of "hp_map_body contents p" pos n buf push] more p1(3) by simp
    moreover have "length (hp_buffer ?p) < length (hp_buffer p)"
      using find_str_bound [OF more(1)] more by simp
    ultimately show ?thesis
      using less.hyps [of ?p] p1(2) by simp
  qed
qed

lemma process_body_sim:
  assumes "live (rs_body (hp_response p))"
  shows "\<exists>r p'. process_body put p = Some (r, p') \<and> live (rs_body (hp_response p'))
     \<and> process_body push (hp_map_body contents p) = Some (r, hp_map_body contents p')"
proof (cases "hp_state p")
  case St_body_raw
  let ?bs = "take (min (hp_body_remaining p) (length (hp_buffer p))) (hp_buffer p)"
  obtain p1 where "write_body put ?bs p = Some p1" "live (rs_body (hp_response p1))"
      "write_body push ?bs (hp_map_body contents p) = Some (hp_map_body contents p1)"
    using write_body_sim [OF assms] by blast
  then show ?thesis
    using St_body_raw assms by (simp add: process_body_def Let_def)
next
  case St_body_chunked
  then show ?thesis using chunk_loop_sim [OF assms] by (simp add: process_body_def)
next
  case St_body_until_eof
  obtain p1 where "write_body put (hp_buffer p) p = Some p1" "live (rs_body (hp_response p1))"
      "write_body push (hp_buffer p) (hp_map_body contents p) = Some (hp_map_body contents p1)"
    using write_body_sim [OF assms] by blast
  then show ?thesis
    using St_body_until_eof assms by (simp add: process_body_def)
qed (use assms in \<open>simp_all add: process_body_def\<close>)

lemma feed_loop_sim:
  "live (rs_body (hp_response p)) \<Longrightarrow>
   \<exists>r p'. feed_loop put p = Some (r, p') \<and> live (rs_body (hp_response p'))
     \<and> feed_loop push (hp_map_body contents p) = Some (r, hp_map_body contents p')"
proof (induction "length (hp_buffer p)" arbitrary: p rule: less_induct)
  case less
  let ?a = "hp_map_body contents p"
  show ?case
  proof (cases p rule: feed_cases)
    case no_line
    then show ?thesis
      using less.prems by (simp add: feed_loop_status_none header_overflow_map header_overflow_def)
  next
    case (status pos)
    let ?l = "take pos (hp_buffer p)"
    obtain r p1 where rp: "parse_status_line ?l p = (r, p1)" by fastforce
    have ra: "parse_status_line ?l ?a = (r, hp_map_body contents p1)"
      by (simp add: parse_status_line_map rp)
    have l1: "live (rs_body (hp_response p1))"
      using parse_status_line_body [of ?l p] rp less.prems by simp
    show ?thesis
    proof (cases "v_has_error r")
      case True
      then show ?thesis
        using l1 status rp ra feed_loop_status_line [of p pos put] feed_loop_status_line [of ?a pos push]
        by (simp add: enter_error_def)
    next
      case False
      let ?p = "p1\<lparr>hp_buffer := drop (pos + 2) (hp_buffer p), hp_state := St_headers\<rparr>"
      have "length (hp_buffer ?p) < length (hp_buffer p)"
        using find_str_bound [OF status(2)] by simp
      then show ?thesis
        using less.hyps [of ?p] l1 False status rp ra feed_loop_status_line [of p pos put]
          feed_loop_status_line [of ?a pos push] by simp
    qed
  next
    case (header pos)
    let ?l = "take pos (hp_buffer p)"
    obtain r p1 where rp: "parse_header_line ?l p = (r, p1)" by fastforce
    have ra: "parse_header_line ?l ?a = (r, hp_map_body contents p1)"
      by (simp add: parse_header_line_map rp)
    have l1: "live (rs_body (hp_response p1))"
      using parse_header_line_body [of ?l p] rp less.prems by simp
    show ?thesis
    proof (cases "v_has_error r")
      case True
      then show ?thesis
        using l1 header rp ra feed_loop_header_line [of p pos put] feed_loop_header_line [of ?a pos push]
        by (simp add: enter_error_def)
    next
      case False
      let ?p = "p1\<lparr>hp_buffer := drop (pos + 2) (hp_buffer p)\<rparr>"
      have "length (hp_buffer ?p) < length (hp_buffer p)"
        using find_str_bound [OF header(2)] by simp
      then show ?thesis
        using less.hyps [of ?p] l1 False header rp ra feed_loop_header_line [of p pos put]
          feed_loop_header_line [of ?a pos push] by simp
    qed
  next
    case empty
    let ?p = "end_of_headers (p\<lparr>hp_buffer := drop 2 (hp_buffer p)\<rparr>)"
    have "length (hp_buffer ?p) < length (hp_buffer p)"
      using find_str_bound [OF empty(2)] by simp
    moreover have "hp_map_body contents ?p = end_of_headers (?a\<lparr>hp_buffer := drop 2 (hp_buffer ?a)\<rparr>)"
      by (simp flip: end_of_headers_map)
    ultimately show ?thesis
      using less.hyps [of ?p] less.prems empty feed_loop_empty_line [of p put] feed_loop_empty_line [of ?a push]
      by simp
  next
    case body
    then have ba: "in_body ?a" by (simp add: in_body_def)
    obtain r p' where "process_body put p = Some (r, p')" "live (rs_body (hp_response p'))"
        "process_body push ?a = Some (r, hp_map_body contents p')"
      using process_body_sim [OF less.prems] by blast
    then show ?thesis
      by (simp add: feed_loop_body [OF body] feed_loop_body [OF ba] enter_error_def)
  next
    case rest
    then have "at_rest ?a" by (simp add: at_rest_def)
    then show ?thesis using rest less.prems by (simp add: feed_loop_rest)
  qed
qed

lemma feed_with_sim:
  assumes "live (rs_body (hp_response p))"
  shows "\<exists>r p'. feed_with put data p = Some (r, p') \<and> live (rs_body (hp_response p'))
     \<and> feed_with push data (hp_map_body contents p) = Some (r, hp_map_body contents p')"
  using assms feed_loop_sim [of "p\<lparr>hp_buffer := hp_buffer p @ data\<rparr>"] by (simp add: feed_with_def)

end

text \<open>Plain lists are a lawful sink too, so the specification always returns.\<close>

interpretation ls: byte_sink push "\<lambda>b. b" "\<lambda>b. True"
  by unfold_locales (simp add: push_def)

lemma spec_loop_eq: "feed_loop push p = Some (spec_loop p)"
  using ls.feed_loop_sim [where p = p] by (auto simp: spec_loop_def)

lemma spec_feed_eq: "feed_with push data p = Some (spec_feed data p)"
  using ls.feed_with_sim [where p = p and data = data] by (auto simp: spec_feed_def)

lemma spec_feed_loop:
  "spec_feed data p =
     (if at_rest p then (ec_ok, p) else spec_loop (p\<lparr>hp_buffer := hp_buffer p @ data\<rparr>))"
  by (auto simp: spec_feed_def spec_loop_def feed_with_def at_rest_def make_result_void_def)

subsection \<open>The parser of the program\<close>

definition hp_live :: "byte_buffer http_parser \<Rightarrow> bool" where
  "hp_live p \<longleftrightarrow> bb_live (rs_body (hp_response p))"

definition hp_abs :: "byte_buffer http_parser \<Rightarrow> spec_parser" where
  "hp_abs p = hp_map_body bb_contents p"

lemma hp_abs_init [simp]: "hp_abs http_parser_init = spec_init"
  by (simp add: hp_abs_def http_parser_init_def spec_init_def hp_map_body_def resp_map_body_def
      response_default_def)

lemma hp_live_init [simp]: "hp_live http_parser_init"
  by (simp add: hp_live_def http_parser_init_def response_default_def)

lemma feed_refines:
  assumes "hp_live p"
  shows "\<exists>r p'. feed data p = Some (r, p') \<and> hp_live p' \<and> spec_feed data (hp_abs p) = (r, hp_abs p')"
  using bq.feed_with_sim [of p data] assms
  by (auto simp: feed_def hp_live_def hp_abs_def spec_feed_def)

end
