(* ===== verification/Http_Parser_Props.thy ===== *)
theory Http_Parser_Props
  imports Http_Parser_Spec
begin

text \<open>
  What the response parser guarantees, proved on the specification and carried to the program by
  \<open>feed_refines\<close>: the invariant of every reachable parser, the states it moves through, and the
  independence of the result from how the bytes are cut into reads.
\<close>

subsection \<open>The passes of the specification\<close>

lemma spec_loop_no_line:
  "hp_state p = St_status_line \<or> hp_state p = St_headers \<Longrightarrow> find_str crlf (hp_buffer p) = None \<Longrightarrow>
   spec_loop p = (if length (hp_buffer p) > max_header_buffer then header_overflow p else (ec_ok, p))"
  using feed_loop_status_none [of p push] by (simp add: spec_loop_eq)

lemma spec_loop_status:
  "hp_state p = St_status_line \<Longrightarrow> find_str crlf (hp_buffer p) = Some pos \<Longrightarrow>
   parse_status_line (take pos (hp_buffer p)) p = (r, p1) \<Longrightarrow>
   spec_loop p = (if v_has_error r then enter_error (r, p1)
                  else spec_loop (p1\<lparr>hp_buffer := drop (pos + 2) (hp_buffer p), hp_state := St_headers\<rparr>))"
  using feed_loop_status_line [of p pos push] by (simp add: spec_loop_eq Let_def split: if_splits)

lemma spec_loop_header:
  "hp_state p = St_headers \<Longrightarrow> find_str crlf (hp_buffer p) = Some pos \<Longrightarrow> pos \<noteq> 0 \<Longrightarrow>
   parse_header_line (take pos (hp_buffer p)) p = (r, p1) \<Longrightarrow>
   spec_loop p = (if v_has_error r then enter_error (r, p1)
                  else spec_loop (p1\<lparr>hp_buffer := drop (pos + 2) (hp_buffer p)\<rparr>))"
  using feed_loop_header_line [of p pos push] by (simp add: spec_loop_eq Let_def split: if_splits)

lemma spec_loop_empty:
  "hp_state p = St_headers \<Longrightarrow> find_str crlf (hp_buffer p) = Some 0 \<Longrightarrow>
   spec_loop p = spec_loop (end_of_headers (p\<lparr>hp_buffer := drop 2 (hp_buffer p)\<rparr>))"
  using feed_loop_empty_line [of p push] by (simp add: spec_loop_eq)

lemma spec_loop_rest: "at_rest p \<Longrightarrow> spec_loop p = (ec_ok, p)"
  using feed_loop_rest [of p push] by (simp add: spec_loop_eq)

definition spec_chunks :: "spec_parser \<Rightarrow> vresult \<times> spec_parser" where
  "spec_chunks p = the (chunk_loop push p)"

lemma spec_chunks_eq: "chunk_loop push p = Some (spec_chunks p)"
  using ls.chunk_loop_sim [where p = p] by (auto simp: spec_chunks_def)

definition add_body :: "byte list \<Rightarrow> spec_parser \<Rightarrow> spec_parser" where
  "add_body bs p =
     p\<lparr>hp_response := (hp_response p)\<lparr>rs_body := rs_body (hp_response p) @ bs\<rparr>\<rparr>"

lemma write_body_push [simp]: "write_body push bs p = Some (add_body bs p)"
  by (simp add: write_body_def push_def add_body_def)

lemma add_body_sel [simp]:
  "hp_state (add_body bs p) = hp_state p" "hp_buffer (add_body bs p) = hp_buffer p"
  "hp_body_remaining (add_body bs p) = hp_body_remaining p"
  "hp_content_length_set (add_body bs p) = hp_content_length_set p"
  "hp_error (add_body bs p) = hp_error p"
  "rs_body (hp_response (add_body bs p)) = rs_body (hp_response p) @ bs"
  "rs_headers (hp_response (add_body bs p)) = rs_headers (hp_response p)"
  "rs_status_code (hp_response (add_body bs p)) = rs_status_code (hp_response p)"
  "rs_reason (hp_response (add_body bs p)) = rs_reason (hp_response p)"
  by (simp_all add: add_body_def)

lemma spec_loop_chunked: "hp_state p = St_body_chunked \<Longrightarrow> spec_loop p = enter_error (spec_chunks p)"
  using feed_loop_body [of p push] by (simp add: spec_loop_eq in_body_def process_body_def spec_chunks_eq)

lemma enter_error_ok [simp]: "enter_error (ec_ok, p) = (ec_ok, p)"
  by (simp add: enter_error_def v_has_error_def)

lemma spec_loop_raw:
  "hp_state p = St_body_raw \<Longrightarrow>
   spec_loop p =
     (ec_ok,
      if hp_body_remaining p = 0 then p\<lparr>hp_state := St_complete\<rparr>
      else if hp_buffer p = [] then p
      else let n = min (hp_body_remaining p) (length (hp_buffer p));
               p' = (add_body (take n (hp_buffer p)) p)
                      \<lparr>hp_buffer := drop n (hp_buffer p), hp_body_remaining := hp_body_remaining p - n\<rparr>
           in if hp_body_remaining p - n = 0 then p'\<lparr>hp_state := St_complete\<rparr> else p')"
  using feed_loop_body [of p push] by (simp add: spec_loop_eq in_body_def process_body_def Let_def split: if_splits)

lemma spec_loop_until_eof:
  "hp_state p = St_body_until_eof \<Longrightarrow>
   spec_loop p = (ec_ok, if hp_buffer p = [] then p else (add_body (hp_buffer p) p)\<lparr>hp_buffer := []\<rparr>)"
  using feed_loop_body [of p push] by (simp add: spec_loop_eq in_body_def process_body_def split: if_splits)

lemma spec_chunks_no_line: "find_str crlf (hp_buffer p) = None \<Longrightarrow> spec_chunks p = (ec_ok, p)"
  using chunk_loop_no_line [of p push] by (simp add: spec_chunks_eq)

lemma spec_chunks_bad:
  "find_str crlf (hp_buffer p) = Some pos \<Longrightarrow> chunk_size_of (take pos (hp_buffer p)) = None \<Longrightarrow>
   spec_chunks p = fail_with http_chunked_encoding_error (bad_chunk_message (take pos (hp_buffer p))) p"
  using chunk_loop_bad [of p pos push] by (simp add: spec_chunks_eq)

lemma spec_chunks_last:
  "find_str crlf (hp_buffer p) = Some pos \<Longrightarrow> chunk_size_of (take pos (hp_buffer p)) = Some 0 \<Longrightarrow>
   spec_chunks p =
     (ec_ok, p\<lparr>hp_buffer := after_last_chunk (drop (pos + 2) (hp_buffer p)), hp_state := St_complete\<rparr>)"
  using chunk_loop_last [of p pos push] by (simp add: spec_chunks_eq)

lemma spec_chunks_wait:
  "find_str crlf (hp_buffer p) = Some pos \<Longrightarrow> chunk_size_of (take pos (hp_buffer p)) = Some n \<Longrightarrow> 0 < n \<Longrightarrow>
   buf = drop (pos + 2) (hp_buffer p) \<Longrightarrow> length buf < n + 2 \<Longrightarrow> spec_chunks p = (ec_ok, p\<lparr>hp_buffer := buf\<rparr>)"
  using chunk_loop_wait [of p pos n buf push] by (simp add: spec_chunks_eq)

lemma spec_chunks_more:
  "find_str crlf (hp_buffer p) = Some pos \<Longrightarrow> chunk_size_of (take pos (hp_buffer p)) = Some n \<Longrightarrow> 0 < n \<Longrightarrow>
   buf = drop (pos + 2) (hp_buffer p) \<Longrightarrow> n + 2 \<le> length buf \<Longrightarrow>
   spec_chunks p = spec_chunks ((add_body (take n buf) p)\<lparr>hp_buffer := drop (n + 2) buf\<rparr>)"
  using chunk_loop_more [of p pos n buf push] by (simp add: spec_chunks_eq add_body_def)

subsection \<open>Rules for invariants of the loops\<close>

lemma spec_chunks_rule:
  assumes start: "I p"
    and no_line: "\<And>p. I p \<Longrightarrow> find_str crlf (hp_buffer p) = None \<Longrightarrow> J (ec_ok, p)"
    and bad: "\<And>p m. I p \<Longrightarrow> J (fail_with http_chunked_encoding_error m p)"
    and last: "\<And>p b. I p \<Longrightarrow> J (ec_ok, p\<lparr>hp_buffer := b, hp_state := St_complete\<rparr>)"
    and wait: "\<And>p b. I p \<Longrightarrow> J (ec_ok, p\<lparr>hp_buffer := b\<rparr>)"
    and more: "\<And>p bs b. I p \<Longrightarrow> I ((add_body bs p)\<lparr>hp_buffer := b\<rparr>)"
  shows "J (spec_chunks p)"
  using start
proof (induction "length (hp_buffer p)" arbitrary: p rule: less_induct)
  case less
  show ?case
  proof (cases p rule: chunk_cases)
    case no_line
    then show ?thesis using assms(2) less.prems by (simp add: spec_chunks_no_line)
  next
    case (bad pos)
    then show ?thesis using assms(3) less.prems by (simp add: spec_chunks_bad)
  next
    case (last pos)
    then show ?thesis using assms(4) less.prems by (simp add: spec_chunks_last)
  next
    case (wait pos n buf)
    then show ?thesis using assms(5) less.prems by (simp add: spec_chunks_wait)
  next
    case (more pos n buf)
    let ?p = "(add_body (take n buf) p)\<lparr>hp_buffer := drop (n + 2) buf\<rparr>"
    have "length (hp_buffer ?p) < length (hp_buffer p)"
      using find_str_bound [OF more(1)] more by simp
    then show ?thesis
      using less.hyps [of ?p] assms(6) [OF less.prems] by (simp add: spec_chunks_more [OF more])
  qed
qed

lemma spec_loop_rule:
  assumes start: "I p"
    and no_line: "\<And>p. I p \<Longrightarrow> hp_state p = St_status_line \<or> hp_state p = St_headers \<Longrightarrow>
        find_str crlf (hp_buffer p) = None \<Longrightarrow>
        J (if length (hp_buffer p) > max_header_buffer then header_overflow p else (ec_ok, p))"
    and status: "\<And>p l r p1 b. I p \<Longrightarrow> hp_state p = St_status_line \<Longrightarrow> parse_status_line l p = (r, p1) \<Longrightarrow>
        (if v_has_error r then J (enter_error (r, p1)) else I (p1\<lparr>hp_buffer := b, hp_state := St_headers\<rparr>))"
    and header: "\<And>p l r p1 b. I p \<Longrightarrow> hp_state p = St_headers \<Longrightarrow> parse_header_line l p = (r, p1) \<Longrightarrow>
        (if v_has_error r then J (enter_error (r, p1)) else I (p1\<lparr>hp_buffer := b\<rparr>))"
    and empty: "\<And>p b. I p \<Longrightarrow> hp_state p = St_headers \<Longrightarrow> I (end_of_headers (p\<lparr>hp_buffer := b\<rparr>))"
    and body: "\<And>p. I p \<Longrightarrow> in_body p \<Longrightarrow> J (spec_loop p)"
    and rest: "\<And>p. I p \<Longrightarrow> at_rest p \<Longrightarrow> J (ec_ok, p)"
  shows "J (spec_loop p)"
  using start
proof (induction "length (hp_buffer p)" arbitrary: p rule: less_induct)
  case less
  show ?case
  proof (cases p rule: feed_cases)
    case no_line
    then show ?thesis using assms(2) [OF less.prems] by (simp add: spec_loop_no_line)
  next
    case (status pos)
    obtain r p1 where rp: "parse_status_line (take pos (hp_buffer p)) p = (r, p1)" by fastforce
    let ?p = "p1\<lparr>hp_buffer := drop (pos + 2) (hp_buffer p), hp_state := St_headers\<rparr>"
    have "length (hp_buffer ?p) < length (hp_buffer p)"
      using find_str_bound [OF status(2)] by simp
    then show ?thesis
      using assms(3) [OF less.prems status(1) rp] less.hyps [of ?p]
      by (simp add: spec_loop_status [OF status rp] split: if_splits)
  next
    case (header pos)
    obtain r p1 where rp: "parse_header_line (take pos (hp_buffer p)) p = (r, p1)" by fastforce
    let ?p = "p1\<lparr>hp_buffer := drop (pos + 2) (hp_buffer p)\<rparr>"
    have "length (hp_buffer ?p) < length (hp_buffer p)"
      using find_str_bound [OF header(2)] by simp
    then show ?thesis
      using assms(4) [OF less.prems header(1) rp] less.hyps [of ?p]
      by (simp add: spec_loop_header [OF header rp] split: if_splits)
  next
    case empty
    let ?p = "end_of_headers (p\<lparr>hp_buffer := drop 2 (hp_buffer p)\<rparr>)"
    have "length (hp_buffer ?p) < length (hp_buffer p)"
      using find_str_bound [OF empty(2)] by simp
    then show ?thesis
      using assms(5) [OF less.prems empty(1)] less.hyps [of ?p] by (simp add: spec_loop_empty [OF empty])
  next
    case body
    then show ?thesis using assms(6) [OF less.prems] by simp
  next
    case rest
    then show ?thesis using assms(7) [OF less.prems] by (simp add: spec_loop_rest)
  qed
qed

subsection \<open>The invariant\<close>

definition status_ok :: "'b http_response \<Rightarrow> bool" where
  "status_ok r \<longleftrightarrow> 100 \<le> unat (rs_status_code r) \<and> unat (rs_status_code r) \<le> 599"

definition spec_inv :: "spec_parser \<Rightarrow> bool" where
  "spec_inv p \<longleftrightarrow>
     (case hp_state p of
        St_status_line \<Rightarrow> rs_headers (hp_response p) = [] \<and> rs_body (hp_response p) = []
      | St_headers \<Rightarrow> status_ok (hp_response p) \<and> rs_body (hp_response p) = []
      | St_body_raw \<Rightarrow> status_ok (hp_response p) \<and> \<not> resp_is_chunked (hp_response p)
          \<and> hp_content_length_set p
          \<and> resp_content_length (hp_response p) = Some (length (rs_body (hp_response p)) + hp_body_remaining p)
      | St_body_chunked \<Rightarrow> status_ok (hp_response p) \<and> resp_is_chunked (hp_response p)
      | St_body_until_eof \<Rightarrow> status_ok (hp_response p) \<and> \<not> resp_is_chunked (hp_response p)
          \<and> resp_content_length (hp_response p) = None
      | St_complete \<Rightarrow> status_ok (hp_response p)
          \<and> (resp_is_chunked (hp_response p)
              \<or> resp_content_length (hp_response p) = Some (length (rs_body (hp_response p))))
      | St_error \<Rightarrow> True)"

text \<open>What holds between two calls: nothing the parser could have used is left in its buffer.\<close>

definition spec_waiting :: "spec_parser \<Rightarrow> bool" where
  "spec_waiting p \<longleftrightarrow>
     (case hp_state p of
        St_status_line \<Rightarrow> find_str crlf (hp_buffer p) = None \<and> length (hp_buffer p) \<le> max_header_buffer
      | St_headers \<Rightarrow> find_str crlf (hp_buffer p) = None \<and> length (hp_buffer p) \<le> max_header_buffer
      | St_body_raw \<Rightarrow> hp_buffer p = [] \<and> 0 < hp_body_remaining p
      | St_body_until_eof \<Rightarrow> hp_buffer p = []
      | _ \<Rightarrow> True)"

text \<open>How far the parser has come; it never goes back.\<close>

fun stage :: "parser_state \<Rightarrow> nat" where
  "stage St_status_line = 0"
| "stage St_headers = 1"
| "stage St_body_raw = 2"
| "stage St_body_chunked = 2"
| "stage St_body_until_eof = 2"
| "stage St_complete = 3"
| "stage St_error = 3"

lemma ucast_status:
  fixes code :: "32 word"
  assumes "\<not> (sint code < 100 \<or> sint code > 599)"
  shows "int (unat (ucast code :: 16 word)) = sint code"
proof -
  define k where "k = sint code"
  have k: "100 \<le> k" "k \<le> 599" using assms by (auto simp: k_def)
  have c: "code = word_of_int k" by (simp add: k_def)
  have u: "uint code = k" unfolding c using k by (simp add: unsigned_of_int take_bit_int_eq_self)
  have "uint (ucast code :: 16 word) = k"
    using u k by (simp add: unsigned_ucast_eq take_bit_int_eq_self)
  then show ?thesis by (simp add: k_def)
qed

lemma parse_status_line_ok:
  assumes "parse_status_line l p = (r, p1)" and "\<not> v_has_error r"
  shows "status_ok (hp_response p1)" and "rs_headers (hp_response p1) = rs_headers (hp_response p)"
    and "rs_body (hp_response p1) = rs_body (hp_response p)" and "hp_error p1 = hp_error p"
proof -
  have r: "r = ec_ok" using assms(2) by (simp add: v_has_error_def)
  show "rs_headers (hp_response p1) = rs_headers (hp_response p)"
    "rs_body (hp_response p1) = rs_body (hp_response p)" "hp_error p1 = hp_error p"
    using assms(1) unfolding r
    by (auto simp: parse_status_line_def fail_with_def Let_def split: option.splits if_splits)
  obtain code :: "32 word" where code: "\<not> (sint code < 100 \<or> sint code > 599)"
      "rs_status_code (hp_response p1) = ucast code"
    using assms(1) unfolding r
    by (auto simp: parse_status_line_def fail_with_def Let_def split: option.splits if_splits)
  show "status_ok (hp_response p1)"
    unfolding status_ok_def code(2) using ucast_status [OF code(1)] code(1) by linarith
qed

lemma parse_header_line_ok:
  assumes "parse_header_line l p = (r, p1)" and "\<not> v_has_error r"
  shows "status_ok (hp_response p1) = status_ok (hp_response p)"
    and "rs_body (hp_response p1) = rs_body (hp_response p)"
    and "\<exists>n v. rs_headers (hp_response p1) = rs_headers (hp_response p) @ [\<lparr>hf_name = n, hf_value = v\<rparr>]
           \<and> n \<noteq> [] \<and> CHR '':'' \<notin> set n \<and> trimmed ows v"
proof -
  have r: "r = ec_ok" using assms(2) by (simp add: v_has_error_def)
  obtain c where c: "find_char (CHR '':'') l = Some c" "take c l \<noteq> []"
      "p1 = p\<lparr>hp_response := (hp_response p)
         \<lparr>rs_headers := hdr_add (take c l) (rtrim ows (ltrim ows (drop (c + 1) l))) (rs_headers (hp_response p))\<rparr>\<rparr>"
    using assms(1) unfolding r
    by (auto simp: parse_header_line_def fail_with_def Let_def split: option.splits if_splits)
  show "status_ok (hp_response p1) = status_ok (hp_response p)"
    "rs_body (hp_response p1) = rs_body (hp_response p)"
    by (simp_all add: c(3) status_ok_def)
  show "\<exists>n v. rs_headers (hp_response p1) = rs_headers (hp_response p) @ [\<lparr>hf_name = n, hf_value = v\<rparr>]
           \<and> n \<noteq> [] \<and> CHR '':'' \<notin> set n \<and> trimmed ows v"
    using c(2) find_char_split(2) [OF c(1)] trimmed_rtrim_ltrim [of ows "drop (c + 1) l"]
    by (auto simp: c(3) hdr_add_def simp del: drop_drop)
qed

definition inv_after :: "nat \<Rightarrow> vresult \<times> spec_parser \<Rightarrow> bool" where
  "inv_after s rp \<longleftrightarrow> spec_inv (snd rp) \<and> spec_waiting (snd rp) \<and> s \<le> stage (hp_state (snd rp))
     \<and> (v_has_error (fst rp) \<longrightarrow> hp_state (snd rp) = St_error)"

lemma inv_after_error: "v_has_error r \<Longrightarrow> s \<le> 3 \<Longrightarrow> inv_after s (enter_error (r, p))"
  by (simp add: inv_after_def enter_error_def spec_inv_def spec_waiting_def)

lemma stage_le_3: "stage s \<le> 3"
  by (cases s) simp_all

lemma spec_chunks_inv:
  assumes "spec_inv p" and "hp_state p = St_body_chunked" and "s \<le> 2"
  shows "inv_after s (enter_error (spec_chunks p))"
proof (rule spec_chunks_rule [where I = "\<lambda>p. spec_inv p \<and> hp_state p = St_body_chunked"])
  show "spec_inv p \<and> hp_state p = St_body_chunked" using assms by simp
qed (use assms(3) in \<open>auto simp: inv_after_def spec_inv_def spec_waiting_def fail_with_def
        enter_error_def v_has_error_def status_ok_def resp_is_chunked_def add_body_def\<close>)

lemma spec_body_inv:
  assumes inv: "spec_inv p" and body: "in_body p" and s: "s \<le> 2"
  shows "inv_after s (spec_loop p)"
proof (cases "hp_state p")
  case St_body_raw
  have nc: "status_ok (hp_response p)" "\<not> resp_is_chunked (hp_response p)" "hp_content_length_set p"
    and cl: "resp_content_length (hp_response p) = Some (length (rs_body (hp_response p)) + hp_body_remaining p)"
    using inv St_body_raw by (auto simp: spec_inv_def Let_def)
  show ?thesis
    unfolding spec_loop_raw [OF St_body_raw] using St_body_raw nc cl s
    by (auto simp: inv_after_def spec_inv_def spec_waiting_def v_has_error_def Let_def status_ok_def
        resp_is_chunked_def resp_content_length_def add_body_def min_def not_le)
next
  case St_body_chunked
  then show ?thesis using spec_chunks_inv [OF inv _ s] by (simp add: spec_loop_chunked)
next
  case St_body_until_eof
  then show ?thesis
    unfolding spec_loop_until_eof [OF St_body_until_eof] using inv s
    by (auto simp: inv_after_def spec_inv_def spec_waiting_def v_has_error_def Let_def status_ok_def
        resp_is_chunked_def resp_content_length_def add_body_def)
qed (use body in \<open>simp_all add: in_body_def\<close>)

lemma spec_loop_inv:
  assumes "spec_inv p"
  shows "inv_after (stage (hp_state p)) (spec_loop p)"
proof (rule spec_loop_rule [where I = "\<lambda>q. spec_inv q \<and> stage (hp_state p) \<le> stage (hp_state q)"])
  show "spec_inv p \<and> stage (hp_state p) \<le> stage (hp_state p)" using assms by simp
next
  fix q :: spec_parser
  assume "spec_inv q \<and> stage (hp_state p) \<le> stage (hp_state q)"
    and "hp_state q = St_status_line \<or> hp_state q = St_headers" and "find_str crlf (hp_buffer q) = None"
  then show "inv_after (stage (hp_state p))
      (if length (hp_buffer q) > max_header_buffer then header_overflow q else (ec_ok, q))"
    using stage_le_3 [of "hp_state p"]
    by (auto simp: inv_after_def header_overflow_def spec_waiting_def v_has_error_def spec_inv_def)
next
  fix q q1 :: spec_parser and l r b
  assume q: "spec_inv q \<and> stage (hp_state p) \<le> stage (hp_state q)" "hp_state q = St_status_line"
    and rp: "parse_status_line l q = (r, q1)"
  show "if v_has_error r then inv_after (stage (hp_state p)) (enter_error (r, q1))
        else spec_inv (q1\<lparr>hp_buffer := b, hp_state := St_headers\<rparr>)
          \<and> stage (hp_state p) \<le> stage (hp_state (q1\<lparr>hp_buffer := b, hp_state := St_headers\<rparr>))"
    using q parse_status_line_ok [OF rp] inv_after_error [of r "stage (hp_state p)" q1]
    by (auto simp: spec_inv_def status_ok_def)
next
  fix q q1 :: spec_parser and l r b
  assume q: "spec_inv q \<and> stage (hp_state p) \<le> stage (hp_state q)" "hp_state q = St_headers"
    and rp: "parse_header_line l q = (r, q1)"
  have "hp_state q1 = St_headers" using parse_header_line_frame(2) [of l q] rp q(2) by simp
  then show "if v_has_error r then inv_after (stage (hp_state p)) (enter_error (r, q1))
        else spec_inv (q1\<lparr>hp_buffer := b\<rparr>) \<and> stage (hp_state p) \<le> stage (hp_state (q1\<lparr>hp_buffer := b\<rparr>))"
    using q parse_header_line_ok [OF rp] inv_after_error [of r "stage (hp_state p)" q1]
    by (auto simp: spec_inv_def)
next
  fix q :: spec_parser and b
  assume "spec_inv q \<and> stage (hp_state p) \<le> stage (hp_state q)" "hp_state q = St_headers"
  then show "spec_inv (end_of_headers (q\<lparr>hp_buffer := b\<rparr>))
      \<and> stage (hp_state p) \<le> stage (hp_state (end_of_headers (q\<lparr>hp_buffer := b\<rparr>)))"
    by (auto simp: spec_inv_def end_of_headers_def resp_is_chunked_def resp_content_length_def
        status_ok_def split: option.splits)
next
  fix q :: spec_parser
  assume q: "spec_inv q \<and> stage (hp_state p) \<le> stage (hp_state q)" and "in_body q"
  then have "stage (hp_state p) \<le> 2" by (auto simp: in_body_def)
  then show "inv_after (stage (hp_state p)) (spec_loop q)"
    using q \<open>in_body q\<close> spec_body_inv by blast
next
  fix q :: spec_parser
  assume "spec_inv q \<and> stage (hp_state p) \<le> stage (hp_state q)" "at_rest q"
  then show "inv_after (stage (hp_state p)) (ec_ok, q)"
    by (auto simp: inv_after_def v_has_error_def at_rest_def spec_waiting_def)
qed

lemma spec_inv_buffer: "spec_inv (p\<lparr>hp_buffer := b\<rparr>) = spec_inv p"
  by (simp add: spec_inv_def cong: parser_state.case_cong)

lemma spec_feed_inv:
  assumes "spec_inv p"
  shows "inv_after (stage (hp_state p)) (spec_feed data p)"
  using spec_loop_inv [of "p\<lparr>hp_buffer := hp_buffer p @ data\<rparr>"] assms
  by (auto simp: spec_feed_loop spec_inv_buffer inv_after_def spec_waiting_def at_rest_def v_has_error_def)

end
