(* ===== verification/Http_Parser_Segments.thy ===== *)
theory Http_Parser_Segments
  imports Http_Parser_Props
begin

text \<open>
  How the bytes of a response are cut into reads. A parser that has not stopped in the middle of a
  chunked body, nor given up on the size of the header section, gives the same result when the rest
  arrives later as when everything arrives at once.
\<close>

definition overflow_message :: string where
  "overflow_message = ''header section exceeds maximum size''"

definition overflowed :: "'b http_parser \<Rightarrow> bool" where
  "overflowed p \<longleftrightarrow> hp_state p = St_error \<and> hp_error p = overflow_message"

definition more_input :: "byte list \<Rightarrow> 'b http_parser \<Rightarrow> 'b http_parser" where
  "more_input b p = p\<lparr>hp_buffer := hp_buffer p @ b\<rparr>"

lemma more_input_sel [simp]:
  "hp_state (more_input b p) = hp_state p" "hp_buffer (more_input b p) = hp_buffer p @ b"
  "hp_response (more_input b p) = hp_response p" "hp_body_remaining (more_input b p) = hp_body_remaining p"
  "hp_error (more_input b p) = hp_error p"
  "hp_content_length_set (more_input b p) = hp_content_length_set p"
  by (simp_all add: more_input_def)

lemma hp_upd_swap:
  "p\<lparr>hp_buffer := x, hp_state := s\<rparr> = p\<lparr>hp_state := s, hp_buffer := x\<rparr>"
  "p\<lparr>hp_buffer := x, hp_body_remaining := n\<rparr> = p\<lparr>hp_body_remaining := n, hp_buffer := x\<rparr>"
  by simp_all

lemma at_rest_more_input [simp]: "at_rest (more_input b p) = at_rest p"
  by (simp add: at_rest_def)

lemma take_pos_append: "find_str crlf s = Some pos \<Longrightarrow> take pos (s @ b) = take pos s"
  by (drule find_str_bound) simp

lemma drop_pos_append: "find_str crlf s = Some pos \<Longrightarrow> drop (pos + 2) (s @ b) = drop (pos + 2) s @ b"
  by (drule find_str_bound) simp

lemma parse_status_line_more: "parse_status_line l (more_input b p) = map_prod id (more_input b) (parse_status_line l p)"
  by (simp add: parse_status_line_def fail_with_def more_input_def Let_def split: option.split)

lemma parse_header_line_more: "parse_header_line l (more_input b p) = map_prod id (more_input b) (parse_header_line l p)"
  by (simp add: parse_header_line_def fail_with_def more_input_def Let_def split: option.split)

lemma end_of_headers_upd: "end_of_headers (p\<lparr>hp_buffer := x\<rparr>) = (end_of_headers p)\<lparr>hp_buffer := x\<rparr>"
  by (simp add: end_of_headers_def split: option.split)

text \<open>Two parsers that differ only in the bytes not yet used.\<close>

definition same_view :: "'b http_parser \<Rightarrow> 'b http_parser \<Rightarrow> bool" where
  "same_view p q \<longleftrightarrow>
     hp_state p = hp_state q \<and> hp_response p = hp_response q \<and> hp_error p = hp_error q
     \<and> hp_body_remaining p = hp_body_remaining q \<and> hp_content_length_set p = hp_content_length_set q"

definition settled :: "vresult \<times> spec_parser \<Rightarrow> vresult \<times> spec_parser \<Rightarrow> bool" where
  "settled x y \<longleftrightarrow> fst x = fst y \<and> same_view (snd x) (snd y)"

lemma settled_refl [simp]: "settled x x"
  by (simp add: settled_def same_view_def)

lemma spec_chunks_more_input:
  "hp_state p = St_body_chunked \<Longrightarrow>
   v_has_error (fst (spec_chunks p)) \<or> hp_state (snd (spec_chunks p)) = St_complete \<Longrightarrow>
   settled (spec_chunks p) (spec_chunks (more_input b p))"
proof (induction "length (hp_buffer p)" arbitrary: p rule: less_induct)
  case less
  let ?q = "more_input b p"
  show ?case
  proof (cases p rule: chunk_cases)
    case no_line
    then show ?thesis using less.prems by (simp add: spec_chunks_no_line v_has_error_def)
  next
    case (bad pos)
    have q: "find_str crlf (hp_buffer ?q) = Some pos" and l: "take pos (hp_buffer ?q) = take pos (hp_buffer p)"
      using find_str_append [OF bad(1), of b] take_pos_append [OF bad(1), of b] by simp_all
    have "spec_chunks ?q = fail_with http_chunked_encoding_error (bad_chunk_message (take pos (hp_buffer p))) ?q"
      using spec_chunks_bad [OF q] bad(2) unfolding l by simp
    then show ?thesis by (simp add: spec_chunks_bad [OF bad] fail_with_def settled_def same_view_def)
  next
    case (last pos)
    have q: "find_str crlf (hp_buffer ?q) = Some pos" and l: "take pos (hp_buffer ?q) = take pos (hp_buffer p)"
      using find_str_append [OF last(1), of b] take_pos_append [OF last(1), of b] by simp_all
    have "chunk_size_of (take pos (hp_buffer ?q)) = Some 0" using last(2) unfolding l .
    then show ?thesis
      by (simp add: spec_chunks_last [OF last] spec_chunks_last [OF q] settled_def same_view_def)
  next
    case (wait pos n buf)
    then show ?thesis using less.prems by (simp add: spec_chunks_wait [OF wait] v_has_error_def)
  next
    case (more pos n buf)
    let ?p = "(add_body (take n buf) p)\<lparr>hp_buffer := drop (n + 2) buf\<rparr>"
    have e: "spec_chunks p = spec_chunks ?p" by (rule spec_chunks_more [OF more])
    have "drop (pos + 2) (hp_buffer ?q) = buf @ b"
      using drop_pos_append [OF more(1), of b] more(4) by simp
    then have "spec_chunks ?q =
        spec_chunks ((add_body (take n (buf @ b)) ?q)\<lparr>hp_buffer := drop (n + 2) (buf @ b)\<rparr>)"
      using find_str_append [OF more(1), of b] take_pos_append [OF more(1), of b] more
      by (intro spec_chunks_more [of ?q pos n "buf @ b"]) simp_all
    also have "(add_body (take n (buf @ b)) ?q)\<lparr>hp_buffer := drop (n + 2) (buf @ b)\<rparr> = more_input b ?p"
      using more(5) by (simp add: more_input_def add_body_def)
    finally have e': "spec_chunks ?q = spec_chunks (more_input b ?p)" .
    have "length (hp_buffer ?p) < length (hp_buffer p)"
      using find_str_bound [OF more(1)] more by simp
    then show ?thesis using less.hyps [of ?p] less.prems by (simp add: e e')
  qed
qed

lemma settled_enter_error: "settled x y \<Longrightarrow> settled (enter_error x) (enter_error y)"
  by (auto simp: settled_def same_view_def enter_error_def)

lemma spec_raw_more_input:
  assumes st: "hp_state p = St_body_raw" and loop: "spec_loop p = (r, p1)"
  shows "if at_rest p1 then settled (spec_loop p) (spec_loop (more_input b p))
         else r = ec_ok \<and> spec_loop (more_input b p) = spec_loop (more_input b p1)"
proof -
  let ?rem = "hp_body_remaining p" and ?buf = "hp_buffer p"
  have st': "hp_state (more_input b p) = St_body_raw" using st by simp
  note unf = spec_loop_raw [OF st] spec_loop_raw [OF st']
  consider "?rem = 0" | "?rem \<noteq> 0" "?buf = []" | "?rem \<noteq> 0" "?buf \<noteq> []" "?rem \<le> length ?buf"
    | "?rem \<noteq> 0" "?buf \<noteq> []" "length ?buf < ?rem" by linarith
  then show ?thesis
  proof cases
    case 1
    then show ?thesis using loop unf by (auto simp: settled_def same_view_def at_rest_def more_input_def)
  next
    case 2
    then show ?thesis using loop unf(1) st by (auto simp: at_rest_def)
  next
    case 3
    then show ?thesis
      using loop unf
      by (auto simp: settled_def same_view_def at_rest_def more_input_def add_body_def min_def Let_def)
  next
    case 4
    define p2 where "p2 = (add_body ?buf p)\<lparr>hp_buffer := [], hp_body_remaining := ?rem - length ?buf\<rparr>"
    have p1: "p1 = p2" and r: "r = ec_ok"
      using loop unf(1) 4 by (auto simp: p2_def min_def Let_def)
    have st2: "hp_state p2 = St_body_raw" using st by (simp add: p2_def)
    then have st2': "hp_state (more_input b p2) = St_body_raw" by simp
    have "spec_loop (more_input b p) = spec_loop (more_input b p2)"
    proof (cases "b = []")
      case True
      then show ?thesis
        using 4 unfolding unf(2) spec_loop_raw [OF st2'] by (simp add: p2_def more_input_def Let_def)
    next
      case False
      have r2: "hp_body_remaining (more_input b p2) = ?rem - length ?buf" "hp_buffer (more_input b p2) = b"
        by (simp_all add: p2_def)
      have t: "min ?rem (length (?buf @ b)) = length ?buf + min (?rem - length ?buf) (length b)"
        using 4(3) by simp
      show ?thesis
        unfolding unf(2) spec_loop_raw [OF st2'] r2 more_input_sel t
        using 4 False
        by (simp add: Let_def) (auto simp: p2_def more_input_def add_body_def intro!: http_parser.equality)
    qed
    then show ?thesis using p1 r st2 by (simp add: at_rest_def)
  qed
qed

lemma spec_eof_more_input:
  assumes st: "hp_state p = St_body_until_eof" and loop: "spec_loop p = (r, p1)"
  shows "\<not> at_rest p1 \<and> r = ec_ok \<and> spec_loop (more_input b p) = spec_loop (more_input b p1)"
proof -
  have p1: "p1 = (if hp_buffer p = [] then p else (add_body (hp_buffer p) p)\<lparr>hp_buffer := []\<rparr>)" and r: "r = ec_ok"
    using loop spec_loop_until_eof [OF st] by auto
  have st1: "hp_state p1 = St_body_until_eof" using st by (simp add: p1)
  then have "\<not> at_rest p1" by (simp add: at_rest_def)
  moreover have "spec_loop (more_input b p) = spec_loop (more_input b p1)"
    using st st1 spec_loop_until_eof [of "more_input b p"] spec_loop_until_eof [of "more_input b p1"]
    by (auto simp: p1 more_input_def add_body_def)
  ultimately show ?thesis using r by simp
qed

lemma spec_loop_more_input:
  assumes "spec_loop p = (r, p1)" and "hp_state p1 \<noteq> St_body_chunked" and "\<not> overflowed p1"
  shows "if at_rest p1 then settled (spec_loop p) (spec_loop (more_input b p))
         else r = ec_ok \<and> spec_loop (more_input b p) = spec_loop (more_input b p1)"
  using assms
proof (induction "length (hp_buffer p)" arbitrary: p rule: less_induct)
  case less
  let ?q = "more_input b p"
  show ?case
  proof (cases p rule: feed_cases)
    case no_line
    then have "length (hp_buffer p) \<le> max_header_buffer"
      using less.prems by (auto simp: spec_loop_no_line header_overflow_def overflowed_def overflow_message_def split: if_splits)
    then have "r = ec_ok" "p1 = p" using less.prems(1) no_line by (simp_all add: spec_loop_no_line)
    then show ?thesis using no_line by (auto simp: at_rest_def)
  next
    case (status pos)
    obtain r' q1 where rp: "parse_status_line (take pos (hp_buffer p)) p = (r', q1)" by fastforce
    have q: "hp_state ?q = St_status_line" "find_str crlf (hp_buffer ?q) = Some pos"
        "parse_status_line (take pos (hp_buffer ?q)) ?q = (r', more_input b q1)"
      using status find_str_append [OF status(2)] rp
      by (simp_all add: take_pos_append [OF status(2)] parse_status_line_more del: take_append)
    show ?thesis
    proof (cases "v_has_error r'")
      case True
      then have "spec_loop p = enter_error (r', q1)" "spec_loop ?q = enter_error (r', more_input b q1)"
        by (simp_all add: spec_loop_status [OF status rp] spec_loop_status [OF q])
      then show ?thesis
        using less.prems(1) True by (auto simp: enter_error_def at_rest_def settled_def same_view_def more_input_def)
    next
      case False
      let ?p = "q1\<lparr>hp_buffer := drop (pos + 2) (hp_buffer p), hp_state := St_headers\<rparr>"
      have e: "spec_loop p = spec_loop ?p" "spec_loop ?q = spec_loop (more_input b ?p)"
        using False drop_pos_append [OF status(2), of b]
        by (simp_all add: spec_loop_status [OF status rp] spec_loop_status [OF q]) (simp add: more_input_def hp_upd_swap)
      have "length (hp_buffer ?p) < length (hp_buffer p)" using find_str_bound [OF status(2)] by simp
      then show ?thesis unfolding e by (rule less.hyps) (use less.prems e(1) in simp_all)
    qed
  next
    case (header pos)
    obtain r' q1 where rp: "parse_header_line (take pos (hp_buffer p)) p = (r', q1)" by fastforce
    have q: "hp_state ?q = St_headers" "find_str crlf (hp_buffer ?q) = Some pos" "pos \<noteq> 0"
        "parse_header_line (take pos (hp_buffer ?q)) ?q = (r', more_input b q1)"
      using header find_str_append [OF header(2)] rp
      by (simp_all add: take_pos_append [OF header(2)] parse_header_line_more del: take_append)
    show ?thesis
    proof (cases "v_has_error r'")
      case True
      then have "spec_loop p = enter_error (r', q1)" "spec_loop ?q = enter_error (r', more_input b q1)"
        by (simp_all add: spec_loop_header [OF header rp] spec_loop_header [OF q])
      then show ?thesis
        using less.prems(1) True by (auto simp: enter_error_def at_rest_def settled_def same_view_def more_input_def)
    next
      case False
      let ?p = "q1\<lparr>hp_buffer := drop (pos + 2) (hp_buffer p)\<rparr>"
      have e: "spec_loop p = spec_loop ?p" "spec_loop ?q = spec_loop (more_input b ?p)"
        using False drop_pos_append [OF header(2), of b]
        by (simp_all add: spec_loop_header [OF header rp] spec_loop_header [OF q]) (simp add: more_input_def)
      have "length (hp_buffer ?p) < length (hp_buffer p)" using find_str_bound [OF header(2)] by simp
      then show ?thesis unfolding e by (rule less.hyps) (use less.prems e(1) in simp_all)
    qed
  next
    case empty
    let ?p = "end_of_headers (p\<lparr>hp_buffer := drop 2 (hp_buffer p)\<rparr>)"
    have q: "hp_state ?q = St_headers" "find_str crlf (hp_buffer ?q) = Some 0"
      using empty find_str_append [OF empty(2)] by simp_all
    have "drop 2 (hp_buffer ?q) = drop 2 (hp_buffer p) @ b"
      using find_str_bound [OF empty(2)] by simp
    then have "end_of_headers (?q\<lparr>hp_buffer := drop 2 (hp_buffer ?q)\<rparr>) = more_input b ?p"
      by (simp add: end_of_headers_upd more_input_def)
    then have e: "spec_loop p = spec_loop ?p" "spec_loop ?q = spec_loop (more_input b ?p)"
      by (simp_all add: spec_loop_empty [OF empty] spec_loop_empty [OF q])
    have "length (hp_buffer ?p) < length (hp_buffer p)" using find_str_bound [OF empty(2)] by simp
    then show ?thesis unfolding e by (rule less.hyps) (use less.prems e(1) in simp_all)
  next
    case body
    then consider "hp_state p = St_body_raw" | "hp_state p = St_body_until_eof" | "hp_state p = St_body_chunked"
      by (auto simp: in_body_def)
    then show ?thesis
    proof cases
      case 1
      then show ?thesis using spec_raw_more_input less.prems(1) by blast
    next
      case 2
      then show ?thesis using spec_eof_more_input [OF 2 less.prems(1), of b] by simp
    next
      case 3
      obtain r' q1 where c: "spec_chunks p = (r', q1)" by fastforce
      have l: "spec_loop p = enter_error (r', q1)" using c by (simp add: spec_loop_chunked [OF 3])
      have "hp_state q1 = St_body_chunked \<or> hp_state q1 = St_complete"
        using spec_chunks_rule [where I = "\<lambda>p. hp_state p = St_body_chunked" and p = p and
            J = "\<lambda>rp. hp_state (snd rp) = St_body_chunked \<or> hp_state (snd rp) = St_complete"] 3 c
        by (simp add: fail_with_def)
      then have fin: "v_has_error r' \<or> hp_state q1 = St_complete" and rest: "at_rest p1"
        using l less.prems(1,2) by (auto simp: enter_error_def at_rest_def split: if_splits)
      have "settled (spec_chunks p) (spec_chunks ?q)"
        using spec_chunks_more_input [OF 3] c fin by simp
      then show ?thesis
        using settled_enter_error rest 3 by (simp add: spec_loop_chunked)
    qed
  next
    case rest
    then have q: "spec_loop p = (ec_ok, p)" "spec_loop ?q = (ec_ok, ?q)" by (simp_all add: spec_loop_rest)
    then show ?thesis using less.prems(1) rest by (auto simp: settled_def same_view_def)
  qed
qed

text \<open>A response that is not chunked leaves all that follows it in the buffer.\<close>

lemma spec_loop_left_over:
  assumes "spec_loop p = (r, p1)" and "hp_state p1 = St_complete" and "\<not> resp_is_chunked (hp_response p1)"
    and "hp_state p = St_body_chunked \<longrightarrow> resp_is_chunked (hp_response p)"
  shows "hp_buffer (snd (spec_loop (more_input b p))) = hp_buffer p1 @ b"
  using assms
proof (induction "length (hp_buffer p)" arbitrary: p rule: less_induct)
  case less
  let ?q = "more_input b p"
  have step: ?case
    if e: "spec_loop p = spec_loop p2" "spec_loop ?q = spec_loop (more_input b p2)"
      and "length (hp_buffer p2) < length (hp_buffer p)"
      and "hp_state p2 = St_body_chunked \<longrightarrow> resp_is_chunked (hp_response p2)" for p2
    unfolding e(2) by (rule less.hyps) (use that less.prems in simp_all)
  show ?case
  proof (cases p rule: feed_cases)
    case no_line
    then show ?thesis using less.prems by (auto simp: spec_loop_no_line header_overflow_def split: if_splits)
  next
    case (status pos)
    obtain r' q1 where rp: "parse_status_line (take pos (hp_buffer p)) p = (r', q1)" by fastforce
    have q: "hp_state ?q = St_status_line" "find_str crlf (hp_buffer ?q) = Some pos"
        "parse_status_line (take pos (hp_buffer ?q)) ?q = (r', more_input b q1)"
      using status find_str_append [OF status(2)] rp
      by (simp_all add: take_pos_append [OF status(2)] parse_status_line_more del: take_append)
    have ok: "\<not> v_has_error r'"
      using less.prems(1,2) by (auto simp: spec_loop_status [OF status rp] enter_error_def)
    show ?thesis
      using find_str_bound [OF status(2)] drop_pos_append [OF status(2), of b] ok
      by (intro step [of "q1\<lparr>hp_buffer := drop (pos + 2) (hp_buffer p), hp_state := St_headers\<rparr>"])
        (simp_all add: spec_loop_status [OF status rp] spec_loop_status [OF q], simp add: more_input_def hp_upd_swap)
  next
    case (header pos)
    obtain r' q1 where rp: "parse_header_line (take pos (hp_buffer p)) p = (r', q1)" by fastforce
    have q: "hp_state ?q = St_headers" "find_str crlf (hp_buffer ?q) = Some pos" "pos \<noteq> 0"
        "parse_header_line (take pos (hp_buffer ?q)) ?q = (r', more_input b q1)"
      using header find_str_append [OF header(2)] rp
      by (simp_all add: take_pos_append [OF header(2)] parse_header_line_more del: take_append)
    have ok: "\<not> v_has_error r'"
      using less.prems(1,2) by (auto simp: spec_loop_header [OF header rp] enter_error_def)
    have st: "hp_state q1 = St_headers"
      using parse_header_line_frame(2) [of "take pos (hp_buffer p)" p] rp header(1) by simp
    show ?thesis
      using find_str_bound [OF header(2)] drop_pos_append [OF header(2), of b] ok st
      by (intro step [of "q1\<lparr>hp_buffer := drop (pos + 2) (hp_buffer p)\<rparr>"])
        (simp_all add: spec_loop_header [OF header rp] spec_loop_header [OF q], simp add: more_input_def)
  next
    case empty
    let ?p = "end_of_headers (p\<lparr>hp_buffer := drop 2 (hp_buffer p)\<rparr>)"
    have q: "hp_state ?q = St_headers" "find_str crlf (hp_buffer ?q) = Some 0"
      using empty find_str_append [OF empty(2)] by simp_all
    have "drop 2 (hp_buffer ?q) = drop 2 (hp_buffer p) @ b"
      using find_str_bound [OF empty(2)] by simp
    then have "end_of_headers (?q\<lparr>hp_buffer := drop 2 (hp_buffer ?q)\<rparr>) = more_input b ?p"
      by (simp add: end_of_headers_upd more_input_def)
    moreover have "hp_state ?p = St_body_chunked \<longrightarrow> resp_is_chunked (hp_response ?p)"
      by (simp add: end_of_headers_def split: option.split)
    ultimately show ?thesis
      using find_str_bound [OF empty(2)]
      by (intro step [of ?p]) (simp_all add: spec_loop_empty [OF empty] spec_loop_empty [OF q])
  next
    case body
    then consider "hp_state p = St_body_raw" | "hp_state p = St_body_until_eof" | "hp_state p = St_body_chunked"
      by (auto simp: in_body_def)
    then show ?thesis
    proof cases
      case 1
      then have "hp_state ?q = St_body_raw" by simp
      note unf = spec_loop_raw [OF 1] spec_loop_raw [OF this]
      show ?thesis
        using less.prems(1,2) 1 unfolding unf
        by (auto simp: Let_def min_def add_body_def split: if_splits)
    next
      case 2
      then show ?thesis using less.prems(1,2) by (auto simp: spec_loop_until_eof add_body_def split: if_splits)
    next
      case 3
      let ?hs = "\<lambda>q. rs_headers (hp_response q) = rs_headers (hp_response p)"
      obtain r' q1 where c: "spec_chunks p = (r', q1)" by fastforce
      have "?hs q1"
        using spec_chunks_rule [where I = ?hs and p = p and J = "\<lambda>rp. ?hs (snd rp)"] c
        by (simp add: fail_with_def add_body_def)
      then have "resp_is_chunked (hp_response p1)"
        using less.prems 3 c by (auto simp: spec_loop_chunked enter_error_def resp_is_chunked_def split: if_splits)
      then show ?thesis using less.prems(3) by simp
    qed
  next
    case rest
    then show ?thesis using less.prems(1) by (simp add: spec_loop_rest)
  qed
qed

subsection \<open>Reads\<close>

lemma spec_feed_append:
  assumes f: "spec_feed a p = (r, p1)" and "hp_state p1 \<noteq> St_body_chunked" and "\<not> overflowed p1"
  shows "if at_rest p1 then settled (spec_feed a p) (spec_feed (a @ b) p)
         else r = ec_ok \<and> spec_feed (a @ b) p = spec_feed b p1"
proof (cases "at_rest p")
  case True
  then have "spec_feed c p = (ec_ok, p)" for c by (simp add: spec_feed_loop)
  then show ?thesis using f True by auto
next
  case False
  then have l: "spec_feed c p = spec_loop (p\<lparr>hp_buffer := hp_buffer p @ c\<rparr>)" for c
    by (simp add: spec_feed_loop)
  have m: "more_input b (p\<lparr>hp_buffer := hp_buffer p @ a\<rparr>) = p\<lparr>hp_buffer := hp_buffer p @ a @ b\<rparr>"
    by (simp add: more_input_def)
  show ?thesis
    using spec_loop_more_input [of "p\<lparr>hp_buffer := hp_buffer p @ a\<rparr>" r p1 b] assms
    by (auto simp: l m spec_feed_loop more_input_def)
qed

text \<open>The reads of a connection, one \<open>feed\<close> after the other until one reports an error.\<close>

fun feed_all :: "byte list list \<Rightarrow> byte_buffer http_parser \<Rightarrow> (vresult \<times> byte_buffer http_parser) option" where
  "feed_all [] p = Some (ec_ok, p)"
| "feed_all (d # ds) p =
     (case feed d p of
        None \<Rightarrow> None
      | Some (r, p') \<Rightarrow> if v_has_error r then Some (r, p') else feed_all ds p')"

text \<open>Every read but the last stops outside a chunked body and below the header limit.\<close>

fun cuts_ok :: "byte list list \<Rightarrow> byte_buffer http_parser \<Rightarrow> bool" where
  "cuts_ok [] p = True"
| "cuts_ok [d] p = True"
| "cuts_ok (d # ds) p =
     (case feed d p of
        None \<Rightarrow> False
      | Some (r, p') \<Rightarrow> hp_state p' \<noteq> St_body_chunked \<and> \<not> overflowed p' \<and> cuts_ok ds p')"

lemma hp_abs_sel [simp]:
  "hp_state (hp_abs p) = hp_state p" "hp_buffer (hp_abs p) = hp_buffer p" "hp_error (hp_abs p) = hp_error p"
  "at_rest (hp_abs p) = at_rest p" "overflowed (hp_abs p) = overflowed p"
  by (simp_all add: hp_abs_def at_rest_def overflowed_def)

lemma feed_at_rest: "at_rest p \<Longrightarrow> feed d p = Some (ec_ok, p)"
  by (auto simp: feed_def feed_with_def at_rest_def make_result_void_def)

lemma feed_all_at_rest: "at_rest p \<Longrightarrow> feed_all ds p = Some (ec_ok, p)"
  by (induction ds) (simp_all add: feed_at_rest v_has_error_def)

lemma feed_all_concat:
  "hp_live p \<Longrightarrow> ds \<noteq> [] \<Longrightarrow> cuts_ok ds p \<Longrightarrow>
   \<exists>r q q'. feed_all ds p = Some (r, q) \<and> feed (concat ds) p = Some (r, q')
     \<and> same_view (hp_abs q) (hp_abs q')"
proof (induction ds p rule: cuts_ok.induct)
  case (2 d p)
  obtain r q where "feed d p = Some (r, q)" using feed_refines [OF 2(1), of d] by blast
  then show ?case by (auto simp: same_view_def v_has_error_def)
next
  case (3 d e ds p)
  obtain r p1 where f: "feed d p = Some (r, p1)" "hp_live p1" "spec_feed d (hp_abs p) = (r, hp_abs p1)"
    using feed_refines [OF 3(2), of d] by blast
  have cut: "hp_state p1 \<noteq> St_body_chunked" "\<not> overflowed p1" "cuts_ok (e # ds) p1"
    using 3(4) f(1) by simp_all
  let ?rest = "concat (e # ds)"
  obtain r' q' where w: "feed (d @ ?rest) p = Some (r', q')" "spec_feed (d @ ?rest) (hp_abs p) = (r', hp_abs q')"
    using feed_refines [OF 3(2), of "d @ ?rest"] by blast
  note app = spec_feed_append [OF f(3), of ?rest]
  show ?case
  proof (cases "at_rest p1")
    case True
    have s: "settled (r, hp_abs p1) (r', hp_abs q')"
      using app cut True f(3) w(2) by simp
    have "feed_all (d # e # ds) p = Some (r, p1)"
      using f(1) feed_all_at_rest [OF True, of "e # ds"] by (auto simp: v_has_error_def)
    then show ?thesis using w(1) s by (auto simp: settled_def)
  next
    case False
    then have r: "r = ec_ok" and e: "spec_feed (d @ ?rest) (hp_abs p) = spec_feed ?rest (hp_abs p1)"
      using app cut by simp_all
    obtain r2 q q2 where ih: "feed_all (e # ds) p1 = Some (r2, q)" "feed ?rest p1 = Some (r2, q2)"
        "same_view (hp_abs q) (hp_abs q2)"
      using 3(1) [OF f(1) refl f(2) _ cut(3)] by blast
    have "spec_feed ?rest (hp_abs p1) = (r2, hp_abs q2)"
      using feed_refines [OF f(2), of ?rest] ih(2) by auto
    then have "r' = r2" "hp_abs q' = hp_abs q2" using w(2) e by simp_all
    then show ?thesis using ih w(1) f(1) r by (auto simp: v_has_error_def)
  qed
qed simp

lemma cuts_ok_append: "cuts_ok (ds @ later) p \<Longrightarrow> cuts_ok ds p"
  by (induction ds p rule: cuts_ok.induct) (auto split: option.splits)

end
