(* ===== verification/Http_Parser_Reach.thy ===== *)
theory Http_Parser_Reach
  imports Http_Parser_Segments
begin

text \<open>
  The parsers built by \<open>feed\<close> and \<open>reset\<close>, as an inductive set of states, and what holds of every
  one of them. \<open>release_response\<close> is not among the steps: it is the last operation the sources
  call on a parser (\<open>parse_response\<close>, \<open>http_client::receive_response\<close>), it moves the storage of the
  body out, and no operation gives it back; \<open>release_then_reset_hangs\<close> shows what a parser does that
  is used again after it.
\<close>

inductive parser_step :: "byte_buffer http_parser \<Rightarrow> byte_buffer http_parser \<Rightarrow> bool" where
  step_feed: "feed data p = Some (r, p') \<Longrightarrow> parser_step p p'"
| step_reset: "parser_step p (hp_reset p)"

inductive parser_reachable :: "byte_buffer http_parser \<Rightarrow> bool" where
  reach_init: "parser_reachable http_parser_init"
| reach_step: "parser_reachable p \<Longrightarrow> parser_step p p' \<Longrightarrow> parser_reachable p'"

inductive_simps parser_step_iff: "parser_step p p'"

lemma hp_reset_live: "hp_live p \<Longrightarrow> hp_live (hp_reset p)"
  by (simp add: hp_live_def hp_reset_def bb_live_def)

lemma hp_abs_reset: "hp_abs (hp_reset p) = spec_init"
  by (simp add: hp_abs_def hp_reset_def spec_init_def hp_map_body_def resp_map_body_def hdr_clear_def)

lemma spec_init_ok: "spec_inv spec_init" "spec_waiting spec_init"
  by (simp_all add: spec_init_def spec_inv_def spec_waiting_def crlf_def)

text \<open>Every operation keeps the invariant, whatever bytes arrive.\<close>

lemma parser_step_inv:
  assumes "parser_step p p'" and "hp_live p" and "spec_inv (hp_abs p)" and "spec_waiting (hp_abs p)"
  shows "hp_live p' \<and> spec_inv (hp_abs p') \<and> spec_waiting (hp_abs p')"
proof -
  consider data r where "feed data p = Some (r, p')" | "p' = hp_reset p"
    using assms(1) unfolding parser_step_iff by blast
  then show ?thesis
  proof cases
    case 1
    then show ?thesis
      using feed_refines [OF assms(2), of data] spec_feed_inv [OF assms(3), of data]
      by (auto simp: inv_after_def)
  next
    case 2
    then show ?thesis using hp_reset_live [OF assms(2)] spec_init_ok by (simp add: hp_abs_reset)
  qed
qed

lemma parser_reachable_inv:
  "parser_reachable p \<Longrightarrow> hp_live p \<and> spec_inv (hp_abs p) \<and> spec_waiting (hp_abs p)"
proof (induction rule: parser_reachable.induct)
  case reach_init
  then show ?case using spec_init_ok by simp
next
  case (reach_step p p')
  then show ?case using parser_step_inv by blast
qed

lemma reachable_live: "parser_reachable p \<Longrightarrow> hp_live p"
  by (simp add: parser_reachable_inv)

lemma reachable_feed:
  assumes "parser_reachable p"
  obtains r p' where "feed data p = Some (r, p')" "parser_reachable p'"
    "spec_feed data (hp_abs p) = (r, hp_abs p')" "inv_after (stage (hp_state p)) (r, hp_abs p')"
proof -
  obtain r p' where f: "feed data p = Some (r, p')" "spec_feed data (hp_abs p) = (r, hp_abs p')"
    using feed_refines [OF reachable_live [OF assms]] by blast
  have "spec_inv (hp_abs p)" using parser_reachable_inv [OF assms] by blast
  then have "inv_after (stage (hp_state p)) (r, hp_abs p')"
    using spec_feed_inv [of "hp_abs p" data] f(2) by simp
  moreover have "parser_reachable p'"
    using reach_step [OF assms step_feed [OF f(1)]] .
  ultimately show thesis using that f by blast
qed

lemma hp_abs_response [simp]:
  "rs_headers (hp_response (hp_abs p)) = rs_headers (hp_response p)"
  "rs_status_code (hp_response (hp_abs p)) = rs_status_code (hp_response p)"
  "rs_reason (hp_response (hp_abs p)) = rs_reason (hp_response p)"
  "rs_body (hp_response (hp_abs p)) = bb_contents (rs_body (hp_response p))"
  "hp_body_remaining (hp_abs p) = hp_body_remaining p"
  "hp_content_length_set (hp_abs p) = hp_content_length_set p"
  "resp_is_chunked (hp_response (hp_abs p)) = resp_is_chunked (hp_response p)"
  "resp_content_length (hp_response (hp_abs p)) = resp_content_length (hp_response p)"
  by (simp_all add: hp_abs_def resp_map_body_def resp_is_chunked_def resp_content_length_def)

subsection \<open>Running the parser in proofs\<close>

text \<open>
  The body buffer of the program holds 4096 bytes from the start; evaluation goes through the
  specification instead.
\<close>

lemma feed_eval:
  assumes "hp_live p" and "spec_feed d (hp_abs p) = (r, q)"
  shows "\<exists>p'. feed d p = Some (r, p') \<and> hp_live p' \<and> hp_abs p' = q"
  using feed_refines [OF assms(1), of d] assms(2) by auto

end
