(* ===== verification/Http_Method.thy ===== *)
theory Http_Method
  imports Error_Code
begin

text \<open>
  \<open>include/vynx_http/http_method.h\<close> and \<open>src/http_method.cpp\<close>: the request methods, their tokens
  and the case-insensitive parser of tokens.
\<close>

datatype http_method =
    Method_get
  | Method_post
  | Method_put
  | Method_patch
  | Method_del
  | Method_head
  | Method_options
  | Method_trace
  | Method_connect

fun method_to_string :: "http_method \<Rightarrow> string" where
  "method_to_string Method_get = ''GET''"
| "method_to_string Method_post = ''POST''"
| "method_to_string Method_put = ''PUT''"
| "method_to_string Method_patch = ''PATCH''"
| "method_to_string Method_del = ''DELETE''"
| "method_to_string Method_head = ''HEAD''"
| "method_to_string Method_options = ''OPTIONS''"
| "method_to_string Method_trace = ''TRACE''"
| "method_to_string Method_connect = ''CONNECT''"

definition parse_http_method :: "string \<Rightarrow> http_method result" where
  "parse_http_method token =
     (let upper = map toupper token
      in if upper = ''GET'' then Inr Method_get
         else if upper = ''POST'' then Inr Method_post
         else if upper = ''PUT'' then Inr Method_put
         else if upper = ''PATCH'' then Inr Method_patch
         else if upper = ''DELETE'' then Inr Method_del
         else if upper = ''HEAD'' then Inr Method_head
         else if upper = ''OPTIONS'' then Inr Method_options
         else if upper = ''TRACE'' then Inr Method_trace
         else if upper = ''CONNECT'' then Inr Method_connect
         else Inl http_invalid_method)"

lemma toupper_method_to_string [simp]: "map toupper (method_to_string m) = method_to_string m"
  by (cases m) (simp_all add: toupper_def Let_def)

lemma method_to_string_inj: "method_to_string a = method_to_string b \<Longrightarrow> a = b"
  by (cases a; cases b) simp_all

lemma method_token_chars: "c \<in> set (method_to_string m) \<Longrightarrow> 65 \<le> (of_char c :: nat) \<and> (of_char c :: nat) \<le> 90"
  by (cases m) auto

lemma method_to_string_not_Nil [simp]: "method_to_string m \<noteq> []"
  by (cases m) simp_all

text \<open>The parser accepts exactly the spellings of the nine tokens, in any mixture of cases.\<close>

lemma parse_http_method_iff:
  "parse_http_method token = Inr m \<longleftrightarrow> map toupper token = method_to_string m"
  by (cases m) (auto simp: parse_http_method_def Let_def)

lemma parse_http_method_error:
  "parse_http_method token = Inl e \<longleftrightarrow>
     e = http_invalid_method \<and> (\<forall>m. map toupper token \<noteq> method_to_string m)"
proof -
  have "(\<forall>m. map toupper token \<noteq> method_to_string m) \<longleftrightarrow> (\<forall>m. parse_http_method token \<noteq> Inr m)"
    by (simp add: parse_http_method_iff)
  moreover have "parse_http_method token = Inl http_invalid_method \<or> (\<exists>m. parse_http_method token = Inr m)"
    by (simp add: parse_http_method_def Let_def)
  ultimately show ?thesis by auto
qed

end
