(* ===== verification/Http_Request.thy ===== *)
theory Http_Request
  imports Byte_Buffer Http_Method Http_Headers
begin

text \<open>
  \<open>include/vynx_http/http_request.h\<close> and \<open>src/http_request.cpp\<close>: the request and its wire form.
\<close>

record http_request =
  rq_method :: http_method
  rq_uri :: string
  rq_host :: string
  rq_scheme :: string
  rq_port :: "16 word"
  rq_headers :: http_headers
  rq_body :: byte_buffer

definition http_request_default :: http_request where
  "http_request_default =
     \<lparr>rq_method = Method_get, rq_uri = [], rq_host = [], rq_scheme = [], rq_port = 80,
      rq_headers = [], rq_body = bb_default\<rparr>"

definition request_line :: "http_request \<Rightarrow> string" where
  "request_line r = method_to_string (rq_method r) @ '' '' @ rq_uri r @ '' HTTP/1.1'' @ crlf"

definition header_line :: "header_field \<Rightarrow> string" where
  "header_line f = hf_name f @ '': '' @ hf_value f @ crlf"

text \<open>
  One buffer write per line, then the empty line, then the body; a target that contains a carriage
  return or a line feed gives an empty buffer instead. \<open>None\<close> stands for a write that never returns.
\<close>

definition serialize :: "http_request \<Rightarrow> byte_buffer option" where
  "serialize r =
     (if find_char (CHR 0x0D) (rq_uri r) \<noteq> None \<or> find_char (CHR 0x0A) (rq_uri r) \<noteq> None
      then Some bb_default
      else case bb_write (request_line r) bb_default of
             None \<Rightarrow> None
           | Some b1 \<Rightarrow> (case write_all bb_write (map header_line (rq_headers r)) b1 of
               None \<Rightarrow> None
             | Some b2 \<Rightarrow> (case bb_write crlf b2 of
                 None \<Rightarrow> None
               | Some b3 \<Rightarrow> if bb_size (rq_body r) > 0 then bb_write_buffer (rq_body r) b3 else Some b3)))"

subsection \<open>The wire form\<close>

definition request_text :: "http_request \<Rightarrow> byte list" where
  "request_text r = request_line r @ concat (map header_line (rq_headers r)) @ crlf @ bb_contents (rq_body r)"

definition uri_single_line :: "http_request \<Rightarrow> bool" where
  "uri_single_line r \<longleftrightarrow> CHR 0x0D \<notin> set (rq_uri r) \<and> CHR 0x0A \<notin> set (rq_uri r)"

lemma serialize_view:
  assumes "bb_wf (rq_body r)"
  shows "\<exists>b. serialize r = Some b \<and> bb_wf b \<and>
    bb_contents b = (if uri_single_line r then request_text r else [])"
proof (cases "uri_single_line r")
  case False
  then have "serialize r = Some bb_default"
    by (auto simp: serialize_def uri_single_line_def find_char_None)
  then show ?thesis using False by simp
next
  case True
  obtain b1 where b1: "bb_write (request_line r) bb_default = Some b1" "bb_live b1"
      "bb_contents b1 = request_line r"
    using bq.put_law [OF bb_live_default, of "request_line r"] by auto
  obtain b2 where b2: "write_all bb_write (map header_line (rq_headers r)) b1 = Some b2" "bb_live b2"
      "bb_contents b2 = bb_contents b1 @ concat (map header_line (rq_headers r))"
    using bq.write_all_law [OF b1(2), of "map header_line (rq_headers r)"] by blast
  obtain b3 where b3: "bb_write crlf b2 = Some b3" "bb_live b3" "bb_contents b3 = bb_contents b2 @ crlf"
    using bq.put_law [OF b2(2), of crlf] by blast
  obtain b4 where b4: "bb_write_buffer (rq_body r) b3 = Some b4" "bb_live b4"
      "bb_contents b4 = bb_contents b3 @ bb_contents (rq_body r)"
    using bq.put_law [OF b3(2), of "bb_contents (rq_body r)"] by (auto simp: bb_write_buffer_def)
  have nobody: "bb_contents (rq_body r) = []" if "\<not> bb_size (rq_body r) > 0"
    using that length_bb_contents [OF assms] by (metis length_0_conv neq0_conv)
  have "serialize r = (if bb_size (rq_body r) > 0 then Some b4 else Some b3)"
    using True by (simp add: serialize_def uri_single_line_def find_char_None b1 b2 b3 b4)
  then show ?thesis
    using True b1 b2 b3 b4 nobody by (auto simp: request_text_def)
qed

end
