(* ===== verification/Http_Parser_Roundtrip.thy ===== *)
theory Http_Parser_Roundtrip
  imports Http_Parser_Reach Http_Request
begin

text \<open>
  Rendered responses. A status line, the header lines in the form the request serialiser gives them,
  and a body framed by its length or in chunks: what the parser makes of them.
\<close>

definition status_line_text :: "nat \<Rightarrow> string \<Rightarrow> string" where
  "status_line_text code reason = ''HTTP/1.1 '' @ to_string code @ '' '' @ reason"

definition response_head :: "nat \<Rightarrow> string \<Rightarrow> http_headers \<Rightarrow> string" where
  "response_head code reason hs =
     status_line_text code reason @ crlf @ concat (map header_line hs) @ crlf"

definition chunk_text :: "byte list \<Rightarrow> byte list" where
  "chunk_text c = to_hex (length c) @ crlf @ c @ crlf"

definition chunked_text :: "byte list list \<Rightarrow> byte list" where
  "chunked_text cs = concat (map chunk_text cs) @ ''0'' @ crlf @ crlf"

text \<open>A field whose line reads back as it was written.\<close>

definition field_ok :: "header_field \<Rightarrow> bool" where
  "field_ok f \<longleftrightarrow> hf_name f \<noteq> [] \<and> CHR '':'' \<notin> set (hf_name f) \<and> CHR 0x0D \<notin> set (hf_name f)
     \<and> CHR 0x0D \<notin> set (hf_value f) \<and> trimmed ows (hf_value f)"

subsection \<open>The status line\<close>

lemma status_digits_append:
  "status_digits (a @ b) code = Option.bind (status_digits a code) (status_digits b)"
  by (induction a arbitrary: code) simp_all

lemma status_digits_digit: "d < 10 \<Longrightarrow> status_digits [digit_char d] code = Some (code * 10 + of_nat d)"
  by (simp add: digit_char_def of_char_of)

lemma status_digits_to_string: "status_digits (to_string n) 0 = Some (of_nat n)"
proof (induction n rule: less_induct)
  case (less n)
  show ?case
  proof (cases "n < 10")
    case True
    then have "to_string n = [digit_char n]" by (simp add: to_string_def to_base_unfold)
    then show ?thesis using status_digits_digit [OF True, of 0] by simp
  next
    case False
    then have t: "to_string n = to_string (n div 10) @ [digit_char (n mod 10)]"
      by (simp add: to_string_def to_base_unfold [of 10 n])
    have "of_nat n = (of_nat (n div 10) * 10 + of_nat (n mod 10) :: 32 word)"
      by (metis div_mult_mod_eq of_nat_add of_nat_mult of_nat_numeral)
    then show ?thesis
      using less [of "n div 10"] False status_digits_digit [of "n mod 10"]
      by (simp add: t status_digits_append del: status_digits.simps)
  qed
qed

lemma to_string_chars:
  "c \<in> set (to_string n) \<Longrightarrow> 48 \<le> (of_char c :: nat) \<and> (of_char c :: nat) \<le> 57"
  using set_to_base [of c 10 n] by (auto simp: to_string_def digit_char_def of_char_of)

lemma to_string_no: "CHR '' '' \<notin> set (to_string n)" "CHR 0x0D \<notin> set (to_string n)"
  using to_string_chars [of "CHR '' ''" n] to_string_chars [of "CHR 0x0D" n] by auto

lemma sint_status: "code \<le> 599 \<Longrightarrow> sint (of_nat code :: 32 word) = int code"
  by (simp add: signed_of_nat signed_take_bit_int_eq_self)

lemma parse_status_line_text:
  assumes "100 \<le> code" and "code \<le> 599"
  shows "parse_status_line (status_line_text code reason) p =
    (ec_ok, p\<lparr>hp_response := (hp_response p)\<lparr>rs_status_code := of_nat code, rs_reason := reason\<rparr>\<rparr>)"
proof -
  let ?rest = "to_string code @ CHR '' '' # reason"
  have l: "status_line_text code reason = ''HTTP/1.1'' @ CHR '' '' # ?rest"
    by (simp add: status_line_text_def)
  have f: "find_char (CHR '' '') (status_line_text code reason) = Some 8"
    unfolding l by (subst find_char_append) simp_all
  have v: "take 8 (status_line_text code reason) = ''HTTP/1.1''"
    "drop 9 (status_line_text code reason) = ?rest"
    by (simp_all add: status_line_text_def)
  have r: "find_char (CHR '' '') ?rest = Some (length (to_string code))"
    by (rule find_char_append) (rule to_string_no)
  have c: "take (length (to_string code)) ?rest = to_string code" "drop (Suc (length (to_string code))) ?rest = reason"
    by simp_all
  have "(ucast (of_nat code :: 32 word) :: 16 word) = of_nat code"
    using assms by (simp add: unsigned_of_nat take_bit_nat_eq_self)
  then show ?thesis
    using assms by (simp add: parse_status_line_def f v r c Let_def status_digits_to_string sint_status
        del: drop_append take_append)
qed

lemma status_line_text_no_cr: "CHR 0x0D \<notin> set reason \<Longrightarrow> CHR 0x0D \<notin> set (status_line_text code reason)"
  by (simp add: status_line_text_def to_string_no)

subsection \<open>The header lines\<close>

lemma parse_header_line_text:
  assumes "field_ok f"
  shows "parse_header_line (hf_name f @ '': '' @ hf_value f) p =
    (ec_ok, p\<lparr>hp_response := (hp_response p)\<lparr>rs_headers := rs_headers (hp_response p) @ [f]\<rparr>\<rparr>)"
proof -
  have "find_char (CHR '':'') (hf_name f @ CHR '':'' # CHR '' '' # hf_value f) = Some (length (hf_name f))"
    using assms by (intro find_char_append) (simp add: field_ok_def)
  moreover have "rtrim ows (ltrim ows (CHR '' '' # hf_value f)) = hf_value f"
    using assms by (simp add: ltrim_Cons ows_def [of "CHR '' ''"] field_ok_def ltrim_trimmed rtrim_trimmed)
  ultimately show ?thesis
    using assms by (simp add: parse_header_line_def Let_def hdr_add_def field_ok_def)
qed

lemma drop_line: "drop (length l + 2) (l @ crlf @ rest) = rest"
  by (simp add: crlf_def)

definition add_headers :: "http_headers \<Rightarrow> 'b http_parser \<Rightarrow> 'b http_parser" where
  "add_headers hs p =
     p\<lparr>hp_response := (hp_response p)\<lparr>rs_headers := rs_headers (hp_response p) @ hs\<rparr>\<rparr>"

lemma feed_loop_status_ok:
  "hp_state p = St_status_line \<Longrightarrow> find_str crlf (hp_buffer p) = Some pos \<Longrightarrow>
   parse_status_line (take pos (hp_buffer p)) p = (ec_ok, q) \<Longrightarrow>
   feed_loop wr p = feed_loop wr (q\<lparr>hp_buffer := drop (pos + 2) (hp_buffer p), hp_state := St_headers\<rparr>)"
  using feed_loop_status_line [of p pos wr] by (simp add: v_has_error_def Let_def)

lemma feed_loop_header_ok:
  "hp_state p = St_headers \<Longrightarrow> find_str crlf (hp_buffer p) = Some pos \<Longrightarrow> pos \<noteq> 0 \<Longrightarrow>
   parse_header_line (take pos (hp_buffer p)) p = (ec_ok, q) \<Longrightarrow>
   feed_loop wr p = feed_loop wr (q\<lparr>hp_buffer := drop (pos + 2) (hp_buffer p)\<rparr>)"
  using feed_loop_header_line [of p pos wr] by (simp add: v_has_error_def Let_def)

text \<open>The head does not touch the body, so these passes are the same for every way of filling it.\<close>

lemma feed_loop_header_lines:
  "hp_state p = St_headers \<Longrightarrow> hp_buffer p = concat (map header_line hs) @ crlf @ rest \<Longrightarrow>
   list_all field_ok hs \<Longrightarrow>
   feed_loop wr p = feed_loop wr (end_of_headers ((add_headers hs p)\<lparr>hp_buffer := rest\<rparr>))"
proof (induction hs arbitrary: p)
  case Nil
  then have "find_str crlf (hp_buffer p) = Some 0" "drop 2 (hp_buffer p) = rest"
    using find_crlf_line [of "[]" rest] by simp_all
  then show ?case using Nil by (simp add: feed_loop_empty_line add_headers_def)
next
  case (Cons f hs)
  let ?l = "hf_name f @ '': '' @ hf_value f"
  let ?rest = "concat (map header_line hs) @ crlf @ rest"
  have b: "hp_buffer p = ?l @ crlf @ ?rest" using Cons.prems(2) by (simp add: header_line_def [of f])
  have ok: "field_ok f" using Cons.prems by simp
  have "CHR 0x0D \<notin> set ?l" using ok by (simp add: field_ok_def)
  then have f: "find_str crlf (hp_buffer p) = Some (length ?l)"
    unfolding b by (rule find_crlf_line)
  have t: "take (length ?l) (hp_buffer p) = ?l" "drop (length ?l + 2) (hp_buffer p) = ?rest"
    using drop_line [of ?l ?rest] unfolding b by simp_all
  have rp: "parse_header_line (take (length ?l) (hp_buffer p)) p = (ec_ok, add_headers [f] p)"
    unfolding t using parse_header_line_text [OF ok] by (simp add: add_headers_def)
  have "length ?l \<noteq> 0" using ok by (simp add: field_ok_def)
  then have "feed_loop wr p = feed_loop wr ((add_headers [f] p)\<lparr>hp_buffer := ?rest\<rparr>)"
    using feed_loop_header_ok [OF Cons.prems(1) f _ rp, of wr] unfolding t by simp
  also have "\<dots> = feed_loop wr
      (end_of_headers ((add_headers hs ((add_headers [f] p)\<lparr>hp_buffer := ?rest\<rparr>))\<lparr>hp_buffer := rest\<rparr>))"
    using Cons.prems by (intro Cons.IH) (simp_all add: add_headers_def)
  finally show ?case by (simp add: add_headers_def)
qed

text \<open>A parser that has seen nothing, and what it is when the head has been read.\<close>

definition fresh :: "'b http_parser \<Rightarrow> bool" where
  "fresh p \<longleftrightarrow> hp_state p = St_status_line \<and> hp_buffer p = [] \<and> rs_headers (hp_response p) = []"

definition after_head :: "nat \<Rightarrow> string \<Rightarrow> http_headers \<Rightarrow> byte list \<Rightarrow> 'b http_parser \<Rightarrow> 'b http_parser" where
  "after_head code reason hs rest p =
     p\<lparr>hp_state := St_headers,
       hp_response := (hp_response p)\<lparr>rs_status_code := of_nat code, rs_reason := reason, rs_headers := hs\<rparr>,
       hp_buffer := rest\<rparr>"

lemma feed_with_head:
  assumes code: "100 \<le> code" "code \<le> 599" and reason: "CHR 0x0D \<notin> set reason" and hs: "list_all field_ok hs"
    and fresh: "fresh p0"
  shows "feed_with wr (response_head code reason hs @ rest) p0 =
    feed_loop wr (end_of_headers (after_head code reason hs rest p0))"
proof -
  let ?l = "status_line_text code reason"
  let ?rest = "concat (map header_line hs) @ crlf @ rest"
  let ?p = "p0\<lparr>hp_buffer := ?l @ crlf @ ?rest\<rparr>"
  have b: "response_head code reason hs @ rest = ?l @ crlf @ ?rest" by (simp add: response_head_def)
  have st: "hp_state ?p = St_status_line" using fresh by (simp add: fresh_def)
  have f: "find_str crlf (hp_buffer ?p) = Some (length ?l)"
    using find_crlf_line [OF status_line_text_no_cr [OF reason]] by simp
  have t: "take (length ?l) (hp_buffer ?p) = ?l" "drop (length ?l + 2) (hp_buffer ?p) = ?rest"
    by simp_all
  let ?q = "?p\<lparr>hp_response := (hp_response ?p)\<lparr>rs_status_code := of_nat code, rs_reason := reason\<rparr>\<rparr>"
  have rp: "parse_status_line (take (length ?l) (hp_buffer ?p)) ?p = (ec_ok, ?q)"
    unfolding t by (rule parse_status_line_text [OF code])
  let ?h = "?q\<lparr>hp_buffer := ?rest, hp_state := St_headers\<rparr>"
  have "feed_with wr (response_head code reason hs @ rest) p0 = feed_loop wr ?p"
    unfolding b using fresh by (simp add: feed_with_def fresh_def)
  also have "\<dots> = feed_loop wr ?h"
    using feed_loop_status_ok [OF st f rp, of wr] unfolding t .
  also have "\<dots> = feed_loop wr (end_of_headers ((add_headers hs ?h)\<lparr>hp_buffer := rest\<rparr>))"
    by (rule feed_loop_header_lines) (simp_all add: hs)
  also have "(add_headers hs ?h)\<lparr>hp_buffer := rest\<rparr> = after_head code reason hs rest p0"
    using fresh by (simp add: add_headers_def after_head_def fresh_def)
  finally show ?thesis .
qed

lemma fresh_init [simp]: "fresh spec_init"
  by (simp add: fresh_def spec_init_def)

lemma spec_feed_head:
  assumes "100 \<le> code" "code \<le> 599" "CHR 0x0D \<notin> set reason" "list_all field_ok hs"
  shows "spec_feed (response_head code reason hs @ rest) spec_init =
    spec_loop (end_of_headers (after_head code reason hs rest spec_init))"
  using feed_with_head [OF assms fresh_init, of push rest] by (simp add: spec_feed_eq spec_loop_eq)

subsection \<open>The bodies\<close>

lemma spec_feed_length_body:
  assumes "100 \<le> code" "code \<le> 599" "CHR 0x0D \<notin> set reason" "list_all field_ok hs"
    and nc: "\<not> hdr_is_chunked hs" and cl: "hdr_content_length hs = Some (length body)"
  shows "\<exists>q. spec_feed (response_head code reason hs @ body @ rest) spec_init = (ec_ok, q)
    \<and> hp_state q = St_complete \<and> hp_buffer q = rest
    \<and> hp_response q = \<lparr>rs_status_code = of_nat code, rs_reason = reason, rs_headers = hs, rs_body = body\<rparr>"
proof -
  let ?p = "(after_head code reason hs (body @ rest) spec_init)
    \<lparr>hp_body_remaining := length body, hp_content_length_set := True, hp_state := St_body_raw\<rparr>"
  have "end_of_headers (after_head code reason hs (body @ rest) spec_init) = ?p"
    using nc cl by (simp add: end_of_headers_def resp_is_chunked_def resp_content_length_def after_head_def)
  then have "spec_feed (response_head code reason hs @ body @ rest) spec_init = spec_loop ?p"
    using spec_feed_head [OF assms(1-4), of "body @ rest"] by simp
  moreover have "hp_state ?p = St_body_raw" by simp
  ultimately show ?thesis
    by (auto simp: spec_loop_raw Let_def after_head_def add_body_def spec_init_def)
qed

lemma to_hex_no_cr: "CHR 0x0D \<notin> set (to_hex n)"
  using set_to_base_class [of "CHR 0x0D" 16 n] by (auto simp: to_hex_def)

lemma to_hex_chunk_hex: "chunk_hex (to_hex n) = to_hex n"
proof -
  have "CHR '';'' \<notin> set (to_hex n)" and sp: "CHR '' '' \<notin> set (to_hex n)"
    using set_to_base_class [of "CHR '';''" 16 n] set_to_base_class [of "CHR '' ''" 16 n]
    by (auto simp: to_hex_def)
  then have "find_char (CHR '';'') (to_hex n) = None" by (simp add: find_char_None)
  moreover have "ltrim (\<lambda>c. c = CHR '' '') (to_hex n) = to_hex n"
    unfolding ltrim_def using sp by (cases "to_hex n") auto
  ultimately show ?thesis by (simp add: chunk_hex_def)
qed

lemma to_hex_0: "to_hex 0 = ''0''"
  by code_simp

lemma chunk_size_of_to_hex: "n \<le> max_chunk_size \<Longrightarrow> chunk_size_of (to_hex n) = Some n"
proof -
  assume n: "n \<le> max_chunk_size"
  moreover have "max_chunk_size \<le> ulong_max" by (simp add: max_chunk_size_def ulong_max_def)
  ultimately have "n \<le> ulong_max" by linarith
  then have "from_chars 16 ulong_max (to_hex n) = Some n" and "to_hex n \<noteq> []"
    using from_chars_to_base [of 16 "[]" ulong_max n] by (simp_all add: to_hex_def)
  then show ?thesis using n by (simp add: chunk_size_of_def to_hex_chunk_hex)
qed

definition chunk_ok :: "byte list \<Rightarrow> bool" where
  "chunk_ok c \<longleftrightarrow> c \<noteq> [] \<and> length c \<le> max_chunk_size"

lemma spec_chunks_text:
  "hp_buffer p = chunked_text cs @ rest \<Longrightarrow> list_all chunk_ok cs \<Longrightarrow>
   spec_chunks p = (ec_ok, (add_body (concat cs) p)\<lparr>hp_buffer := rest, hp_state := St_complete\<rparr>)"
proof (induction cs arbitrary: p)
  case Nil
  then have b: "hp_buffer p = ''0'' @ crlf @ crlf @ rest" by (simp add: chunked_text_def)
  have f: "find_str crlf (hp_buffer p) = Some 1"
    unfolding b using find_crlf_line [of "''0''"] by simp
  have "chunk_size_of (take 1 (hp_buffer p)) = Some 0"
    using chunk_size_of_to_hex [of 0] by (simp add: b to_hex_0)
  moreover have "after_last_chunk (drop (1 + 2) (hp_buffer p)) = rest"
    by (simp add: b after_last_chunk_def)
  ultimately show ?case using spec_chunks_last [OF f] by (simp add: add_body_def)
next
  case (Cons c cs)
  let ?l = "to_hex (length c)" and ?rest = "chunked_text cs @ rest"
  have b: "hp_buffer p = ?l @ crlf @ c @ crlf @ ?rest"
    using Cons.prems(1) by (simp add: chunked_text_def chunk_text_def)
  have f: "find_str crlf (hp_buffer p) = Some (length ?l)"
    unfolding b by (rule find_crlf_line) (rule to_hex_no_cr)
  have "chunk_size_of (take (length ?l) (hp_buffer p)) = Some (length c)"
    using Cons.prems(2) by (simp add: b chunk_size_of_to_hex chunk_ok_def)
  moreover have "c @ crlf @ ?rest = drop (length ?l + 2) (hp_buffer p)" by (simp add: b)
  moreover have "length c + 2 \<le> length (c @ crlf @ ?rest)" by simp
  ultimately have "spec_chunks p = spec_chunks ((add_body (take (length c) (c @ crlf @ ?rest)) p)
      \<lparr>hp_buffer := drop (length c + 2) (c @ crlf @ ?rest)\<rparr>)"
    using Cons.prems(2) by (intro spec_chunks_more [OF f]) (simp_all only: list.pred_inject chunk_ok_def length_greater_0_conv not_False_eq_True)
  also have "\<dots> = spec_chunks ((add_body c p)\<lparr>hp_buffer := ?rest\<rparr>)"
    by simp
  also have "\<dots> = (ec_ok, (add_body (concat cs) ((add_body c p)\<lparr>hp_buffer := ?rest\<rparr>))
      \<lparr>hp_buffer := rest, hp_state := St_complete\<rparr>)"
    using Cons.prems(2) by (intro Cons.IH) simp_all
  finally show ?case by (simp add: add_body_def)
qed

lemma spec_feed_chunked_body:
  assumes "100 \<le> code" "code \<le> 599" "CHR 0x0D \<notin> set reason" "list_all field_ok hs"
    and c: "hdr_is_chunked hs" and cs: "list_all chunk_ok cs"
  shows "\<exists>q. spec_feed (response_head code reason hs @ chunked_text cs @ rest) spec_init = (ec_ok, q)
    \<and> hp_state q = St_complete
    \<and> hp_response q = \<lparr>rs_status_code = of_nat code, rs_reason = reason, rs_headers = hs, rs_body = concat cs\<rparr>"
proof -
  let ?p = "(after_head code reason hs (chunked_text cs @ rest) spec_init)\<lparr>hp_state := St_body_chunked\<rparr>"
  have "end_of_headers (after_head code reason hs (chunked_text cs @ rest) spec_init) = ?p"
    using c by (simp add: end_of_headers_def resp_is_chunked_def after_head_def)
  then have "spec_feed (response_head code reason hs @ chunked_text cs @ rest) spec_init = spec_loop ?p"
    using spec_feed_head [OF assms(1-4), of "chunked_text cs @ rest"] by simp
  moreover have "spec_chunks ?p =
      (ec_ok, (add_body (concat cs) ?p)\<lparr>hp_buffer := rest, hp_state := St_complete\<rparr>)"
    using cs by (intro spec_chunks_text) (simp_all add: after_head_def)
  ultimately show ?thesis by (simp add: spec_loop_chunked after_head_def add_body_def spec_init_def)
qed

subsection \<open>Whole responses\<close>

lemma parse_response_spec:
  assumes "spec_feed data spec_init = (ec_ok, q)" and "hp_state q = St_complete"
  shows "\<exists>resp. parse_response data = Some (Inr resp) \<and> resp_map_body bb_contents resp = hp_response q"
proof -
  obtain p' where p': "feed data http_parser_init = Some (ec_ok, p')" "hp_abs p' = q"
    using feed_eval [OF hp_live_init, of data ec_ok q] assms(1) by auto
  then have "hp_state p' = St_complete" using assms(2) by auto
  then show ?thesis
    using p' by (auto simp: parse_response_def release_response_def v_has_error_def hp_abs_def)
qed

definition response_is :: "nat \<Rightarrow> string \<Rightarrow> http_headers \<Rightarrow> byte list \<Rightarrow> byte_buffer http_response \<Rightarrow> bool" where
  "response_is code reason hs body resp \<longleftrightarrow>
     unat (rs_status_code resp) = code \<and> rs_reason resp = reason \<and> rs_headers resp = hs
     \<and> bb_contents (rs_body resp) = body"

lemma response_isI:
  assumes "resp_map_body bb_contents resp =
      \<lparr>rs_status_code = of_nat code, rs_reason = reason, rs_headers = hs, rs_body = body\<rparr>" and "code \<le> 599"
  shows "response_is code reason hs body resp"
  using assms(2) arg_cong [OF assms(1), of rs_status_code] arg_cong [OF assms(1), of rs_reason]
    arg_cong [OF assms(1), of rs_headers] arg_cong [OF assms(1), of rs_body]
  by (simp add: response_is_def unat_of_nat)

subsection \<open>The pieces of a response\<close>

lemma spec_feed_left_over:
  assumes "spec_feed x spec_init = (r, q)" and "hp_state q = St_complete" and "\<not> resp_is_chunked (hp_response q)"
  shows "hp_buffer (snd (spec_feed (x @ y) spec_init)) = hp_buffer q @ y"
  using assms spec_loop_left_over [of "spec_init\<lparr>hp_buffer := x\<rparr>" r q y]
  by (simp add: spec_feed_loop at_rest_def spec_init_def more_input_def)

text \<open>No strict front of such a response completes the parser.\<close>

lemma length_body_not_early:
  assumes "100 \<le> code" "code \<le> 599" "CHR 0x0D \<notin> set reason" "list_all field_ok hs"
    and nc: "\<not> hdr_is_chunked hs" and cl: "hdr_content_length hs = Some (length body)"
    and split: "response_head code reason hs @ body = x @ y" "y \<noteq> []" and x: "spec_feed x spec_init = (r, p)"
  shows "hp_state p \<noteq> St_complete"
proof
  assume st: "hp_state p = St_complete"
  obtain q where q: "spec_feed (x @ y) spec_init = (ec_ok, q)" "hp_buffer q = []" "rs_headers (hp_response q) = hs"
    using spec_feed_length_body [OF assms(1-6), of "[]"] split(1) by auto
  have "settled (r, p) (ec_ok, q)"
    using spec_feed_append [OF x, of y] st q(1) x by (simp add: at_rest_def overflowed_def)
  then have "\<not> resp_is_chunked (hp_response p)"
    using q(3) nc by (simp add: settled_def same_view_def resp_is_chunked_def)
  then show False using spec_feed_left_over [OF x st, of y] q split(2) by simp
qed

text \<open>
  The pieces make up the rendered response: with a \<open>Content-Length\<close> in any cut the parser allows, in
  chunks as one piece.
\<close>

definition pieces_of :: "nat \<Rightarrow> string \<Rightarrow> http_headers \<Rightarrow> byte list \<Rightarrow> byte list list \<Rightarrow> bool" where
  "pieces_of code reason hs body ds \<longleftrightarrow>
     100 \<le> code \<and> code \<le> 599 \<and> CHR 0x0D \<notin> set reason \<and> list_all field_ok hs
     \<and> (if hdr_is_chunked hs
        then \<exists>cs. list_all chunk_ok cs \<and> body = concat cs \<and> ds = [response_head code reason hs @ chunked_text cs]
        else hdr_content_length hs = Some (length body) \<and> concat ds = response_head code reason hs @ body
          \<and> cuts_ok ds http_parser_init)"

lemma pieces_concat:
  assumes "pieces_of code reason hs body ds"
  shows "ds \<noteq> [] \<and> cuts_ok ds http_parser_init \<and> (\<exists>q. spec_feed (concat ds) spec_init = (ec_ok, q)
    \<and> hp_state q = St_complete
    \<and> hp_response q = \<lparr>rs_status_code = of_nat code, rs_reason = reason, rs_headers = hs, rs_body = body\<rparr>)"
proof (cases "hdr_is_chunked hs")
  case True
  then obtain cs where "list_all chunk_ok cs" "body = concat cs" "ds = [response_head code reason hs @ chunked_text cs]"
    using assms by (auto simp: pieces_of_def)
  then show ?thesis
    using assms True spec_feed_chunked_body [of code reason hs cs "[]"] by (simp add: pieces_of_def)
next
  case False
  then show ?thesis
    using assms spec_feed_length_body [of code reason hs body "[]"]
    by (auto simp: pieces_of_def response_head_def crlf_def)
qed

lemma pieces_feed:
  assumes p: "pieces_of code reason hs body ds"
  shows "\<exists>q. feed_all ds http_parser_init = Some (ec_ok, q) \<and> hp_state q = St_complete
    \<and> response_is code reason hs body (hp_response q)"
proof -
  obtain q where q: "spec_feed (concat ds) (hp_abs http_parser_init) = (ec_ok, q)" "hp_state q = St_complete"
      "hp_response q = \<lparr>rs_status_code = of_nat code, rs_reason = reason, rs_headers = hs, rs_body = body\<rparr>"
    and ds: "ds \<noteq> []" "cuts_ok ds http_parser_init"
    using pieces_concat [OF p] by auto
  obtain p where p: "feed (concat ds) http_parser_init = Some (ec_ok, p)" "hp_abs p = q"
    using feed_eval [OF hp_live_init q(1)] by blast
  obtain p' where p': "feed_all ds http_parser_init = Some (ec_ok, p')" "same_view (hp_abs p') (hp_abs p)"
    using feed_all_concat [OF hp_live_init ds] p(1) by auto
  have st: "hp_state p' = St_complete" using p' p(2) q(2) by (simp add: same_view_def)
  have "resp_map_body bb_contents (hp_response p') = hp_response q"
    using p'(2) p(2) by (auto simp: same_view_def hp_abs_def)
  moreover have "code \<le> 599" using assms by (simp add: pieces_of_def)
  ultimately have "response_is code reason hs body (hp_response p')" using response_isI q(3) by metis
  then show ?thesis using p'(1) st by blast
qed

text \<open>The parser is not done before the last piece.\<close>

lemma pieces_not_early:
  assumes p: "pieces_of code reason hs body (used @ unread)" and ne: "list_all (\<lambda>d. d \<noteq> []) unread"
    and q: "feed_all used http_parser_init = Some (ec_ok, q)" "hp_state q = St_complete"
  shows "unread = []"
proof (rule ccontr)
  assume "unread \<noteq> []"
  then have y: "concat unread \<noteq> []" using ne by (cases unread) auto
  have used: "used \<noteq> []" using q by (auto simp: http_parser_init_def)
  have a: "100 \<le> code" "code \<le> 599" "CHR 0x0D \<notin> set reason" "list_all field_ok hs" "\<not> hdr_is_chunked hs"
      "hdr_content_length hs = Some (length body)" "response_head code reason hs @ body = concat used @ concat unread"
    using p used \<open>unread \<noteq> []\<close> by (auto simp: pieces_of_def append_eq_Cons_conv split: if_splits)
  obtain r p1 where p1: "feed (concat used) http_parser_init = Some (r, p1)" "same_view (hp_abs q) (hp_abs p1)"
    using feed_all_concat [OF hp_live_init used cuts_ok_append [of used unread]] pieces_concat [OF p] q(1) by force
  have "spec_feed (concat used) spec_init = (r, hp_abs p1)"
    using feed_refines [OF hp_live_init, of "concat used"] p1(1) by auto
  then have "hp_state (hp_abs p1) \<noteq> St_complete" by (rule length_body_not_early [OF a y])
  then show False using p1(2) q(2) by (simp add: same_view_def)
qed

subsection \<open>A chunk that arrives after its size line\<close>

lemma spec_feed_size_line_first:
  assumes "100 \<le> code" "code \<le> 599" "CHR 0x0D \<notin> set reason" "list_all field_ok hs"
    and c: "hdr_is_chunked hs" and ok: "chunk_ok c"
  shows "\<exists>q. spec_feed (response_head code reason hs @ to_hex (length c) @ crlf) spec_init = (ec_ok, q)
    \<and> hp_state q = St_body_chunked \<and> hp_buffer q = []"
proof -
  let ?l = "to_hex (length c)"
  let ?p = "(after_head code reason hs (?l @ crlf) spec_init)\<lparr>hp_state := St_body_chunked\<rparr>"
  have "end_of_headers (after_head code reason hs (?l @ crlf) spec_init) = ?p"
    using c by (simp add: end_of_headers_def resp_is_chunked_def after_head_def)
  then have e: "spec_feed (response_head code reason hs @ ?l @ crlf) spec_init = spec_loop ?p"
    using spec_feed_head [OF assms(1-4), of "?l @ crlf"] by simp
  have b: "hp_buffer ?p = ?l @ crlf @ []" by (simp add: after_head_def)
  have f: "find_str crlf (hp_buffer ?p) = Some (length ?l)"
    unfolding b by (rule find_crlf_line) (rule to_hex_no_cr)
  have s: "chunk_size_of (take (length ?l) (hp_buffer ?p)) = Some (length c)"
    unfolding b using ok by (simp add: chunk_size_of_to_hex chunk_ok_def)
  have d: "drop (length ?l + 2) (hp_buffer ?p) = []" unfolding b by simp
  have "spec_chunks ?p = (ec_ok, ?p\<lparr>hp_buffer := []\<rparr>)"
    using spec_chunks_wait [OF f s _ d [symmetric]] ok by (simp add: chunk_ok_def)
  then show ?thesis unfolding e by (simp add: spec_loop_chunked)
qed

lemma spec_feed_bad_size_line:
  assumes "hp_state q = St_body_chunked" "hp_buffer q = []" "CHR 0x0D \<notin> set c" "chunk_size_of c = None"
  shows "\<exists>q'. spec_feed (c @ crlf @ rest) q = (http_chunked_encoding_error, q') \<and> hp_state q' = St_error"
proof -
  let ?p = "q\<lparr>hp_buffer := c @ crlf @ rest\<rparr>"
  have f: "find_str crlf (hp_buffer ?p) = Some (length c)" using find_crlf_line [OF assms(3)] by simp
  have "spec_chunks ?p = fail_with http_chunked_encoding_error (bad_chunk_message c) ?p"
    using spec_chunks_bad [OF f] assms(4) by simp
  then show ?thesis
    using assms(1,2) by (auto simp: spec_feed_loop at_rest_def spec_loop_chunked fail_with_def enter_error_def v_has_error_def)
qed

end
