(* ===== verification/Http_Reference.thy ===== *)
theory Http_Reference
  imports Http_Parser_Roundtrip
begin

text \<open>
  A decoder of whole responses, written from the format, as leniently as the code takes it (a status code is read
  modulo 2 to the 32, the line end after a chunk is not checked): it has no state, no buffer and no
  positions, and shares no function with the parser but the reading of a number
  (\<open>std::from_chars\<close>) and the two questions to the header fields. \<open>parse_response\<close> is shown to compute
  it on every string of bytes.
\<close>

subsection \<open>The decoder\<close>

text \<open>A line and what follows it.\<close>

fun cut_line :: "byte list \<Rightarrow> (string \<times> byte list) option" where
  "cut_line [] = None"
| "cut_line (c # cs) =
     (if c = CHR 0x0D \<and> cs \<noteq> [] \<and> hd cs = CHR 0x0A then Some ([], tl cs)
      else map_option (\<lambda>(l, rest). (c # l, rest)) (cut_line cs))"

lemma cut_line_shorter: "cut_line s = Some (l, rest) \<Longrightarrow> length rest < length s"
  by (induction s arbitrary: l) (auto split: if_splits)

text \<open>The parts of a line before and after the first occurrence of a character.\<close>

definition before :: "char \<Rightarrow> string \<Rightarrow> string" where
  "before c s = takeWhile (\<lambda>x. x \<noteq> c) s"

definition behind :: "char \<Rightarrow> string \<Rightarrow> string" where
  "behind c s = tl (dropWhile (\<lambda>x. x \<noteq> c) s)"

text \<open>A decimal number; one above the range of an \<open>int\<close> wraps around in the code.\<close>

definition digit :: "char \<Rightarrow> bool" where
  "digit c \<longleftrightarrow> c \<in> set ''0123456789''"

definition decimal :: "string \<Rightarrow> nat option" where
  "decimal s =
     (if s \<noteq> [] \<and> list_all digit s
      then Some (foldl (\<lambda>n c. 10 * n + (of_char c - 48)) 0 s) else None)"

definition decode_status :: "string \<Rightarrow> error_code + nat \<times> string" where
  "decode_status line =
     (if CHR '' '' \<notin> set line then Inl http_parse_error
      else if \<not> (prefix ''HTTP/1.'' line \<and> 8 \<le> length (before (CHR '' '') line)) then Inl http_invalid_version
      else case decimal (before (CHR '' '') (behind (CHR '' '') line)) of
             None \<Rightarrow> Inl http_parse_error
           | Some n \<Rightarrow>
               if n mod 2 ^ 32 \<in> {100..599} then Inr (n mod 2 ^ 32, behind (CHR '' '') (behind (CHR '' '') line))
               else Inl http_parse_error)"

definition strip :: "string \<Rightarrow> string" where
  "strip s = rev (dropWhile (\<lambda>c. c \<in> {CHR '' '', CHR 0x09}) (rev (dropWhile (\<lambda>c. c \<in> {CHR '' '', CHR 0x09}) s)))"

definition decode_field :: "string \<Rightarrow> error_code + header_field" where
  "decode_field line =
     (if CHR '':'' \<notin> set line \<or> hd line = CHR '':'' then Inl http_invalid_header
      else Inr \<lparr>hf_name = before (CHR '':'') line, hf_value = strip (behind (CHR '':'') line)\<rparr>)"

text \<open>The field lines up to the empty line; text that ends before it is not a response.\<close>

function decode_fields :: "byte list \<Rightarrow> error_code + http_headers \<times> byte list" where
  "decode_fields s =
     (case cut_line s of
        None \<Rightarrow> Inl http_parse_error
      | Some (line, rest) \<Rightarrow>
          if line = [] then Inr ([], rest)
          else (case decode_field line of
                  Inl e \<Rightarrow> Inl e
                | Inr f \<Rightarrow> (case decode_fields rest of Inl e \<Rightarrow> Inl e | Inr (fs, after) \<Rightarrow> Inr (f # fs, after))))"
  by pat_completeness auto
termination
  by (relation "measure length") (auto dest: cut_line_shorter)

declare decode_fields.simps [simp del]

text \<open>
  A chunk: its size in hexadecimal, at most 64 MiB, before an extension; the bytes; two more bytes, which
  the code does not look at. The chunk of size 0 ends the body.
\<close>

definition chunk_length :: "string \<Rightarrow> nat option" where
  "chunk_length line = from_chars 16 67108864 (dropWhile (\<lambda>c. c = CHR '' '') (before (CHR '';'') line))"

function decode_chunks :: "byte list \<Rightarrow> error_code + byte list" where
  "decode_chunks s =
     (case cut_line s of
        None \<Rightarrow> Inl http_parse_error
      | Some (line, rest) \<Rightarrow>
          (case chunk_length line of
             None \<Rightarrow> Inl http_chunked_encoding_error
           | Some n \<Rightarrow>
               if n = 0 then Inr []
               else if length rest < n + 2 then Inl http_parse_error
               else (case decode_chunks (drop (n + 2) rest) of Inl e \<Rightarrow> Inl e | Inr body \<Rightarrow> Inr (take n rest @ body))))"
  by pat_completeness auto
termination
  by (relation "measure length") (auto dest: cut_line_shorter)

declare decode_chunks.simps [simp del]

definition decode_body :: "http_headers \<Rightarrow> byte list \<Rightarrow> error_code + byte list" where
  "decode_body hs s =
     (if hdr_is_chunked hs then decode_chunks s
      else case hdr_content_length hs of
             None \<Rightarrow> Inl http_parse_error
           | Some n \<Rightarrow> if n \<le> length s then Inr (take n s) else Inl http_parse_error)"

definition decode_response :: "byte list \<Rightarrow> error_code + nat \<times> string \<times> http_headers \<times> byte list" where
  "decode_response s =
     (case cut_line s of
        None \<Rightarrow> Inl http_parse_error
      | Some (line, rest) \<Rightarrow>
          (case decode_status line of
             Inl e \<Rightarrow> Inl e
           | Inr (code, reason) \<Rightarrow>
               (case decode_fields rest of
                  Inl e \<Rightarrow> Inl e
                | Inr (hs, after) \<Rightarrow>
                    (case decode_body hs after of Inl e \<Rightarrow> Inl e | Inr body \<Rightarrow> Inr (code, reason, hs, body)))))"

subsection \<open>Lines\<close>

lemma cut_line_find:
  "cut_line s = (case find_str crlf s of None \<Rightarrow> None | Some pos \<Rightarrow> Some (take pos s, drop (pos + 2) s))"
proof (induction s)
  case (Cons c cs)
  have "prefix crlf (c # cs) \<longleftrightarrow> c = CHR 0x0D \<and> cs \<noteq> [] \<and> hd cs = CHR 0x0A"
    by (cases cs) (auto simp: crlf_def)
  moreover have "drop 2 (c # cs) = tl cs" by (simp add: drop_Suc numeral_2_eq_2)
  ultimately show ?case using Cons.IH by (auto split: option.splits)
qed simp

lemma find_char_before:
  "find_char c s = Some i \<Longrightarrow> c \<in> set s \<and> take i s = before c s \<and> drop (i + 1) s = behind c s \<and> i = length (before c s)"
  by (induction s arbitrary: i) (auto simp: before_def behind_def split: if_splits)

lemma before_all: "c \<notin> set s \<Longrightarrow> before c s = s" "c \<notin> set s \<Longrightarrow> behind c s = []"
  by (induction s) (auto simp: before_def behind_def)

subsection \<open>The status line\<close>

lemma digit_chars: "digit c \<longleftrightarrow> \<not> ((of_char c :: nat) < 48 \<or> (of_char c :: nat) > 57)"
proof
  assume "\<not> ((of_char c :: nat) < 48 \<or> (of_char c :: nat) > 57)"
  then have "(of_char c :: nat) \<in> {48, 49, 50, 51, 52, 53, 54, 55, 56, 57}" unfolding insert_iff empty_iff by presburger
  moreover have "c = char_of (of_char c :: nat)" by simp
  ultimately have "c \<in> char_of ` {48, 49, 50, 51, 52, 53, 54, 55, 56, 57 :: nat}" by blast
  then show "digit c" by (auto simp: digit_def char_of_def bit_0)
qed (auto simp: digit_def)

lemma status_digits_decimal:
  "status_digits s (of_nat m) =
     (if list_all digit s then Some (of_nat (foldl (\<lambda>n c. 10 * n + (of_char c - 48)) m s)) else None)"
proof (induction s arbitrary: m)
  case (Cons c s)
  let ?m = "10 * m + (of_char c - 48)"
  have m: "of_nat m * 10 + of_nat (of_char c - 48) = (of_nat ?m :: 32 word)"
    unfolding of_nat_add of_nat_mult by simp
  have "status_digits (c # s) (of_nat m) = (if digit c then status_digits s (of_nat ?m) else None)"
    unfolding status_digits.simps m digit_chars by (cases "(of_char c :: nat) < 48 \<or> 57 < (of_char c :: nat)") auto
  then show ?case by (simp only: Cons.IH list.pred_inject foldl_Cons if_split) auto
qed simp

lemma status_range_word: "\<not> (sint w < 100 \<or> sint w > 599) \<longleftrightarrow> unat w \<in> {100..599}" for w :: "32 word"
proof -
  have u: "int (unat w) = uint w" by simp
  show ?thesis
  proof
    assume r: "\<not> (sint w < 100 \<or> sint w > 599)"
    define k where "k = sint w"
    have k: "100 \<le> k" "k \<le> 599" using r by (auto simp: k_def)
    have c: "w = word_of_int k" by (simp add: k_def)
    have "uint w = k" unfolding c uint_word_of_int using k by (intro mod_pos_pos_trivial) auto
    then show "unat w \<in> {100..599}" using k u unfolding atLeastAtMost_iff by linarith
  next
    assume "unat w \<in> {100..599}"
    then have "100 \<le> uint w" "uint w \<le> 599" using u unfolding atLeastAtMost_iff by linarith+
    moreover from this have "sint w = uint w" unfolding sint_uint by (intro signed_take_bit_int_eq_self) auto
    ultimately show "\<not> (sint w < 100 \<or> sint w > 599)" by simp
  qed
qed

lemma status_range:
  "sint (of_nat n :: 32 word) < 100 \<or> sint (of_nat n :: 32 word) > 599 \<longleftrightarrow> n mod 2 ^ 32 \<notin> {100..599}"
proof -
  have "unat (of_nat n :: 32 word) = n mod 2 ^ 32" by (simp only: unat_of_nat len_num0 len_num1 len_bit0 len_bit1) simp
  then show ?thesis using status_range_word [of "of_nat n"] by auto
qed

lemma status_word: "ucast (of_nat n :: 32 word) = (of_nat (n mod 2 ^ 32) :: 16 word)"
proof -
  have "ucast (of_nat n :: 32 word) = (of_nat (unat (of_nat n :: 32 word)) :: 16 word)"
    by (simp only: of_nat_unat)
  then show ?thesis by (simp only: unat_of_nat len_num0 len_num1 len_bit0 len_bit1) simp
qed

lemma version_ok:
  "8 \<le> length v \<Longrightarrow> prefix ''HTTP/1.'' (v @ r) \<longleftrightarrow> take 7 v = ''HTTP/1.''"
proof -
  assume "8 \<le> length v"
  moreover have "prefix p w \<longleftrightarrow> take (length p) w = p" for p w :: string
    by (auto simp: prefix_def) (metis append_take_drop_id)
  ultimately show ?thesis by (simp add: eval_nat_numeral)
qed

definition with_status :: "nat \<Rightarrow> string \<Rightarrow> spec_parser \<Rightarrow> spec_parser" where
  "with_status code reason p =
     p\<lparr>hp_response := (hp_response p)\<lparr>rs_status_code := of_nat code, rs_reason := reason\<rparr>\<rparr>"

lemma parse_status_line_decodes:
  "case decode_status line of
     Inl e \<Rightarrow> e \<noteq> ec_ok \<and> fst (parse_status_line line p) = e
   | Inr (code, reason) \<Rightarrow> code \<le> 599 \<and> parse_status_line line p = (ec_ok, with_status code reason p)"
proof (cases "find_char (CHR '' '') line")
  case None
  then show ?thesis
    by (simp add: find_char_None [symmetric] decode_status_def parse_status_line_def fail_with_def)
next
  case (Some i)
  note l = find_char_before [OF Some]
  have t: "take i line = before (CHR '' '') line" and b: "drop (i + 1) line = behind (CHR '' '') line" using l by blast+
  let ?rest = "behind (CHR '' '') line"
  have lv: "line = before (CHR '' '') line @ drop i line" using l append_take_drop_id [of i line] by metis
  have c: "(case find_char (CHR '' '') ?rest of None \<Rightarrow> ?rest | Some k \<Rightarrow> take k ?rest) = before (CHR '' '') ?rest"
    and r: "(case find_char (CHR '' '') ?rest of None \<Rightarrow> [] | Some k \<Rightarrow> drop (k + 1) ?rest) = behind (CHR '' '') ?rest"
    using find_char_before [of "CHR '' ''" ?rest] before_all [of "CHR '' ''" ?rest]
    by (auto simp: find_char_None split: option.split)
  have d: "status_digits s 0 = (if s = [] then Some 0 else map_option of_nat (decimal s))" for s
    using status_digits_decimal [of s 0] by (simp add: decimal_def)
  have v: "length (before (CHR '' '') line) < 8 \<or> take 7 (before (CHR '' '') line) \<noteq> ''HTTP/1.'' \<longleftrightarrow>
      \<not> (prefix ''HTTP/1.'' line \<and> 8 \<le> length (before (CHR '' '') line))"
    using version_ok [of "before (CHR '' '') line" "drop i line"] lv by (metis not_le)
  have e: "decimal [] = None" by (simp add: decimal_def)
  let ?code = "before (CHR '' '') ?rest" and ?reason = "behind (CHR '' '') ?rest"
  have p: "parse_status_line line p =
      (if \<not> (prefix ''HTTP/1.'' line \<and> 8 \<le> length (before (CHR '' '') line))
       then fail_with http_invalid_version ''invalid HTTP version'' p
       else if ?code = [] then fail_with http_parse_error ''empty status code'' p
       else case status_digits ?code 0 of
              None \<Rightarrow> fail_with http_parse_error ''non-digit in status code'' p
            | Some code \<Rightarrow>
                if sint code < 100 \<or> sint code > 599
                then fail_with http_parse_error ''status code out of range'' p
                else (ec_ok, p\<lparr>hp_response := (hp_response p)\<lparr>rs_status_code := ucast code, rs_reason := ?reason\<rparr>\<rparr>))"
    unfolding parse_status_line_def Some by (simp only: option.case t b Let_def c r v)
  show ?thesis
  proof (cases "prefix ''HTTP/1.'' line \<and> 8 \<le> length (before (CHR '' '') line)")
    case False
    then show ?thesis using l unfolding p by (auto simp: decode_status_def fail_with_def)
  next
    case True
    then have s: "decode_status line = (case decimal ?code of
        None \<Rightarrow> Inl http_parse_error
      | Some n \<Rightarrow> if n mod 2 ^ 32 \<in> {100..599} then Inr (n mod 2 ^ 32, ?reason) else Inl http_parse_error)"
      using l unfolding decode_status_def by (simp only: not_True_eq_False if_False simp_thms)
    show ?thesis
    proof (cases "decimal ?code")
      case None
      then show ?thesis using True unfolding p s by (simp add: d fail_with_def)
    next
      case n: (Some n)
      then have "?code \<noteq> []" using e by auto
      then have "parse_status_line line p =
          (if n mod 2 ^ 32 \<in> {100..599} then (ec_ok, with_status (n mod 2 ^ 32) ?reason p)
           else fail_with http_parse_error ''status code out of range'' p)"
        using True n status_range [of n] unfolding p with_status_def d by (simp only: if_False option.map option.case
            status_word not_True_eq_False simp_thms if_not_P if_P split: if_split) auto
      then show ?thesis unfolding s n by (auto simp: fail_with_def)
    qed
  qed
qed

subsection \<open>Header fields\<close>

definition with_fields :: "http_headers \<Rightarrow> spec_parser \<Rightarrow> spec_parser" where
  "with_fields fs p = p\<lparr>hp_response := (hp_response p)\<lparr>rs_headers := rs_headers (hp_response p) @ fs\<rparr>\<rparr>"

lemma strip_ows: "rtrim ows (ltrim ows s) = strip s"
proof -
  have "ows = (\<lambda>c. c \<in> {CHR '' '', CHR 0x09})" by (auto simp: ows_def)
  then show ?thesis by (simp add: strip_def rtrim_def ltrim_def)
qed

lemma before_Nil: "line \<noteq> [] \<Longrightarrow> before c line = [] \<longleftrightarrow> hd line = c"
  by (cases line) (auto simp: before_def)

lemma parse_header_line_decodes:
  "line \<noteq> [] \<Longrightarrow>
   case decode_field line of
     Inl e \<Rightarrow> e \<noteq> ec_ok \<and> fst (parse_header_line line p) = e
   | Inr f \<Rightarrow> parse_header_line line p = (ec_ok, with_fields [f] p)"
proof (cases "find_char (CHR '':'') line")
  case None
  then show ?thesis
    by (simp add: find_char_None [symmetric] decode_field_def parse_header_line_def fail_with_def)
next
  case (Some i)
  assume ne: "line \<noteq> []"
  note l = find_char_before [OF Some]
  have t: "take i line = before (CHR '':'') line" and b: "drop (i + 1) line = behind (CHR '':'') line" using l by blast+
  have "parse_header_line line p =
      (if before (CHR '':'') line = [] then fail_with http_invalid_header ''empty header name'' p
       else (ec_ok, with_fields [\<lparr>hf_name = before (CHR '':'') line, hf_value = strip (behind (CHR '':'') line)\<rparr>] p))"
    unfolding parse_header_line_def Some with_fields_def by (simp only: option.case t b Let_def strip_ows hdr_add_def)
  then show ?thesis using l before_Nil [OF ne, of "CHR '':''"] by (auto simp: decode_field_def fail_with_def)
qed

subsection \<open>Chunks\<close>

lemma chunk_length_size: "chunk_length line = chunk_size_of line"
proof -
  have "chunk_hex line = dropWhile (\<lambda>c. c = CHR '' '') (before (CHR '';'') line)"
    using find_char_before [of "CHR '';''" line] before_all [of "CHR '';''" line]
    by (auto simp: chunk_hex_def ltrim_def find_char_None split: option.split)
  moreover have "from_chars 16 67108864 s = (if s = [] then None else case from_chars 16 ulong_max s of
      None \<Rightarrow> None | Some n \<Rightarrow> if n > max_chunk_size then None else Some n)" for s
    by (auto simp: from_chars_def Let_def ulong_max_def max_chunk_size_def)
  ultimately show ?thesis by (simp add: chunk_length_def chunk_size_of_def)
qed

text \<open>What a call tells its caller: an error, or the response once it is complete.\<close>

definition outcome :: "vresult \<times> spec_parser \<Rightarrow> error_code + byte list http_response" where
  "outcome rp =
     (if v_has_error (fst rp) then Inl (fst rp)
      else if hp_state (snd rp) \<noteq> St_complete then Inl http_parse_error else Inr (hp_response (snd rp)))"

lemma outcome_chunks:
  "hp_state p = St_body_chunked \<Longrightarrow>
   outcome (enter_error (spec_chunks p)) = map_sum id (\<lambda>bs. hp_response (add_body bs p)) (decode_chunks (hp_buffer p))"
proof (induction "length (hp_buffer p)" arbitrary: p rule: less_induct)
  case less
  note d = decode_chunks.simps [of "hp_buffer p"] cut_line_find chunk_length_size
  show ?case
  proof (cases p rule: chunk_cases)
    case no_line
    then show ?thesis using less.prems by (simp add: spec_chunks_no_line d outcome_def v_has_error_def)
  next
    case (bad pos)
    then show ?thesis
      by (simp add: spec_chunks_bad d outcome_def v_has_error_def fail_with_def enter_error_def)
  next
    case (last pos)
    then show ?thesis by (simp add: spec_chunks_last d outcome_def v_has_error_def add_body_def)
  next
    case (wait pos n buf)
    then show ?thesis using less.prems by (simp add: spec_chunks_wait d outcome_def v_has_error_def)
  next
    case (more pos n buf)
    let ?p = "(add_body (take n buf) p)\<lparr>hp_buffer := drop (n + 2) buf\<rparr>"
    have "length (hp_buffer ?p) < length (hp_buffer p)" using find_str_bound [OF more(1)] more(4) by (simp add: crlf_def)
    then have "outcome (enter_error (spec_chunks ?p)) =
        map_sum id (\<lambda>bs. hp_response (add_body bs ?p)) (decode_chunks (drop (n + 2) buf))"
      using less.hyps [of ?p] less.prems by simp
    moreover have "hp_response (add_body bs ?p) = hp_response (add_body (take n buf @ bs) p)" for bs
      by (simp add: add_body_def)
    ultimately show ?thesis
      using more by (simp add: spec_chunks_more d not_less split: sum.split)
  qed
qed

subsection \<open>The head and the body\<close>

definition decoded :: "spec_parser \<Rightarrow> error_code + http_headers \<times> byte list \<Rightarrow> error_code + byte list http_response" where
  "decoded p d =
     (case d of
        Inl e \<Rightarrow> Inl e
      | Inr (fs, after) \<Rightarrow>
          map_sum id (\<lambda>bs. hp_response (add_body bs (with_fields fs p)))
            (decode_body (rs_headers (hp_response p) @ fs) after))"

lemma outcome_body:
  assumes "hp_state p = St_headers"
  shows "outcome (spec_loop (end_of_headers p)) = decoded p (Inr ([], hp_buffer p))"
proof (cases "hdr_is_chunked (rs_headers (hp_response p))")
  case True
  then have e: "end_of_headers p = p\<lparr>hp_state := St_body_chunked\<rparr>" by (simp add: end_of_headers_def resp_is_chunked_def)
  show ?thesis using outcome_chunks [of "p\<lparr>hp_state := St_body_chunked\<rparr>"] True
    by (simp add: e spec_loop_chunked decoded_def decode_body_def with_fields_def add_body_def)
next
  case nc: False
  show ?thesis
  proof (cases "hdr_content_length (rs_headers (hp_response p))")
    case None
    then show ?thesis
      using nc by (simp add: end_of_headers_def resp_is_chunked_def resp_content_length_def spec_loop_until_eof outcome_def
          v_has_error_def decoded_def decode_body_def with_fields_def)
  next
    case (Some n)
    then have e: "end_of_headers p = p\<lparr>hp_body_remaining := n, hp_content_length_set := True, hp_state := St_body_raw\<rparr>"
      using nc by (simp add: end_of_headers_def resp_is_chunked_def resp_content_length_def)
    have d: "decoded p (Inr ([], hp_buffer p)) =
        (if n \<le> length (hp_buffer p) then Inr (hp_response (add_body (take n (hp_buffer p)) p)) else Inl http_parse_error)"
      using nc Some by (simp add: decoded_def decode_body_def with_fields_def)
    have "add_body [] p = p" by (simp add: add_body_def)
    then show ?thesis
      by (auto simp: e d spec_loop_raw outcome_def v_has_error_def Let_def add_body_def min_def)
  qed
qed

lemma outcome_fields:
  "hp_state p = St_headers \<Longrightarrow> outcome (spec_loop p) = decoded p (decode_fields (hp_buffer p))"
proof (induction "length (hp_buffer p)" arbitrary: p rule: less_induct)
  case less
  note st = less.prems
  show ?case
  proof (cases "find_str crlf (hp_buffer p)")
    case None
    then show ?thesis
      using st by (simp add: spec_loop_no_line decode_fields.simps cut_line_find header_overflow_def outcome_def
          v_has_error_def decoded_def)
  next
    case (Some pos)
    note d = decode_fields.simps [of "hp_buffer p"] cut_line_find
    show ?thesis
    proof (cases "pos = 0")
      case True
      then show ?thesis using outcome_body [of "p\<lparr>hp_buffer := drop 2 (hp_buffer p)\<rparr>"] Some st
        by (simp add: spec_loop_empty d decoded_def with_fields_def add_body_def numeral_2_eq_2)
    next
      case False
      let ?line = "take pos (hp_buffer p)" and ?after = "drop (pos + 2) (hp_buffer p)"
      have ne: "?line \<noteq> []" using find_str_bound [OF Some] False by (auto simp: crlf_def)
      obtain r p1 where r: "parse_header_line ?line p = (r, p1)" by fastforce
      note loop = spec_loop_header [OF st Some False r]
      show ?thesis
      proof (cases "decode_field ?line")
        case (Inl e)
        then show ?thesis
          using parse_header_line_decodes [OF ne, of p] ne Some
          by (simp add: loop r d outcome_def enter_error_def v_has_error_def decoded_def)
      next
        case (Inr f)
        let ?q = "(with_fields [f] p)\<lparr>hp_buffer := ?after\<rparr>"
        have "length (hp_buffer ?q) < length (hp_buffer p)" using find_str_bound [OF Some] by (simp add: crlf_def)
        moreover have "hp_state ?q = St_headers" using st by (simp add: with_fields_def)
        ultimately have "outcome (spec_loop ?q) = decoded ?q (decode_fields ?after)" using less.hyps [of ?q] by simp
        moreover have "decoded ?q (Inr (fs, after)) = decoded p (Inr (f # fs, after))" for fs after
          by (simp add: decoded_def with_fields_def add_body_def)
        ultimately show ?thesis
          using parse_header_line_decodes [OF ne, of p] Inr ne Some
          by (auto simp: loop r d v_has_error_def decoded_def split: sum.split)
      qed
    qed
  qed
qed

lemma outcome_response:
  "outcome (spec_feed data spec_init) =
     map_sum id (\<lambda>(code, reason, hs, body).
       \<lparr>rs_status_code = of_nat code, rs_reason = reason, rs_headers = hs, rs_body = body\<rparr>) (decode_response data)"
proof -
  let ?p = "spec_init\<lparr>hp_buffer := data\<rparr>"
  have st: "hp_state ?p = St_status_line" by (simp add: spec_init_def)
  have feed: "spec_feed data spec_init = spec_loop ?p" by (simp add: spec_feed_loop at_rest_def spec_init_def)
  show ?thesis
  proof (cases "find_str crlf data")
    case None
    then show ?thesis
      using st by (simp add: feed spec_loop_no_line decode_response_def cut_line_find header_overflow_def outcome_def
          v_has_error_def)
  next
    case (Some pos)
    let ?line = "take pos data" and ?after = "drop (pos + 2) data"
    obtain r p1 where r: "parse_status_line ?line ?p = (r, p1)" by fastforce
    have loop: "spec_loop ?p = (if v_has_error r then enter_error (r, p1)
        else spec_loop (p1\<lparr>hp_buffer := ?after, hp_state := St_headers\<rparr>))"
      using spec_loop_status [OF st, of pos r p1] Some r by simp
    note dec = parse_status_line_decodes [of ?line ?p]
    show ?thesis
    proof (cases "decode_status ?line")
      case (Inl e)
      then show ?thesis
        using dec Some by (simp add: feed loop r decode_response_def cut_line_find outcome_def enter_error_def v_has_error_def)
    next
      case (Inr cr)
      obtain code reason where cr: "cr = (code, reason)" by fastforce
      let ?q = "(with_status code reason ?p)\<lparr>hp_buffer := ?after, hp_state := St_headers\<rparr>"
      have "outcome (spec_feed data spec_init) = outcome (spec_loop ?q)"
        using dec Inr by (simp add: cr feed loop r v_has_error_def)
      moreover have "outcome (spec_loop ?q) = decoded ?q (decode_fields ?after)" using outcome_fields [of ?q] by simp
      moreover have "hp_response ?q = \<lparr>rs_status_code = of_nat code, rs_reason = reason, rs_headers = [], rs_body = []\<rparr>"
        by (simp add: with_status_def spec_init_def)
      ultimately show ?thesis
        using Inr Some by (auto simp: cr decode_response_def cut_line_find decoded_def with_fields_def add_body_def
            split: sum.split)
    qed
  qed
qed

lemma decode_response_code: "decode_response data = Inr (code, reason, hs, body) \<Longrightarrow> code \<le> 599"
  by (auto simp: decode_response_def decode_status_def split: option.splits sum.splits if_splits)

lemma parse_response_outcome:
  "\<exists>resp. resp_map_body bb_contents resp = hp_response (snd (spec_feed data spec_init))
     \<and> parse_response data = Some (map_sum id (\<lambda>_. resp) (outcome (spec_feed data spec_init)))"
proof -
  obtain r q where q: "spec_feed data spec_init = (r, q)" by fastforce
  then obtain p' where p': "feed data http_parser_init = Some (r, p')" "hp_abs p' = q"
    using feed_refines [OF hp_live_init, of data] by fastforce
  then have "hp_state p' = hp_state q" "resp_map_body bb_contents (hp_response p') = hp_response q"
    by (auto simp: hp_abs_def hp_map_body_def)
  then show ?thesis
    by (intro exI [of _ "hp_response p'"]) (auto simp: q p' parse_response_def outcome_def release_response_def)
qed

end
