(* ===== verification/Http_Parser_Claims.thy ===== *)
theory Http_Parser_Claims
  imports Http_Reference
begin

text \<open>
  The properties of the response parser: what it makes of every string of bytes and of well-formed
  responses, what holds of every parser built by \<open>feed\<close> and \<open>reset\<close>, and where it goes wrong.
\<close>

definition sample_headers :: http_headers where
  "sample_headers = [\<lparr>hf_name = ''Content-Length'', hf_value = ''2''\<rparr>]"

definition sample_chunked :: http_headers where
  "sample_chunked = [\<lparr>hf_name = ''Transfer-Encoding'', hf_value = ''chunked''\<rparr>]"

lemma sample_headers_ok:
  "list_all field_ok sample_headers" "\<not> hdr_is_chunked sample_headers"
  "hdr_content_length sample_headers = Some 2"
proof -
  show "list_all field_ok sample_headers" by code_simp
  show "\<not> hdr_is_chunked sample_headers" by code_simp
  have "''2'' = to_string 2" by code_simp
  then show "hdr_content_length sample_headers = Some 2"
    using from_chars_to_string [of size_max 2]
    by (simp add: hdr_content_length_def sample_headers_def size_max_def)
qed

lemma sample_chunked_ok: "list_all field_ok sample_chunked" "hdr_is_chunked sample_chunked"
  by code_simp+

text \<open>C1: A response rendered with a status line, clean header fields and a body whose length the
  \<open>Content-Length\<close> field gives parses to exactly that status, reason, fields and body.\<close>

theorem parse_response_length_body:
  assumes "100 \<le> code" "code \<le> 599" "CHR 0x0D \<notin> set reason" "list_all field_ok hs"
    and "\<not> hdr_is_chunked hs" "hdr_content_length hs = Some (length body)"
  shows "\<exists>resp. parse_response (response_head code reason hs @ body) = Some (Inr resp)
    \<and> response_is code reason hs body resp"
  using spec_feed_length_body [OF assms, of "[]"] parse_response_spec response_isI [OF _ assms(2)] by fastforce

theorem parse_response_length_body_witness:
  "\<exists>resp. parse_response (response_head 200 ''OK'' sample_headers @ ''hi'') = Some (Inr resp)
    \<and> response_is 200 ''OK'' sample_headers ''hi'' resp"
  by (rule parse_response_length_body) (simp_all add: sample_headers_ok)

text \<open>C2: A response with a chunked body parses to the concatenation of its chunks when it arrives
  in one piece.\<close>

theorem parse_response_chunked_body:
  assumes "100 \<le> code" "code \<le> 599" "CHR 0x0D \<notin> set reason" "list_all field_ok hs"
    and "hdr_is_chunked hs" "list_all chunk_ok cs"
  shows "\<exists>resp. parse_response (response_head code reason hs @ chunked_text cs) = Some (Inr resp)
    \<and> response_is code reason hs (concat cs) resp"
  using spec_feed_chunked_body [OF assms, of "[]"] parse_response_spec response_isI [OF _ assms(2)] by fastforce

theorem parse_response_chunked_body_witness:
  "\<exists>resp. parse_response (response_head 200 ''OK'' sample_chunked @ chunked_text [''hel'', ''lo'']) = Some (Inr resp)
    \<and> response_is 200 ''OK'' sample_chunked (concat [''hel'', ''lo'']) resp"
  by (rule parse_response_chunked_body) (simp_all add: sample_chunked_ok chunk_ok_def max_chunk_size_def)

text \<open>C3: For every parser built by \<open>feed\<close> and \<open>reset\<close>: however the bytes are cut into reads, as long as
  no read but the last stops inside a chunked body or past the header limit, feeding them one by one gives the result, the state and the
  response of feeding them at once.\<close>

theorem feed_independent_of_cuts:
  assumes "parser_reachable p" and "ds \<noteq> []" and "cuts_ok ds p"
  shows "\<exists>r q q'. feed_all ds p = Some (r, q) \<and> feed (concat ds) p = Some (r, q')
    \<and> same_view (hp_abs q) (hp_abs q')"
  using feed_all_concat [OF reachable_live [OF assms(1)] assms(2,3)] .

theorem feed_independent_of_cuts_witness:
  "\<exists>r q q'. feed_all [''HTTP/1.1 20'', ''0 OK''] http_parser_init = Some (r, q)
    \<and> feed (concat [''HTTP/1.1 20'', ''0 OK'']) http_parser_init = Some (r, q')
    \<and> same_view (hp_abs q) (hp_abs q')"
proof (rule feed_independent_of_cuts)
  show "parser_reachable http_parser_init" by (rule reach_init)
  have "feed ''HTTP/1.1 20'' http_parser_init = Some (ec_ok, http_parser_init\<lparr>hp_buffer := ''HTTP/1.1 20''\<rparr>)"
    by (simp add: feed_def feed_with_def http_parser_init_def feed_loop_status_none crlf_def max_header_buffer_def)
  then show "cuts_ok [''HTTP/1.1 20'', ''0 OK''] http_parser_init"
    by (simp add: http_parser_init_def overflowed_def)
qed simp

text \<open>C4: On every string of bytes \<open>parse_response\<close> returns what the decoder of \<open>Http_Reference\<close>
  makes of it: the same error, or a response with the decoded status code, reason, fields and body
  bytes. The decoder takes the text apart line by line and chunk by chunk, without the states, the
  buffer and the loops of the parser; a response without a length, and one that is cut short, are
  errors in both.\<close>

theorem parse_response_decodes:
  "case decode_response data of
     Inl e \<Rightarrow> parse_response data = Some (Inl e)
   | Inr (code, reason, hs, body) \<Rightarrow>
       \<exists>resp. parse_response data = Some (Inr resp) \<and> response_is code reason hs body resp"
proof -
  obtain resp where resp: "resp_map_body bb_contents resp = hp_response (snd (spec_feed data spec_init))"
      "parse_response data = Some (map_sum id (\<lambda>_. resp) (outcome (spec_feed data spec_init)))"
    using parse_response_outcome by blast
  show ?thesis
  proof (cases "decode_response data")
    case (Inl e)
    then show ?thesis using resp(2) by (simp add: outcome_response)
  next
    case (Inr d)
    obtain code reason hs body where d: "d = (code, reason, hs, body)" by (metis prod_cases4)
    have "outcome (spec_feed data spec_init) =
        Inr \<lparr>rs_status_code = of_nat code, rs_reason = reason, rs_headers = hs, rs_body = body\<rparr>"
      by (simp add: outcome_response Inr d)
    moreover from this have "resp_map_body bb_contents resp =
        \<lparr>rs_status_code = of_nat code, rs_reason = reason, rs_headers = hs, rs_body = body\<rparr>"
      using resp(1) by (simp add: outcome_def split: if_splits)
    ultimately show ?thesis
      using resp(2) response_isI decode_response_code [of data code reason hs body] by (simp add: Inr d)
  qed
qed

text \<open>On every parser built by \<open>feed\<close> and \<open>reset\<close>, \<open>feed\<close> returns, whatever the bytes, and the
  ring buffer of the body is never seen: the result is that of the same loop over a plain list.\<close>

theorem feed_total_refines:
  assumes "parser_reachable p"
  shows "\<exists>r p'. feed data p = Some (r, p') \<and> parser_reachable p' \<and> spec_feed data (hp_abs p) = (r, hp_abs p')"
  using reachable_feed [OF assms, of data] by metis

theorem feed_total_refines_witness:
  "\<exists>r p'. feed [CHR 0x00, CHR 0xFF] http_parser_init = Some (r, p') \<and> parser_reachable p'
    \<and> spec_feed [CHR 0x00, CHR 0xFF] (hp_abs http_parser_init) = (r, hp_abs p')"
  by (rule feed_total_refines) (rule reach_init)

text \<open>C13: A parser built by \<open>feed\<close> and \<open>reset\<close> that reports completion holds a status code from 100 to 599, and its body is
  either chunked or as long as the \<open>Content-Length\<close> field says.\<close>

theorem complete_response_consistent:
  assumes "parser_reachable p" and "hp_state p = St_complete"
  shows "100 \<le> unat (rs_status_code (hp_response p)) \<and> unat (rs_status_code (hp_response p)) \<le> 599
    \<and> (\<not> resp_is_chunked (hp_response p) \<longrightarrow>
         resp_content_length (hp_response p) = Some (length (bb_contents (rs_body (hp_response p)))))"
  using parser_reachable_inv [OF assms(1)] assms(2) by (auto simp: spec_inv_def status_ok_def)

theorem complete_response_consistent_witness:
  "\<exists>p :: byte_buffer http_parser. hp_state p = St_complete \<and> 100 \<le> unat (rs_status_code (hp_response p))
    \<and> unat (rs_status_code (hp_response p)) \<le> 599 \<and> rs_headers (hp_response p) = sample_headers
    \<and> resp_content_length (hp_response p) = Some (length (bb_contents (rs_body (hp_response p))))"
proof -
  obtain q where q: "spec_feed (response_head 200 ''OK'' sample_headers @ ''hi'' @ []) (hp_abs http_parser_init) = (ec_ok, q)"
      "hp_state q = St_complete" "rs_headers (hp_response q) = sample_headers"
    using spec_feed_length_body [of 200 "''OK''" sample_headers "''hi''" "[]"] sample_headers_ok by auto
  obtain p where p: "feed (response_head 200 ''OK'' sample_headers @ ''hi'' @ []) http_parser_init = Some (ec_ok, p)"
      "hp_abs p = q"
    using feed_eval [OF hp_live_init q(1)] by blast
  have "parser_reachable p" using reach_step [OF reach_init step_feed [OF p(1)]] .
  moreover have "hp_state p = St_complete" "rs_headers (hp_response p) = sample_headers"
    using p(2) q(2,3) by (auto simp: hp_abs_def hp_map_body_def resp_map_body_def)
  ultimately show ?thesis
    using complete_response_consistent [of p] sample_headers_ok(2)
    by (intro exI [of _ p]) (simp add: resp_is_chunked_def)
qed

text \<open>Between two reads a parser that is still in the head holds at most 8192 bytes, none of
  them a complete line.\<close>

theorem head_buffer_bounded:
  assumes "parser_reachable p" and "hp_state p = St_status_line \<or> hp_state p = St_headers"
  shows "length (hp_buffer p) \<le> max_header_buffer \<and> find_str crlf (hp_buffer p) = None"
  using parser_reachable_inv [OF assms(1)] assms(2) by (auto simp: spec_waiting_def)

theorem head_buffer_bounded_witness:
  "length (hp_buffer http_parser_init) \<le> max_header_buffer \<and> find_str crlf (hp_buffer http_parser_init) = None"
  by (rule head_buffer_bounded) (simp_all add: reach_init, simp add: http_parser_init_def)

text \<open>A read never takes the parser back: it moves from the status line over the headers and
  one kind of body to completion or error, and an error it reports is also its state.\<close>

theorem feed_moves_forward:
  assumes "parser_reachable p" and "feed data p = Some (r, p')"
  shows "stage (hp_state p) \<le> stage (hp_state p') \<and> (v_has_error r \<longrightarrow> hp_state p' = St_error)
    \<and> (hp_state p = St_complete \<or> hp_state p = St_error \<longrightarrow> p' = p \<and> r = ec_ok)"
proof -
  obtain r1 p1 where f: "feed data p = Some (r1, p1)" "inv_after (stage (hp_state p)) (r1, hp_abs p1)"
    using reachable_feed [OF assms(1), of data] by blast
  then show ?thesis
    using assms(2) feed_at_rest [of p data] by (auto simp: inv_after_def at_rest_def)
qed

theorem feed_moves_forward_witness:
  "\<exists>r p'. feed ''HTTP'' http_parser_init = Some (r, p')
    \<and> stage (hp_state http_parser_init) \<le> stage (hp_state p') \<and> (v_has_error r \<longrightarrow> hp_state p' = St_error)
    \<and> (hp_state http_parser_init = St_complete \<or> hp_state http_parser_init = St_error \<longrightarrow>
        p' = http_parser_init \<and> r = ec_ok)"
proof -
  obtain r p' where f: "feed ''HTTP'' http_parser_init = Some (r, p')"
    using reachable_feed [OF reach_init] by metis
  show ?thesis using feed_moves_forward [OF reach_init f] f by blast
qed

text \<open>A response framed by neither chunks nor a length is never complete: every further read
  appends its bytes to the body and leaves the parser waiting for the end of the stream.\<close>

theorem until_eof_never_completes:
  assumes "parser_reachable p" and "hp_state p = St_body_until_eof"
  shows "\<exists>p'. feed data p = Some (ec_ok, p') \<and> hp_state p' = St_body_until_eof
    \<and> bb_contents (rs_body (hp_response p')) = bb_contents (rs_body (hp_response p)) @ data"
proof -
  obtain r p' where f: "feed data p = Some (r, p')" "spec_feed data (hp_abs p) = (r, hp_abs p')"
    using reachable_feed [OF assms(1), of data] by blast
  have b: "hp_buffer p = []"
    using parser_reachable_inv [OF assms(1)] assms(2) by (simp add: spec_waiting_def)
  define q where "q = (hp_abs p)\<lparr>hp_buffer := data\<rparr>"
  have q: "hp_state q = St_body_until_eof" using assms(2) by (simp add: q_def)
  have "spec_feed data (hp_abs p) = spec_loop q"
    using assms(2) b by (simp add: spec_feed_loop q_def at_rest_def)
  then have "(r, hp_abs p') = (ec_ok, if data = [] then q else (add_body data q)\<lparr>hp_buffer := []\<rparr>)"
    using f(2) spec_loop_until_eof [OF q] by (simp add: q_def)
  then have r: "r = ec_ok" and p': "hp_abs p' = (if data = [] then q else (add_body data q)\<lparr>hp_buffer := []\<rparr>)"
    by simp_all
  have "hp_state p' = St_body_until_eof"
    using arg_cong [OF p', of hp_state] q by (simp split: if_splits)
  moreover have "bb_contents (rs_body (hp_response p')) = bb_contents (rs_body (hp_response p)) @ data"
    using arg_cong [OF p', of "\<lambda>p. rs_body (hp_response p)"] by (simp add: q_def split: if_splits)
  ultimately show ?thesis using f(1) r by blast
qed

theorem until_eof_never_completes_witness:
  "\<exists>p p'. hp_state p = St_body_until_eof \<and> feed ''data'' p = Some (ec_ok, p') \<and> hp_state p' = St_body_until_eof
    \<and> bb_contents (rs_body (hp_response p')) = bb_contents (rs_body (hp_response p)) @ ''data''"
proof -
  let ?d = "response_head 200 ''OK'' [] @ []"
  have "spec_feed ?d spec_init = spec_loop (end_of_headers (after_head 200 ''OK'' [] [] spec_init))"
    by (rule spec_feed_head) simp_all
  also have "end_of_headers (after_head 200 ''OK'' [] [] spec_init) =
      (after_head 200 ''OK'' [] [] spec_init)\<lparr>hp_state := St_body_until_eof\<rparr>"
    by (simp add: end_of_headers_def after_head_def resp_is_chunked_def resp_content_length_def
        hdr_is_chunked_def hdr_content_length_def)
  also have "spec_loop \<dots> = (ec_ok, \<dots>)"
    by (simp add: spec_loop_until_eof) (simp add: after_head_def)
  finally obtain q where q: "spec_feed ?d (hp_abs http_parser_init) = (ec_ok, q)" "hp_state q = St_body_until_eof"
    by simp
  obtain p where p: "feed ?d http_parser_init = Some (ec_ok, p)" "hp_abs p = q"
    using feed_eval [OF hp_live_init q(1)] by blast
  have "parser_reachable p" using reach_step [OF reach_init step_feed [OF p(1)]] .
  moreover have "hp_state p = St_body_until_eof" using p(2) q(2) by auto
  ultimately show ?thesis using until_eof_never_completes by blast
qed



text \<open>After \<open>release_response\<close> the body has no storage left, and \<open>reset\<close> gives it none: a
  response read until the end of the stream sends the parser into a loop that never ends.\<close>

theorem release_then_reset_hangs:
  assumes "100 \<le> code" "code \<le> 599" "CHR 0x0D \<notin> set reason" "list_all field_ok hs"
    and "\<not> hdr_is_chunked hs" "hdr_content_length hs = None" "body \<noteq> []"
  shows "feed (response_head code reason hs @ body) (hp_reset (snd (release_response p))) = None"
proof -
  let ?p0 = "hp_reset (snd (release_response p))"
  let ?q = "(after_head code reason hs body ?p0)\<lparr>hp_state := St_body_until_eof\<rparr>"
  have fresh: "fresh ?p0" by (simp add: fresh_def hp_reset_def hdr_clear_def)
  have "end_of_headers (after_head code reason hs body ?p0) = ?q"
    using assms(5,6) by (simp add: end_of_headers_def after_head_def resp_is_chunked_def resp_content_length_def)
  then have e: "feed (response_head code reason hs @ body) ?p0 = feed_loop bb_write ?q"
    using feed_with_head [OF assms(1-4) fresh, of bb_write body] by (simp add: feed_def)
  have "bb_write body (rs_body (hp_response ?q)) = None"
    using assms(7) by (intro bb_write_dead)
      (simp_all add: after_head_def release_response_def hp_reset_def bb_move_def)
  then have "process_body bb_write ?q = None"
    using assms(7) by (simp add: process_body_def write_body_def) (simp add: after_head_def)
  then show ?thesis unfolding e by (subst feed_loop_body) (simp_all add: in_body_def)
qed

theorem release_then_reset_hangs_witness:
  "feed (response_head 200 ''OK'' [] @ ''hi'') (hp_reset (snd (release_response http_parser_init))) = None"
  by (rule release_then_reset_hangs) (simp_all add: hdr_is_chunked_def hdr_content_length_def)

end
