(* ===== verification/Data_Claims.thy ===== *)
theory Data_Claims
  imports Http_Request Http_Response
begin

text \<open>
  The properties of the data types: the byte buffer, the header collection, the methods, the error
  codes and the wire form of a request.
\<close>

text \<open>C25: The byte buffer is a queue of bytes. In any run of writes and reads on a live buffer every
  write returns, and what the reads took followed by what is left is what was there followed by what
  was written.\<close>

theorem byte_buffer_fifo:
  assumes "bb_live b"
  shows "\<exists>out b'. run_ops bb_write bb_read ops b = Some (out, b') \<and> bb_live b'
    \<and> out @ bb_contents b' = bb_contents b @ puts ops"
  by (rule bq.fifo) (rule assms)

theorem byte_buffer_fifo_witness:
  "\<exists>out b'. run_ops bb_write bb_read [Put ''abc'', Take 2, Put ''d''] (bb_new 1) = Some (out, b') \<and> bb_live b'
    \<and> out @ bb_contents b' = bb_contents (bb_new 1) @ puts [Put ''abc'', Take 2, Put ''d'']"
  by (rule byte_buffer_fifo) (simp add: bb_live_new)

text \<open>A write to a well-formed buffer returns exactly when the buffer has some capacity or fits
  nothing more than it has room for: a buffer of capacity 0, as left behind by a move, never returns
  from the write of a byte.\<close>

theorem byte_buffer_write_returns_iff:
  assumes "bb_wf b"
  shows "(\<exists>b'. bb_write bs b = Some b') \<longleftrightarrow> 0 < bb_capacity b \<or> bs = []"
proof (cases "0 < bb_capacity b")
  case True
  then have "bb_live b" using assms by (simp add: bb_live_def)
  then show ?thesis using bb_write_view [of b bs] True by blast
next
  case False
  then have "bb_write [] b = Some (b\<lparr>bb_data := bb_data b\<rparr>)"
    by (simp add: bb_write_def bb_ensure_capacity_def)
  then show ?thesis using bb_write_dead [OF False assms, of bs] False by (cases "bs = []") auto
qed

theorem byte_buffer_write_returns_iff_witness:
  "(\<exists>b'. bb_write ''a'' bb_moved_from = Some b') \<longleftrightarrow> 0 < bb_capacity bb_moved_from \<or> ''a'' = []"
  by (rule byte_buffer_write_returns_iff) simp

text \<open>Searching a pattern from an offset gives the first place at or after it where the readable
  bytes show the pattern, and \<open>npos\<close> when there is none.\<close>

theorem byte_buffer_find_first:
  assumes "bb_wf b" and "pattern \<noteq> []"
  shows "(\<exists>i \<ge> offset. occurs_at pattern b i) \<and> offset \<le> bb_find pattern offset b
           \<and> occurs_at pattern b (bb_find pattern offset b)
           \<and> (\<forall>j. offset \<le> j \<and> j < bb_find pattern offset b \<longrightarrow> \<not> occurs_at pattern b j)
       \<or> (\<nexists>i. offset \<le> i \<and> occurs_at pattern b i) \<and> bb_find pattern offset b = npos"
  using bb_find_view [OF assms] .

theorem byte_buffer_find_first_witness:
  "(\<exists>i \<ge> 1. occurs_at ''ab'' (bb_from_data ''abxab'') i) \<and> 1 \<le> bb_find ''ab'' 1 (bb_from_data ''abxab'')
      \<and> occurs_at ''ab'' (bb_from_data ''abxab'') (bb_find ''ab'' 1 (bb_from_data ''abxab''))
      \<and> (\<forall>j. 1 \<le> j \<and> j < bb_find ''ab'' 1 (bb_from_data ''abxab'') \<longrightarrow> \<not> occurs_at ''ab'' (bb_from_data ''abxab'') j)
    \<or> (\<nexists>i. 1 \<le> i \<and> occurs_at ''ab'' (bb_from_data ''abxab'') i) \<and> bb_find ''ab'' 1 (bb_from_data ''abxab'') = npos"
  by (rule byte_buffer_find_first) simp_all

text \<open>Header lookup ignores case and follows the updates: after \<open>set\<close> the name has the new value,
  after \<open>remove\<close> it has none, after \<open>add\<close> an existing value stays the one found; every other name
  keeps its value.\<close>

theorem header_lookup_after_update:
  "hdr_get n (hdr_set m v hs) = (if iequal n m then Some v else hdr_get n hs)
   \<and> hdr_get n (hdr_remove m hs) = (if iequal n m then None else hdr_get n hs)
   \<and> hdr_get n (hdr_add m v hs) =
       (if hdr_contains n hs then hdr_get n hs else if iequal m n then Some v else None)
   \<and> (hdr_contains n hs \<longleftrightarrow> hdr_get n hs \<noteq> None)"
  by (auto simp: hdr_get_set hdr_get_remove hdr_get_add hdr_contains_get split: option.split)

text \<open>The token scan behind \<open>is_chunked\<close> and \<open>connection_keep_alive\<close> finds exactly the tokens of
  the comma or blank separated value: \<open>chunked\<close> must be a token of the first \<open>Transfer-Encoding\<close>
  field, and a connection is kept alive unless \<open>close\<close> is a token of the first \<open>Connection\<close> field.\<close>

theorem token_queries_exact:
  "(hdr_is_chunked hs \<longleftrightarrow>
      (\<exists>v tok. hdr_get ''Transfer-Encoding'' hs = Some v \<and> token_in tok v \<and> iequal tok ''chunked''))
   \<and> (hdr_connection_keep_alive hs \<longleftrightarrow>
      \<not> (\<exists>v tok. hdr_get ''Connection'' hs = Some v \<and> token_in tok v \<and> iequal tok ''close''))"
  by (auto simp: hdr_is_chunked_def hdr_connection_keep_alive_def has_token_iff split: option.split)

text \<open>\<open>serialize\<close> writes exactly the request line, one line per header field in order, an empty
  line and the body; a target with a line end in it gives an empty buffer instead.\<close>

theorem serialize_exact:
  assumes "bb_wf (rq_body r)"
  shows "\<exists>b. serialize r = Some b \<and> bb_wf b \<and>
    bb_contents b =
      (if CHR 0x0D \<in> set (rq_uri r) \<or> CHR 0x0A \<in> set (rq_uri r) then []
       else method_to_string (rq_method r) @ '' '' @ rq_uri r @ '' HTTP/1.1'' @ crlf
            @ concat (map (\<lambda>f. hf_name f @ '': '' @ hf_value f @ crlf) (rq_headers r))
            @ crlf @ bb_contents (rq_body r))"
  using serialize_view [OF assms]
  by (auto simp: uri_single_line_def request_text_def request_line_def header_line_def cong: map_cong)

theorem serialize_exact_witness:
  "\<exists>b. serialize (http_request_default\<lparr>rq_uri := ''/x''\<rparr>) = Some b \<and> bb_wf b \<and>
    bb_contents b = ''GET /x HTTP/1.1'' @ crlf @ crlf"
proof -
  have "bb_wf (rq_body (http_request_default\<lparr>rq_uri := ''/x''\<rparr>))"
    by (simp add: http_request_default_def)
  from serialize_exact [OF this] show ?thesis by (simp add: http_request_default_def)
qed

text \<open>Method tokens round trip through the parser in any case, and the parser accepts nothing
  else.\<close>

theorem method_token_roundtrip:
  "(parse_http_method token = Inr m \<longleftrightarrow> map toupper token = method_to_string m)
   \<and> parse_http_method (map tolower (method_to_string m)) = Inr m
   \<and> (parse_http_method token = Inl e \<longrightarrow> e = http_invalid_method)"
proof -
  have "list_all (\<lambda>m. map toupper (map tolower (method_to_string m)) = method_to_string m)
      [Method_get, Method_post, Method_put, Method_patch, Method_del, Method_head, Method_options,
       Method_trace, Method_connect]"
    by code_simp
  then have "map toupper (map tolower (method_to_string m)) = method_to_string m"
    by (cases m) simp_all
  then have "parse_http_method (map tolower (method_to_string m)) = Inr m"
    by (simp add: parse_http_method_iff)
  then show ?thesis using parse_http_method_error [of token e] by (auto simp: parse_http_method_iff)
qed

theorem method_token_roundtrip_witness:
  "parse_http_method ''pATCH'' = Inr Method_patch \<and> parse_http_method ''delete'' = Inr Method_del
   \<and> parse_http_method ''purge'' = Inl http_invalid_method"
proof -
  have "map toupper ''pATCH'' = method_to_string Method_patch" "''delete'' = map tolower (method_to_string Method_del)"
    by code_simp+
  moreover have "parse_http_method ''purge'' \<noteq> Inr m" for m
  proof -
    have "list_all (\<lambda>m. map toupper ''purge'' \<noteq> method_to_string m)
        [Method_get, Method_post, Method_put, Method_patch, Method_del, Method_head, Method_options,
         Method_trace, Method_connect]"
      by code_simp
    then have "map toupper ''purge'' \<noteq> method_to_string m" by (cases m) simp_all
    then show ?thesis using method_token_roundtrip [of "''purge''" m] by simp
  qed
  ultimately show ?thesis
    using method_token_roundtrip [of "''pATCH''" Method_patch] method_token_roundtrip [of _ Method_del]
      method_token_roundtrip [of "''purge''"]
    by (cases "parse_http_method ''purge''") auto
qed

text \<open>The header comparator is a strict weak order whose ties are exactly the names that differ
  in case only.\<close>

theorem header_order_strict_weak:
  "\<not> header_name_less a a
   \<and> (header_name_less a b \<and> header_name_less b c \<longrightarrow> header_name_less a c)
   \<and> (\<not> header_name_less a b \<and> \<not> header_name_less b a \<longleftrightarrow> iequal a b)"
  using header_name_less_trans header_name_less_incomparable by auto

theorem header_order_strict_weak_witness:
  "header_name_less ''Accept'' ''Via'' \<and> \<not> header_name_less ''HOST'' ''host'' \<and> \<not> header_name_less ''host'' ''HOST''"
proof -
  have "header_name_less ''Accept'' ''host'' \<and> header_name_less ''host'' ''Via''" "iequal ''HOST'' ''host''"
    by code_simp+
  then show ?thesis
    using header_order_strict_weak [of "''Accept''" "''host''" "''Via''"]
      header_order_strict_weak [of "''HOST''" "''host''"]
    by blast
qed

end
