(* ===== verification/Cookie_Jar.thy ===== *)
theory Cookie_Jar
  imports Cpp_Std
begin

text \<open>
  \<open>cookie_jar\<close> of \<open>include/vynx_http/http_client.h\<close> and \<open>src/http_client.cpp\<close>: cookies in the order they
  were first set, the parser of \<open>Set-Cookie\<close> values and the \<open>Cookie\<close> header. Times are ticks of the
  system clock, the epoch being 0.
\<close>

record cookie_entry =
  ck_name :: string
  ck_value :: string
  ck_domain :: string
  ck_path :: string
  ck_secure :: bool
  ck_expires :: int
  ck_has_expiry :: bool

type_synonym cookie_jar = "cookie_entry list"

definition cookie_default :: cookie_entry where
  "cookie_default =
     \<lparr>ck_name = [], ck_value = [], ck_domain = [], ck_path = [], ck_secure = False, ck_expires = 0,
      ck_has_expiry = False\<rparr>"

fun set_cookie :: "cookie_entry \<Rightarrow> cookie_jar \<Rightarrow> cookie_jar" where
  "set_cookie c [] = [c]"
| "set_cookie c (e # es) =
     (if ck_name e = ck_name c \<and> ck_domain e = ck_domain c \<and> ck_path e = ck_path c then c # es
      else e # set_cookie c es)"

subsection \<open>Set-Cookie\<close>

abbreviation is_space :: "char \<Rightarrow> bool" where
  "is_space c \<equiv> c = CHR '' ''"

text \<open>The directives of a header value: cut at every semicolon, blanks trimmed.\<close>

function cookie_tokens :: "string \<Rightarrow> string list" where
  "cookie_tokens remaining =
     (if remaining = [] then []
      else case find_char (CHR '';'') remaining of
             None \<Rightarrow> [rtrim is_space (ltrim is_space remaining)]
           | Some semi \<Rightarrow>
               rtrim is_space (ltrim is_space (take semi remaining))
               # cookie_tokens (ltrim is_space (drop (semi + 1) remaining)))"
  by pat_completeness auto
termination
proof (relation "measure length", simp)
  fix remaining :: string and semi
  assume "find_char (CHR '';'') remaining = Some semi"
  then have "semi < length remaining" by (rule find_char_less)
  moreover have "length (ltrim is_space (drop (semi + 1) remaining)) \<le> length (drop (semi + 1) remaining)"
    unfolding ltrim_def by (rule length_dropWhile_le)
  ultimately show "(ltrim is_space (drop (semi + 1) remaining), remaining) \<in> measure length"
    by simp
qed

declare cookie_tokens.simps [simp del]

definition split_eq :: "string \<Rightarrow> string \<times> string" where
  "split_eq token =
     (case find_char (CHR ''='') token of
        Some eq \<Rightarrow> (take eq token, drop (eq + 1) token)
      | None \<Rightarrow> (token, []))"

definition cookie_pair :: "string \<Rightarrow> cookie_entry \<Rightarrow> cookie_entry" where
  "cookie_pair token e = (case split_eq token of (n, v) \<Rightarrow> e\<lparr>ck_name := n, ck_value := v\<rparr>)"

definition cookie_directive :: "string \<Rightarrow> cookie_entry \<Rightarrow> cookie_entry" where
  "cookie_directive token e =
     (case split_eq token of (key, val) \<Rightarrow>
        if iequal key ''domain''
        then e\<lparr>ck_domain := (if val \<noteq> [] \<and> hd val = CHR ''.'' then tl val else val)\<rparr>
        else if iequal key ''path'' then e\<lparr>ck_path := val\<rparr>
        else if iequal key ''secure'' then e\<lparr>ck_secure := True\<rparr>
        else if iequal key ''expires'' then e\<lparr>ck_has_expiry := True, ck_expires := 0\<rparr>
        else e)"

definition parse_set_cookie :: "string \<Rightarrow> string \<Rightarrow> cookie_entry" where
  "parse_set_cookie header_line request_domain =
     (let e = (case cookie_tokens header_line of
                 [] \<Rightarrow> cookie_default
               | t # ts \<Rightarrow> fold cookie_directive ts (cookie_pair t cookie_default));
          e = (if ck_domain e = [] then e\<lparr>ck_domain := request_domain\<rparr> else e)
      in if ck_path e = [] then e\<lparr>ck_path := ''/''\<rparr> else e)"

definition set_cookie_line :: "string \<Rightarrow> string \<Rightarrow> cookie_jar \<Rightarrow> cookie_jar" where
  "set_cookie_line header_line request_domain jar =
     set_cookie (parse_set_cookie header_line request_domain) jar"

subsection \<open>Cookie\<close>

definition domain_match :: "string \<Rightarrow> string \<Rightarrow> bool" where
  "domain_match cdom host \<longleftrightarrow>
     (if cdom = [] then True
      else if cdom = host then True
      else if length host > length cdom
      then drop (length host - length cdom) host = cdom \<and> host ! (length host - length cdom - 1) = CHR ''.''
      else False)"

definition path_match :: "string \<Rightarrow> string \<Rightarrow> bool" where
  "path_match cpath path \<longleftrightarrow>
     (if cpath = [] then True
      else if length path < length cpath then False
      else if take (length cpath) path \<noteq> cpath then False
      else \<not> (length path > length cpath \<and> last cpath \<noteq> CHR ''/'' \<and> path ! length cpath \<noteq> CHR ''/''))"

text \<open>The loop over the jar; \<open>first\<close> tells whether a separator is due.\<close>

fun cookie_header_loop :: "string \<Rightarrow> string \<Rightarrow> cookie_jar \<Rightarrow> bool \<Rightarrow> string \<Rightarrow> string" where
  "cookie_header_loop host path [] first header = header"
| "cookie_header_loop host path (c # cs) first header =
     (if \<not> domain_match (ck_domain c) host then cookie_header_loop host path cs first header
      else if \<not> path_match (ck_path c) path then cookie_header_loop host path cs first header
      else cookie_header_loop host path cs False
             ((if first then header else header @ ''; '') @ ck_name c @ ''='' @ ck_value c))"

definition build_cookie_header :: "string \<Rightarrow> string \<Rightarrow> cookie_jar \<Rightarrow> string" where
  "build_cookie_header host path jar = cookie_header_loop host path jar True []"

definition jar_clear :: "cookie_jar \<Rightarrow> cookie_jar" where
  "jar_clear jar = []"

definition jar_size :: "cookie_jar \<Rightarrow> nat" where
  "jar_size jar = length jar"

subsection \<open>One cookie per name, domain and path\<close>

definition cookie_key :: "cookie_entry \<Rightarrow> string \<times> string \<times> string" where
  "cookie_key c = (ck_name c, ck_domain c, ck_path c)"

definition jar_ok :: "cookie_jar \<Rightarrow> bool" where
  "jar_ok jar \<longleftrightarrow> distinct (map cookie_key jar)"

definition jar_lookup :: "string \<times> string \<times> string \<Rightarrow> cookie_jar \<Rightarrow> cookie_entry option" where
  "jar_lookup k jar = List.find (\<lambda>c. cookie_key c = k) jar"

lemma set_cookie_Cons_key:
  "set_cookie c (e # es) = (if cookie_key e = cookie_key c then c # es else e # set_cookie c es)"
  by (simp add: cookie_key_def)

lemma set_cookie_keys:
  "map cookie_key (set_cookie c jar) =
     map cookie_key jar @ (if cookie_key c \<in> cookie_key ` set jar then [] else [cookie_key c])"
  by (induction jar) (auto simp: set_cookie_Cons_key simp del: set_cookie.simps(2))

lemma set_cookie_ok: "jar_ok jar \<Longrightarrow> jar_ok (set_cookie c jar)"
  by (simp add: jar_ok_def set_cookie_keys)

lemma jar_lookup_set:
  "jar_lookup k (set_cookie c jar) = (if k = cookie_key c then Some c else jar_lookup k jar)"
  by (induction jar) (auto simp: jar_lookup_def set_cookie_Cons_key simp del: set_cookie.simps(2))

lemma set_cookie_line_ok: "jar_ok jar \<Longrightarrow> jar_ok (set_cookie_line l d jar)"
  by (simp add: set_cookie_line_def set_cookie_ok)

subsection \<open>What is sent\<close>

lemma domain_match_iff:
  "domain_match cdom host \<longleftrightarrow> cdom = [] \<or> cdom = host \<or> (\<exists>sub. host = sub @ ''.'' @ cdom)"
proof -
  have "(length host > length cdom \<and> drop (length host - length cdom) host = cdom
      \<and> host ! (length host - length cdom - 1) = CHR ''.'') \<longleftrightarrow> (\<exists>sub. host = sub @ ''.'' @ cdom)"
    (is "?l \<longleftrightarrow> ?r")
  proof
    assume l: ?l
    define k where "k = length host - length cdom - 1"
    have k: "k < length host" "Suc k = length host - length cdom" using l unfolding k_def by linarith+
    have "host = take k host @ host ! k # drop (Suc k) host" by (rule id_take_nth_drop [OF k(1)])
    then show ?r using l k(2) by (metis append_Cons append_Nil k_def)
  next
    assume ?r
    then show ?l by (auto simp: nth_append)
  qed
  then show ?thesis by (auto simp: domain_match_def)
qed

lemma path_match_iff:
  "path_match cpath path \<longleftrightarrow>
     cpath = [] \<or> (\<exists>rest. path = cpath @ rest \<and> (rest = [] \<or> last cpath = CHR ''/'' \<or> hd rest = CHR ''/''))"
proof -
  have "(\<exists>rest. path = cpath @ rest \<and> (rest = [] \<or> last cpath = CHR ''/'' \<or> hd rest = CHR ''/'')) \<longleftrightarrow>
      \<not> length path < length cpath \<and> take (length cpath) path = cpath
      \<and> \<not> (length path > length cpath \<and> last cpath \<noteq> CHR ''/'' \<and> path ! length cpath \<noteq> CHR ''/'')"
    (is "?l \<longleftrightarrow> ?r")
  proof
    assume ?l
    then show ?r by (auto simp: hd_conv_nth nth_append)
  next
    assume r: ?r
    then have "path = cpath @ drop (length cpath) path" by (metis append_take_drop_id)
    moreover have "drop (length cpath) path = [] \<or> hd (drop (length cpath) path) = path ! length cpath"
      using r by (metis drop_eq_Nil hd_drop_conv_nth linorder_not_le)
    ultimately show ?l using r by (metis drop_eq_Nil linorder_not_le)
  qed
  moreover have "path_match cpath path \<longleftrightarrow> cpath = [] \<or> (\<not> length path < length cpath \<and> take (length cpath) path = cpath
      \<and> \<not> (length path > length cpath \<and> last cpath \<noteq> CHR ''/'' \<and> path ! length cpath \<noteq> CHR ''/''))"
    unfolding path_match_def by (simp split: if_split) linarith
  ultimately show ?thesis by blast
qed

definition cookie_applies :: "string \<Rightarrow> string \<Rightarrow> cookie_entry \<Rightarrow> bool" where
  "cookie_applies host path c \<longleftrightarrow> domain_match (ck_domain c) host \<and> path_match (ck_path c) path"

definition cookie_text :: "cookie_entry \<Rightarrow> string" where
  "cookie_text c = ck_name c @ ''='' @ ck_value c"

fun join :: "string \<Rightarrow> string list \<Rightarrow> string" where
  "join sep [] = []"
| "join sep [x] = x"
| "join sep (x # xs) = x @ sep @ join sep xs"

lemma join_append1: "join sep (xs @ [x]) = (if xs = [] then x else join sep xs @ sep @ x)"
  by (induction sep xs rule: join.induct) auto

lemma cookie_header_loop_join:
  "cookie_header_loop host path jar (acc = []) (join ''; '' acc) =
     join ''; '' (acc @ map cookie_text (filter (cookie_applies host path) jar))"
proof (induction jar arbitrary: acc)
  case (Cons c cs)
  show ?case
  proof (cases "cookie_applies host path c")
    case True
    have "(if acc = [] then join ''; '' acc else join ''; '' acc @ ''; '') @ ck_name c @ ''='' @ ck_value c =
        join ''; '' (acc @ [cookie_text c])"
      by (simp add: join_append1 cookie_text_def)
    then have "cookie_header_loop host path (c # cs) (acc = []) (join ''; '' acc) =
        cookie_header_loop host path cs (acc @ [cookie_text c] = []) (join ''; '' (acc @ [cookie_text c]))"
      using True by (simp add: cookie_applies_def)
    then show ?thesis using Cons.IH [of "acc @ [cookie_text c]"] True by simp
  next
    case False
    then show ?thesis using Cons.IH by (auto simp: cookie_applies_def)
  qed
qed simp

lemma build_cookie_header_join:
  "build_cookie_header host path jar = join ''; '' (map cookie_text (filter (cookie_applies host path) jar))"
  using cookie_header_loop_join [of host path jar "[]"] by (simp add: build_cookie_header_def)

subsection \<open>Rendered cookies\<close>

text \<open>A directive that reads back as it was written.\<close>

definition token_ok :: "string \<Rightarrow> bool" where
  "token_ok t \<longleftrightarrow> t \<noteq> [] \<and> CHR '';'' \<notin> set t \<and> trimmed is_space t"

lemma cookie_tokens_last: "token_ok t \<Longrightarrow> cookie_tokens t = [t]"
  using find_char_None [of "CHR '';''" t]
  by (simp add: cookie_tokens.simps [of t] token_ok_def ltrim_trimmed rtrim_trimmed)

lemma cookie_tokens_more:
  assumes "token_ok t" and "rest \<noteq> []" "\<not> is_space (hd rest)"
  shows "cookie_tokens (t @ ''; '' @ rest) = t # cookie_tokens rest"
proof -
  have f: "find_char (CHR '';'') (t @ CHR '';'' # CHR '' '' # rest) = Some (length t)"
    using assms(1) by (intro find_char_append) (simp add: token_ok_def)
  have "ltrim is_space (CHR '' '' # rest) = rest"
    using assms(2,3) by (cases rest) (simp_all add: ltrim_def)
  then show ?thesis
    using assms(1) by (simp add: cookie_tokens.simps [of "t @ _"] f token_ok_def ltrim_trimmed rtrim_trimmed)
qed

lemma join_Cons: "ts \<noteq> [] \<Longrightarrow> join sep (t # ts) = t @ sep @ join sep ts"
  by (cases ts) simp_all

lemma cookie_tokens_join: "ts \<noteq> [] \<Longrightarrow> list_all token_ok ts \<Longrightarrow> cookie_tokens (join ''; '' ts) = ts"
proof (induction ts)
  case (Cons t ts)
  show ?case
  proof (cases ts)
    case Nil
    then show ?thesis using Cons.prems by (simp add: cookie_tokens_last)
  next
    case (Cons t2 ts2)
    then have t2: "token_ok t2" using \<open>list_all token_ok (t # ts)\<close> by simp
    have j: "join ''; '' ts \<noteq> []" "hd (join ''; '' ts) = hd t2"
      using t2 Cons by (cases ts2; simp add: token_ok_def)+
    have "\<not> is_space (hd t2)" using t2 by (auto simp: token_ok_def trimmed_def)
    then have "cookie_tokens (t @ ''; '' @ join ''; '' ts) = t # cookie_tokens (join ''; '' ts)"
      using \<open>list_all token_ok (t # ts)\<close> j by (intro cookie_tokens_more) simp_all
    then show ?thesis using Cons.IH \<open>list_all token_ok (t # ts)\<close> Cons by (simp add: join_Cons)
  qed
qed simp

text \<open>The \<open>Set-Cookie\<close> value of a cookie, with some date if it has one.\<close>

definition set_cookie_parts :: "string \<Rightarrow> cookie_entry \<Rightarrow> string list" where
  "set_cookie_parts date c =
     (ck_name c @ ''='' @ ck_value c)
     # (if ck_domain c = [] then [] else [''Domain='' @ ck_domain c])
     @ (if ck_path c = [] then [] else [''Path='' @ ck_path c])
     @ (if ck_secure c then [''Secure''] else [])
     @ (if ck_has_expiry c then [''Expires='' @ date] else [])"

definition cookie_ok :: "cookie_entry \<Rightarrow> bool" where
  "cookie_ok c \<longleftrightarrow> CHR ''='' \<notin> set (ck_name c) \<and> (ck_domain c \<noteq> [] \<longrightarrow> hd (ck_domain c) \<noteq> CHR ''.'')"

lemma split_eq_pair: "CHR ''='' \<notin> set n \<Longrightarrow> split_eq (n @ CHR ''='' # v) = (n, v)"
  by (simp add: split_eq_def)

lemma cookie_directive_known:
  "cookie_directive (''Domain='' @ d) e = e\<lparr>ck_domain := (if d \<noteq> [] \<and> hd d = CHR ''.'' then tl d else d)\<rparr>"
  "cookie_directive (''Path='' @ p) e = e\<lparr>ck_path := p\<rparr>"
  "cookie_directive ''Secure'' e = e\<lparr>ck_secure := True\<rparr>"
  "cookie_directive (''Expires='' @ x) e = e\<lparr>ck_has_expiry := True, ck_expires := 0\<rparr>"
proof -
  have s: "split_eq (''Domain='' @ d) = (''Domain'', d)" "split_eq (''Path='' @ p) = (''Path'', p)"
      "split_eq (''Expires='' @ x) = (''Expires'', x)" "split_eq ''Secure'' = (''Secure'', [])"
    using split_eq_pair [of "''Domain''" d] split_eq_pair [of "''Path''" p] split_eq_pair [of "''Expires''" x]
    by (simp_all add: split_eq_def)
  have i: "iequal ''Domain'' ''domain''" "\<not> iequal ''Path'' ''domain''" "iequal ''Path'' ''path''"
      "\<not> iequal ''Secure'' ''domain''" "\<not> iequal ''Secure'' ''path''" "iequal ''Secure'' ''secure''"
      "\<not> iequal ''Expires'' ''domain''" "\<not> iequal ''Expires'' ''path''" "\<not> iequal ''Expires'' ''secure''"
      "iequal ''Expires'' ''expires''"
    by code_simp+
  show "cookie_directive (''Domain='' @ d) e = e\<lparr>ck_domain := (if d \<noteq> [] \<and> hd d = CHR ''.'' then tl d else d)\<rparr>"
    "cookie_directive (''Path='' @ p) e = e\<lparr>ck_path := p\<rparr>" "cookie_directive ''Secure'' e = e\<lparr>ck_secure := True\<rparr>"
    "cookie_directive (''Expires='' @ x) e = e\<lparr>ck_has_expiry := True, ck_expires := 0\<rparr>"
    unfolding cookie_directive_def s by (simp_all add: i)
qed

lemma parse_set_cookie_parts:
  assumes "list_all token_ok (set_cookie_parts date c)" and ok: "cookie_ok c"
  shows "parse_set_cookie (join ''; '' (set_cookie_parts date c)) host =
    c\<lparr>ck_domain := if ck_domain c = [] then host else ck_domain c,
      ck_path := if ck_path c = [] then ''/'' else ck_path c, ck_expires := 0\<rparr>"
proof -
  have t: "cookie_tokens (join ''; '' (set_cookie_parts date c)) = set_cookie_parts date c"
    using assms(1) by (intro cookie_tokens_join) (simp_all add: set_cookie_parts_def)
  have p: "cookie_pair (ck_name c @ ''='' @ ck_value c) cookie_default =
      cookie_default\<lparr>ck_name := ck_name c, ck_value := ck_value c\<rparr>"
    using ok split_eq_pair [of "ck_name c" "ck_value c"] by (simp add: cookie_pair_def cookie_ok_def)
  have d: "ck_domain c \<noteq> [] \<Longrightarrow> hd (ck_domain c) \<noteq> CHR ''.''" using ok by (simp add: cookie_ok_def)
  have opt: "fold cookie_directive (if b then [] else [x]) e = (if b then e else cookie_directive x e)"
      "fold cookie_directive (if b then [x] else []) e = (if b then cookie_directive x e else e)" for b x e
    by simp_all
  have "fold cookie_directive (tl (set_cookie_parts date c))
      (cookie_default\<lparr>ck_name := ck_name c, ck_value := ck_value c\<rparr>) = c\<lparr>ck_expires := 0\<rparr>"
    unfolding set_cookie_parts_def list.sel fold_append comp_apply opt cookie_directive_known
    using d by (intro cookie_entry.equality) (simp_all add: cookie_default_def)
  moreover obtain ts where ts: "set_cookie_parts date c = (ck_name c @ ''='' @ ck_value c) # ts"
    by (simp add: set_cookie_parts_def)
  ultimately have "fold cookie_directive ts (cookie_pair (ck_name c @ ''='' @ ck_value c) cookie_default) = c\<lparr>ck_expires := 0\<rparr>"
    by (simp only: p list.sel)
  then show ?thesis
    unfolding parse_set_cookie_def t unfolding ts list.case by (simp add: Let_def)
qed

text \<open>A cookie in the jar is in the header of every request it applies to.\<close>

lemma set_cookie_mem: "c \<in> set (set_cookie c jar)"
  by (induction jar) auto

lemma cookie_sent:
  assumes "c \<in> set jar" and "cookie_applies host path c"
  shows "\<exists>before after. build_cookie_header host path jar = join ''; '' (before @ [cookie_text c] @ after)"
proof -
  have "c \<in> set (filter (cookie_applies host path) jar)" using assms by simp
  then obtain xs ys where "filter (cookie_applies host path) jar = xs @ c # ys" by (meson split_list)
  then have "build_cookie_header host path jar = join ''; '' (map cookie_text xs @ [cookie_text c] @ map cookie_text ys)"
    by (simp add: build_cookie_header_join)
  then show ?thesis by blast
qed

end
