(* ===== verification/Url.thy ===== *)
theory Url
  imports Error_Code Cpp_Std
begin

text \<open>
  \<open>http_client::parse_url\<close> of \<open>src/http_client.cpp\<close>: absolute \<open>http\<close> and \<open>https\<close> URLs into scheme, host,
  port and request target. Each early return of the code is an \<^const>\<open>Inl\<close>.
\<close>

record parsed_url =
  pu_scheme :: string
  pu_host :: string
  pu_port :: "16 word"
  pu_path :: string

definition http_prefix :: string where
  "http_prefix = ''http://''"

definition https_prefix :: string where
  "https_prefix = ''https://''"

text \<open>The text after the colon: \<open>from_chars\<close> reads a \<open>uint16_t\<close> from its front.\<close>

definition parse_port :: "string \<Rightarrow> 16 word result" where
  "parse_port port_str =
     (if port_str = [] then Inl invalid_argument
      else case from_chars 10 uint16_max port_str of
             None \<Rightarrow> Inl invalid_argument
           | Some v \<Rightarrow> if v = 0 then Inl invalid_argument else Inr (of_nat v))"

definition parse_host_port :: "string \<Rightarrow> 16 word \<Rightarrow> (string \<times> 16 word) result" where
  "parse_host_port host_port default_port =
     (if hd host_port = CHR ''[''
      then (case find_char (CHR '']'') host_port of
              None \<Rightarrow> Inl invalid_argument
            | Some close_bracket \<Rightarrow>
                let host = take (close_bracket - 1) (drop 1 host_port)
                in if close_bracket + 1 < length host_port
                   then if host_port ! (close_bracket + 1) \<noteq> CHR '':'' then Inl invalid_argument
                        else (case parse_port (drop (close_bracket + 2) host_port) of
                                Inl e \<Rightarrow> Inl e
                              | Inr p \<Rightarrow> Inr (host, p))
                   else Inr (host, default_port))
      else (case find_char (CHR '':'') host_port of
              None \<Rightarrow> Inr (host_port, default_port)
            | Some colon_pos \<Rightarrow>
                (case parse_port (drop (colon_pos + 1) host_port) of
                   Inl e \<Rightarrow> Inl e
                 | Inr p \<Rightarrow> Inr (take colon_pos host_port, p))))"

definition parse_after_scheme :: "string \<Rightarrow> 16 word \<Rightarrow> string \<Rightarrow> parsed_url result" where
  "parse_after_scheme scheme default_port url =
     (let host_port = (case find_char (CHR ''/'') url of None \<Rightarrow> url | Some k \<Rightarrow> take k url);
          path = (case find_char (CHR ''/'') url of None \<Rightarrow> ''/'' | Some k \<Rightarrow> drop k url)
      in if host_port = [] then Inl invalid_argument
         else case parse_host_port host_port default_port of
                Inl e \<Rightarrow> Inl e
              | Inr (host, port) \<Rightarrow>
                  if host = [] then Inl invalid_argument
                  else Inr \<lparr>pu_scheme = scheme, pu_host = host, pu_port = port, pu_path = path\<rparr>)"

definition parse_url :: "string \<Rightarrow> parsed_url result" where
  "parse_url url =
     (if length url \<ge> length https_prefix \<and> take (length https_prefix) url = https_prefix
      then parse_after_scheme ''https'' 443 (drop (length https_prefix) url)
      else if length url \<ge> length http_prefix \<and> take (length http_prefix) url = http_prefix
      then parse_after_scheme ''http'' 80 (drop (length http_prefix) url)
      else Inl invalid_argument)"

subsection \<open>What a parsed URL is\<close>

definition url_ok :: "parsed_url \<Rightarrow> bool" where
  "url_ok u \<longleftrightarrow> (pu_scheme u = ''http'' \<or> pu_scheme u = ''https'') \<and> pu_host u \<noteq> [] \<and> pu_port u \<noteq> 0
     \<and> pu_path u \<noteq> [] \<and> hd (pu_path u) = CHR ''/''"

lemma parse_port_nonzero: "parse_port s = Inr p \<Longrightarrow> p \<noteq> 0"
proof -
  assume a: "parse_port s = Inr p"
  then obtain v where v: "from_chars 10 uint16_max s = Some v" "v \<noteq> 0" "p = of_nat v"
    by (auto simp: parse_port_def split: if_splits option.splits)
  have "v < 2 ^ 16" using from_chars_le [OF v(1)] by (simp add: uint16_max_def)
  then have "unat p = v" by (simp add: v(3) unat_of_nat)
  then show "p \<noteq> 0" using v(2) by auto
qed

lemma parse_host_port_nonzero:
  "parse_host_port hp d = Inr (h, p) \<Longrightarrow> d \<noteq> 0 \<Longrightarrow> p \<noteq> 0"
  by (auto simp: parse_host_port_def Let_def parse_port_nonzero split: if_splits option.splits sum.splits)

lemma parse_after_scheme_ok:
  assumes "parse_after_scheme scheme d url = Inr u" and "d \<noteq> 0"
  shows "pu_scheme u = scheme \<and> pu_host u \<noteq> [] \<and> pu_port u \<noteq> 0 \<and> pu_path u \<noteq> [] \<and> hd (pu_path u) = CHR ''/''"
proof -
  let ?path = "case find_char (CHR ''/'') url of None \<Rightarrow> ''/'' | Some k \<Rightarrow> drop k url"
  have path: "?path \<noteq> [] \<and> hd ?path = CHR ''/''"
  proof (cases "find_char (CHR ''/'') url")
    case (Some k)
    then have "k < length url" "url ! k = CHR ''/''" using find_char_SomeD [OF Some] by auto
    then show ?thesis using Some by (simp add: hd_drop_conv_nth)
  qed simp
  show ?thesis
    using assms path
    by (auto simp: parse_after_scheme_def Let_def split: if_splits sum.splits prod.splits
        dest: parse_host_port_nonzero)
qed

lemma parse_url_ok: "parse_url url = Inr u \<Longrightarrow> url_ok u"
  using parse_after_scheme_ok [of "''https''" 443 _ u] parse_after_scheme_ok [of "''http''" 80 _ u]
  by (auto simp: parse_url_def url_ok_def split: if_splits)

lemma parse_port_error: "parse_port s = Inl e \<Longrightarrow> e = invalid_argument"
  by (auto simp: parse_port_def split: if_splits option.splits)

lemma parse_host_port_error: "parse_host_port hp d = Inl e \<Longrightarrow> e = invalid_argument"
  by (auto simp: parse_host_port_def Let_def parse_port_error split: if_splits option.splits sum.splits)

lemma parse_after_scheme_error: "parse_after_scheme s d url = Inl e \<Longrightarrow> e = invalid_argument"
  unfolding parse_after_scheme_def Let_def
  by (auto simp: parse_host_port_error split: if_splits sum.splits)

lemma parse_url_error: "parse_url url = Inl e \<Longrightarrow> e = invalid_argument"
  by (auto simp: parse_url_def parse_after_scheme_error split: if_splits)

subsection \<open>Rendering\<close>

text \<open>A registered name or IPv4 address, and the text of an IPv6 address between its brackets.\<close>

definition plain_host :: "string \<Rightarrow> bool" where
  "plain_host h \<longleftrightarrow> h \<noteq> [] \<and> hd h \<noteq> CHR ''['' \<and> CHR ''/'' \<notin> set h \<and> CHR '':'' \<notin> set h"

definition bracket_host :: "string \<Rightarrow> bool" where
  "bracket_host h \<longleftrightarrow> h \<noteq> [] \<and> CHR '']'' \<notin> set h \<and> CHR ''/'' \<notin> set h"

definition path_ok :: "string \<Rightarrow> bool" where
  "path_ok path \<longleftrightarrow> path \<noteq> [] \<and> hd path = CHR ''/''"

definition scheme_prefix :: "bool \<Rightarrow> string" where
  "scheme_prefix tls = (if tls then https_prefix else http_prefix)"

definition scheme_name :: "bool \<Rightarrow> string" where
  "scheme_name tls = (if tls then ''https'' else ''http'')"

definition scheme_port :: "bool \<Rightarrow> 16 word" where
  "scheme_port tls = (if tls then 443 else 80)"

lemma parse_url_scheme:
  "parse_url (scheme_prefix tls @ rest) = parse_after_scheme (scheme_name tls) (scheme_port tls) rest"
  by (simp add: parse_url_def scheme_prefix_def scheme_name_def scheme_port_def http_prefix_def https_prefix_def)

lemma parse_after_scheme_split:
  assumes "CHR ''/'' \<notin> set auth" and "auth \<noteq> []" and "path = [] \<or> path_ok path"
  shows "parse_after_scheme s d (auth @ path) =
    (case parse_host_port auth d of
       Inl e \<Rightarrow> Inl e
     | Inr (host, port) \<Rightarrow>
         if host = [] then Inl invalid_argument
         else Inr \<lparr>pu_scheme = s, pu_host = host, pu_port = port,
                    pu_path = (if path = [] then ''/'' else path)\<rparr>)"
proof (cases path)
  case Nil
  have "find_char (CHR ''/'') auth = None" using assms(1) by (simp add: find_char_None)
  then show ?thesis using assms(2) Nil by (simp add: parse_after_scheme_def Let_def)
next
  case (Cons c cs)
  then have "c = CHR ''/''" using assms(3) by (simp add: path_ok_def)
  then have "find_char (CHR ''/'') (auth @ path) = Some (length auth)" using assms(1) Cons by simp
  then show ?thesis using assms(2) unfolding Cons by (simp add: parse_after_scheme_def Let_def)
qed

lemma to_string_digits: "c \<in> set (to_string n) \<Longrightarrow> (48::nat) \<le> of_char c \<and> (of_char c :: nat) \<le> 57"
  using set_to_base [of c 10 n] by (auto simp: to_string_def digit_char_def of_char_of)

lemma to_string_no_slash: "CHR ''/'' \<notin> set (to_string n)"
  using to_string_digits [of "CHR ''/''" n] by auto

lemma parse_port_to_string:
  "p \<noteq> 0 \<Longrightarrow> parse_port (to_string (unat (p :: 16 word))) = Inr p"
proof -
  assume p: "p \<noteq> 0"
  have "unat p \<le> uint16_max" using unsigned_less [of p, where ?'a = nat] by (simp add: uint16_max_def)
  then show ?thesis
    using p from_chars_to_string [of uint16_max "unat p"] by (simp add: parse_port_def unat_eq_0)
qed

lemma parse_host_port_plain: "plain_host h \<Longrightarrow> parse_host_port h d = Inr (h, d)"
  using find_char_None [of "CHR '':''" h] by (simp add: parse_host_port_def plain_host_def)

lemma parse_host_port_plain_port:
  assumes "plain_host h" and "p \<noteq> 0"
  shows "parse_host_port (h @ '':'' @ to_string (unat p)) d = Inr (h, p)"
proof -
  have "find_char (CHR '':'') (h @ CHR '':'' # to_string (unat p)) = Some (length h)"
    using assms(1) by (simp add: plain_host_def)
  moreover have "hd (h @ '':'' @ to_string (unat p)) \<noteq> CHR ''[''"
    using assms(1) by (simp add: plain_host_def)
  ultimately show ?thesis
    using parse_port_to_string [OF assms(2)] by (simp add: parse_host_port_def)
qed

lemma parse_host_port_bracket_port:
  assumes "bracket_host h" and "p \<noteq> 0"
  shows "parse_host_port (''['' @ h @ '']:'' @ to_string (unat p)) d = Inr (h, p)"
proof -
  have "find_char (CHR '']'') ((''['' @ h) @ CHR '']'' # '':'' @ to_string (unat p)) = Some (length (''['' @ h))"
    using assms(1) by (intro find_char_append) (simp add: bracket_host_def)
  then show ?thesis
    using parse_port_to_string [OF assms(2)] by (simp add: parse_host_port_def Let_def nth_append)
qed

end
