(* ===== verification/Tls_Context.thy ===== *)
theory Tls_Context
  imports Error_Code Cpp_Std
begin

text \<open>
  \<open>include/vynx_http/tls_context.h\<close> and \<open>src/tls_context.cpp\<close>: the wrappers around OpenSSL. The library
  is a record of operations over the outside world \<open>'w\<close>; its objects are handles. Log messages, which
  only write to a stream, are left out.
\<close>

record tls_config =
  tc_ca_bundle_path :: string
  tc_verify_peer :: bool
  tc_verify_hostname :: bool

definition tls_config_default :: tls_config where
  "tls_config_default = \<lparr>tc_ca_bundle_path = [], tc_verify_peer = True, tc_verify_hostname = True\<rparr>"

datatype ssl_error = SSL_ERROR_WANT_READ | SSL_ERROR_WANT_WRITE | SSL_ERROR_SSL | SSL_ERROR_other

record 'w ssl_api =
  ssl_ctx_new :: "'w \<Rightarrow> nat option \<times> 'w"
  ssl_ctx_free :: "nat \<Rightarrow> 'w \<Rightarrow> 'w"
  ssl_ctx_load_verify_locations :: "nat \<Rightarrow> string \<Rightarrow> 'w \<Rightarrow> int \<times> 'w"
  ssl_ctx_set_default_verify_paths :: "nat \<Rightarrow> 'w \<Rightarrow> int \<times> 'w"
  ssl_ctx_get_verify_mode :: "nat \<Rightarrow> 'w \<Rightarrow> int \<times> 'w"
  ssl_ctx_set_verify :: "nat \<Rightarrow> int \<Rightarrow> 'w \<Rightarrow> 'w"
  ssl_new :: "nat \<Rightarrow> 'w \<Rightarrow> nat option \<times> 'w"
  ssl_free :: "nat \<Rightarrow> 'w \<Rightarrow> 'w"
  ssl_set_fd :: "nat \<Rightarrow> int \<Rightarrow> 'w \<Rightarrow> int \<times> 'w"
  ssl_set1_host :: "nat \<Rightarrow> string \<Rightarrow> 'w \<Rightarrow> 'w"
  ssl_set_tlsext_host_name :: "nat \<Rightarrow> string \<Rightarrow> 'w \<Rightarrow> 'w"
  ssl_connect :: "nat \<Rightarrow> 'w \<Rightarrow> int \<times> 'w"
  ssl_get_error :: "nat \<Rightarrow> int \<Rightarrow> 'w \<Rightarrow> ssl_error \<times> 'w"
  ssl_read :: "nat \<Rightarrow> int \<Rightarrow> 'w \<Rightarrow> (int \<times> byte list) \<times> 'w"
  ssl_write :: "nat \<Rightarrow> byte list \<Rightarrow> int \<Rightarrow> 'w \<Rightarrow> int \<times> 'w"
  ssl_shutdown :: "nat \<Rightarrow> 'w \<Rightarrow> int \<times> 'w"

definition ssl_verify_peer :: int where
  "ssl_verify_peer = 1"

text \<open>\<open>static_cast<int>\<close> of a size.\<close>

definition c_int :: "nat \<Rightarrow> int" where
  "c_int n = sint (of_nat n :: 32 word)"

lemma c_int_small: "n < 2 ^ 31 \<Longrightarrow> c_int n = int n"
  by (simp add: c_int_def signed_of_nat signed_take_bit_int_eq_self)

text \<open>A wrapper is the handle it owns.\<close>

type_synonym ssl_ctx_wrapper = nat
type_synonym tls_context = nat

definition ssl_ctx_create :: "'w ssl_api \<Rightarrow> tls_config \<Rightarrow> 'w \<Rightarrow> ssl_ctx_wrapper result \<times> 'w" where
  "ssl_ctx_create ssl cfg w =
     (case ssl_ctx_new ssl w of
        (None, w1) \<Rightarrow> (Inl tls_handshake_failed, w1)
      | (Some ctx, w1) \<Rightarrow>
          (case (if tc_ca_bundle_path cfg \<noteq> []
                 then ssl_ctx_load_verify_locations ssl ctx (tc_ca_bundle_path cfg) w1
                 else ssl_ctx_set_default_verify_paths ssl ctx w1) of
             (rc, w2) \<Rightarrow>
               if rc \<noteq> 1 then (Inl tls_certificate_error, ssl_ctx_free ssl ctx w2)
               else if tc_verify_peer cfg \<or> tc_verify_hostname cfg
               then (case ssl_ctx_get_verify_mode ssl ctx w2 of
                       (mode, w3) \<Rightarrow> (Inr ctx, ssl_ctx_set_verify ssl ctx (or mode ssl_verify_peer) w3))
               else (Inr ctx, w2)))"

definition tls_create :: "'w ssl_api \<Rightarrow> ssl_ctx_wrapper option \<Rightarrow> int \<Rightarrow> string \<Rightarrow> 'w \<Rightarrow> tls_context result \<times> 'w" where
  "tls_create ssl ctx fd hostname w =
     (case ctx of
        None \<Rightarrow> (Inl invalid_argument, w)
      | Some raw \<Rightarrow>
          (case ssl_new ssl raw w of
             (None, w1) \<Rightarrow> (Inl tls_handshake_failed, w1)
           | (Some h, w1) \<Rightarrow>
               (case ssl_set_fd ssl h fd w1 of
                  (rc, w2) \<Rightarrow>
                    if rc \<noteq> 1 then (Inl tls_handshake_failed, ssl_free ssl h w2)
                    else (Inr h,
                          if hostname \<noteq> []
                          then ssl_set_tlsext_host_name ssl h hostname (ssl_set1_host ssl h hostname w2)
                          else w2))))"

text \<open>Destroying a wrapper frees its object, if it still has one.\<close>

definition ssl_ctx_destroy :: "'w ssl_api \<Rightarrow> ssl_ctx_wrapper option \<Rightarrow> 'w \<Rightarrow> 'w" where
  "ssl_ctx_destroy ssl ctx w = (case ctx of None \<Rightarrow> w | Some raw \<Rightarrow> ssl_ctx_free ssl raw w)"

definition tls_destroy :: "'w ssl_api \<Rightarrow> tls_context option \<Rightarrow> 'w \<Rightarrow> 'w" where
  "tls_destroy ssl tls w = (case tls of None \<Rightarrow> w | Some h \<Rightarrow> ssl_free ssl h w)"

definition tls_handshake :: "'w ssl_api \<Rightarrow> tls_context \<Rightarrow> 'w \<Rightarrow> vresult \<times> 'w" where
  "tls_handshake ssl h w =
     (case ssl_connect ssl h w of
        (ret, w1) \<Rightarrow>
          if ret \<noteq> 1
          then (case ssl_get_error ssl h ret w1 of
                  (err, w2) \<Rightarrow>
                    (if err = SSL_ERROR_WANT_READ \<or> err = SSL_ERROR_WANT_WRITE then operation_timeout
                     else if err = SSL_ERROR_SSL then tls_certificate_error
                     else tls_handshake_failed, w2))
          else (make_result_void, w1))"

text \<open>The error of a call that returned a negative count.\<close>

definition tls_io_error :: "'w ssl_api \<Rightarrow> tls_context \<Rightarrow> int \<Rightarrow> 'w \<Rightarrow> error_code \<times> 'w" where
  "tls_io_error ssl h ret w =
     (case ssl_get_error ssl h ret w of
        (err, w1) \<Rightarrow>
          (if err = SSL_ERROR_WANT_READ \<or> err = SSL_ERROR_WANT_WRITE then operation_timeout
           else tls_protocol_error, w1))"

definition tls_read :: "'w ssl_api \<Rightarrow> nat \<Rightarrow> tls_context \<Rightarrow> 'w \<Rightarrow> (nat result \<times> byte list) \<times> 'w" where
  "tls_read ssl room h w =
     (case ssl_read ssl h (c_int room) w of
        ((ret, data), w1) \<Rightarrow>
          if ret > 0 then ((Inr (nat ret), data), w1)
          else if ret = 0 then ((Inl connection_reset, []), w1)
          else (case tls_io_error ssl h ret w1 of (e, w2) \<Rightarrow> ((Inl e, []), w2)))"

definition tls_write :: "'w ssl_api \<Rightarrow> byte list \<Rightarrow> tls_context \<Rightarrow> 'w \<Rightarrow> nat result \<times> 'w" where
  "tls_write ssl data h w =
     (case ssl_write ssl h data (c_int (length data)) w of
        (ret, w1) \<Rightarrow>
          if ret > 0 then (Inr (nat ret), w1)
          else if ret = 0 then (Inl connection_reset, w1)
          else (case tls_io_error ssl h ret w1 of (e, w2) \<Rightarrow> (Inl e, w2)))"

definition tls_shutdown :: "'w ssl_api \<Rightarrow> tls_context \<Rightarrow> 'w \<Rightarrow> vresult \<times> 'w" where
  "tls_shutdown ssl h w =
     (case ssl_shutdown ssl h w of
        (ret, w1) \<Rightarrow>
          if ret < 0 then (case tls_io_error ssl h ret w1 of (e, w2) \<Rightarrow> (e, w2))
          else (make_result_void, w1))"

subsection \<open>Peer verification\<close>

text \<open>
  Whatever the result, a context that is handed out has peer verification switched on exactly when
  one of the two configuration flags asks for it.
\<close>

lemma ssl_ctx_create_verifies:
  assumes "ssl_ctx_create ssl cfg w = (Inr ctx, w')" and "tc_verify_peer cfg \<or> tc_verify_hostname cfg"
  shows "\<exists>mode w0. w' = ssl_ctx_set_verify ssl ctx (or mode ssl_verify_peer) w0"
  using assms by (auto simp: ssl_ctx_create_def split: option.splits prod.splits if_splits)

text \<open>A read or write over TLS never reports success with a count of 0.\<close>

lemma tls_read_positive: "tls_read ssl room h w = ((Inr n, data), w') \<Longrightarrow> 0 < n"
  by (auto simp: tls_read_def split: prod.splits if_splits)

lemma tls_write_positive: "tls_write ssl data h w = (Inr n, w') \<Longrightarrow> 0 < n"
  by (auto simp: tls_write_def split: prod.splits if_splits)

end
