(* ===== verification/Transport.thy ===== *)
theory Transport
  imports Tcp_Socket Tls_Context
begin

text \<open>
  What the client relies on when it writes to a connection: a write reports how many bytes of the
  front of what it was offered have gone out, and nothing else goes out. \<open>tx\<close> is all that has gone
  out so far, an observation of the outside world.
\<close>

text \<open>
  The loop of \<open>send_request\<close>: the second argument holds the bytes not yet sent. A count above what was
  offered, which the contract excludes, would end the loop here.
\<close>

function send_loop :: "(byte list \<Rightarrow> 's \<Rightarrow> 'w \<Rightarrow> nat result \<times> 's \<times> 'w) \<Rightarrow> byte list \<Rightarrow> 's \<Rightarrow> 'w \<Rightarrow>
    vresult \<times> 's \<times> 'w" where
  "send_loop wr rest s w =
     (if rest = [] then (make_result_void, s, w)
      else case wr rest s w of
             (Inl err, s1, w1) \<Rightarrow> (err, s1, w1)
           | (Inr bytes_sent, s1, w1) \<Rightarrow>
               if bytes_sent = 0 then (operation_timeout, s1, w1)
               else send_loop wr (drop bytes_sent rest) s1 w1)"
  by pat_completeness auto
termination
  by (relation "measure (\<lambda>(wr, rest, s, w). length rest)") auto

declare send_loop.simps [simp del]

text \<open>
  A write that fails may have put some of the front on the wire all the same (a TLS session may have sent
  some of the records); on a \<open>clean\<close> connection a write that fails has sent nothing.
\<close>

locale wire =
  fixes wr :: "byte list \<Rightarrow> 's \<Rightarrow> 'w \<Rightarrow> nat result \<times> 's \<times> 'w"
    and tx :: "'w \<Rightarrow> byte list"
  assumes wr_ok: "wr ds s w = (Inr n, s', w') \<Longrightarrow> n \<le> length ds \<and> tx w' = tx w @ take n ds"
    and wr_error: "wr ds s w = (Inl e, s', w') \<Longrightarrow> e \<noteq> ec_ok \<and> (\<exists>k. tx w' = tx w @ take k ds)"
begin

text \<open>What has gone out is always a front of the message, all of it when the loop reports success.\<close>

lemma send_loop_prefix:
  "send_loop wr rest s w = (r, s', w') \<Longrightarrow>
   \<exists>out unsent. rest = out @ unsent \<and> tx w' = tx w @ out \<and> (r = ec_ok \<longrightarrow> unsent = [])"
proof (induction "length rest" arbitrary: rest s w rule: less_induct)
  case less
  show ?case
  proof (cases "rest = []")
    case True
    then show ?thesis using less.prems by (simp add: send_loop.simps make_result_void_def)
  next
    case False
    obtain q s1 w1 where q: "wr rest s w = (q, s1, w1)" by (cases "wr rest s w") auto
    show ?thesis
    proof (cases q)
      case (Inl e)
      then obtain k where "e \<noteq> ec_ok" "tx w1 = tx w @ take k rest" using q wr_error [of rest s w e s1 w1] by auto
      then show ?thesis
        using less.prems False q Inl
        by (intro exI [of _ "take k rest"] exI [of _ "drop k rest"]) (simp add: send_loop.simps [of wr rest])
    next
      case (Inr n)
      have n: "n \<le> length rest" "tx w1 = tx w @ take n rest" using wr_ok [of rest s w n s1 w1] q Inr by auto
      show ?thesis
      proof (cases "n = 0")
        case True
        then show ?thesis using less.prems False q Inr n by (simp add: send_loop.simps [of wr rest])
      next
        case pos: False
        have "send_loop wr (drop n rest) s1 w1 = (r, s', w')"
          using less.prems False q Inr pos by (simp add: send_loop.simps [of wr rest])
        then obtain out unsent where o: "drop n rest = out @ unsent" "tx w' = tx w1 @ out" "r = ec_ok \<longrightarrow> unsent = []"
          using less.hyps [of "drop n rest" s1 w1] pos False by auto
        have "rest = (take n rest @ out) @ unsent" using o(1) by (metis append_assoc append_take_drop_id)
        then show ?thesis using o(2,3) n(2) by (metis append_assoc)
      qed
    qed
  qed
qed

end

locale clean_wire = wire wr tx for wr :: "byte list \<Rightarrow> 's \<Rightarrow> 'w \<Rightarrow> nat result \<times> 's \<times> 'w" and tx :: "'w \<Rightarrow> byte list" +
  fixes clean :: "'s \<Rightarrow> bool"
  assumes wr_clean: "wr ds s w = (Inl e, s', w') \<Longrightarrow> clean s \<Longrightarrow> tx w' = tx w"
    and clean_stays: "wr ds s w = (q, s', w') \<Longrightarrow> clean s \<Longrightarrow> clean s'"
begin

text \<open>There success is reported exactly when all of the message has gone out.\<close>

lemma send_loop_failed:
  "send_loop wr rest s w = (r, s', w') \<Longrightarrow> clean s \<Longrightarrow> r \<noteq> ec_ok \<Longrightarrow> tx w' \<noteq> tx w @ rest"
proof (induction "length rest" arbitrary: rest s w rule: less_induct)
  case less
  have ne: "rest \<noteq> []" using less.prems by (auto simp: send_loop.simps make_result_void_def)
  obtain q s1 w1 where q: "wr rest s w = (q, s1, w1)" by (cases "wr rest s w") auto
  show ?case
  proof (cases q)
    case (Inl e)
    then show ?thesis using less.prems(1,2) ne q wr_clean [of rest s w e s1 w1] by (auto simp: send_loop.simps [of wr rest])
  next
    case (Inr n)
    have n: "n \<le> length rest" "tx w1 = tx w @ take n rest" using wr_ok [of rest s w n s1 w1] q Inr by auto
    show ?thesis
    proof (cases "n = 0")
      case True
      then show ?thesis using less.prems(1) ne q Inr n by (auto simp: send_loop.simps [of wr rest])
    next
      case False
      then have "send_loop wr (drop n rest) s1 w1 = (r, s', w')"
        using less.prems(1) ne q Inr by (simp add: send_loop.simps [of wr rest])
      moreover have "length (drop n rest) < length rest" using False ne by simp
      moreover have "clean s1" using clean_stays [OF q less.prems(2)] .
      ultimately have "tx w' \<noteq> tx w1 @ drop n rest" using less.hyps less.prems(3) by blast
      then show ?thesis using n(2) by (metis append_assoc append_take_drop_id)
    qed
  qed
qed

end

subsection \<open>Sockets and TLS sessions are such connections\<close>

text \<open>
  What POSIX says of \<open>send\<close>: it returns the number of bytes sent, at most what was offered, or -1 and
  then nothing has gone out; reading the clock sends nothing.
\<close>

locale posix_stream =
  fixes os :: "'w os_api" and tx :: "'w \<Rightarrow> byte list"
  assumes os_send_law: "os_send os fd ds w = ((n, err), w') \<Longrightarrow> n \<le> int (length ds) \<and> tx w' = tx w @ take (nat n) ds"
    and os_now_law: "tx (snd (os_now os w)) = tx w"
begin

lemma tcp_send_ok:
  assumes "tcp_send os ds s w = (Inr n, s', w')"
  shows "n \<le> length ds \<and> tx w' = tx w @ take n ds"
proof -
  obtain k err w1 where s: "os_send os (sk_fd s) ds w = ((k, err), w1)"
    by (cases "os_send os (sk_fd s) ds w") auto
  obtain t w2 where t: "os_now os w1 = (t, w2)" by fastforce
  show ?thesis
    using assms s t os_send_law [OF s] os_now_law [of w1]
    by (auto simp: tcp_send_def split: if_splits)
qed

lemma tcp_send_error:
  assumes "tcp_send os ds s w = (Inl e, s', w')"
  shows "e \<noteq> ec_ok \<and> tx w' = tx w"
proof -
  obtain k err w1 where s: "os_send os (sk_fd s) ds w = ((k, err), w1)"
    by (cases "os_send os (sk_fd s) ds w") auto
  show ?thesis
    using assms s os_send_law [OF s] by (auto simp: tcp_send_def split: if_splits prod.splits)
qed

end

sublocale posix_stream \<subseteq> tcp: clean_wire "tcp_send os" tx "\<lambda>s. True"
proof
  show "e \<noteq> ec_ok \<and> (\<exists>k. tx w' = tx w @ take k ds)" if "tcp_send os ds s w = (Inl e, s', w')" for ds s w e s' w'
    using tcp_send_error [OF that] by (auto intro: exI [of _ 0])
qed (simp_all add: tcp_send_ok tcp_send_error)

text \<open>
  What OpenSSL says of \<open>SSL_write\<close>, for the bytes of the protected stream: a positive result is the number of
  bytes written; otherwise the write did not complete, and some of the records may have gone out.
\<close>

definition tls_send :: "'w ssl_api \<Rightarrow> byte list \<Rightarrow> tls_context \<Rightarrow> 'w \<Rightarrow> nat result \<times> tls_context \<times> 'w" where
  "tls_send ssl ds h w = (case tls_write ssl ds h w of (r, w1) \<Rightarrow> (r, h, w1))"

locale ssl_stream =
  fixes ssl :: "'w ssl_api" and tx :: "'w \<Rightarrow> byte list"
  assumes ssl_write_law: "ssl_write ssl h ds len w = (n, w') \<Longrightarrow>
      if 0 < n then n \<le> len \<and> tx w' = tx w @ take (nat n) ds else \<exists>k. tx w' = tx w @ take k ds"
    and ssl_get_error_law: "tx (snd (ssl_get_error ssl h ret w)) = tx w"
begin

lemma c_int_le: "c_int n \<le> int n"
proof -
  have "take_bit 32 (uint (w :: 32 word)) = uint w" for w
    using unsigned_less [of w, where ?'a = int] by (intro take_bit_int_eq_self) simp_all
  then have "sint (of_nat n :: 32 word) \<le> uint (of_nat n :: 32 word)"
    by (simp add: sint_uint signed_take_bit_eq_take_bit_minus)
  also have "\<dots> \<le> int n" by (simp add: unsigned_of_nat take_bit_nat_less_eq_self flip: of_nat_take_bit)
  finally show ?thesis by (simp add: c_int_def)
qed

lemma tls_write_ok:
  assumes "tls_write ssl ds h w = (Inr n, w')"
  shows "n \<le> length ds \<and> tx w' = tx w @ take n ds"
  using assms ssl_write_law [of h ds "c_int (length ds)" w] c_int_le [of "length ds"]
  by (auto simp: tls_write_def split: if_splits prod.splits)

lemma tls_write_error:
  assumes "tls_write ssl ds h w = (Inl e, w')"
  shows "e \<noteq> ec_ok \<and> (\<exists>k. tx w' = tx w @ take k ds)"
proof -
  obtain k w1 where s: "ssl_write ssl h ds (c_int (length ds)) w = (k, w1)" by fastforce
  obtain x w2 where x: "ssl_get_error ssl h k w1 = (x, w2)" by fastforce
  show ?thesis
    using assms s x ssl_write_law [OF s] ssl_get_error_law [of h k w1]
    by (auto simp: tls_write_def tls_io_error_def split: if_splits)
qed

end

sublocale ssl_stream \<subseteq> tls: wire "tls_send ssl" tx
  by unfold_locales (auto simp: tls_send_def tls_write_ok tls_write_error split: prod.splits)

end
