(* ===== verification/Http_Client.thy ===== *)
theory Http_Client
  imports Http_Parser_Claims Data_Claims Cookie_Jar Url Transport
begin

text \<open>
  \<open>http_client\<close> of \<open>include/vynx_http/http_client.h\<close> and \<open>src/http_client.cpp\<close>: defaults, the keep-alive
  pool, sending, receiving and redirects. The socket and TLS calls go through the models of
  \<open>tcp_socket\<close> and \<open>tls_context\<close> over the outside world \<open>'w\<close>. A result \<open>None\<close> is a call that never
  returns. Times are in nanoseconds, the configured ones in milliseconds as in the code.
\<close>

record http_client_config =
  cc_connect_timeout :: int
  cc_read_timeout :: int
  cc_write_timeout :: int
  cc_idle_timeout :: int
  cc_max_redirects :: "32 word"
  cc_follow_redirects :: bool
  cc_keep_alive :: bool
  cc_default_host :: string
  cc_default_port :: "16 word"
  cc_tls :: tls_config

definition client_config_default :: http_client_config where
  "client_config_default =
     \<lparr>cc_connect_timeout = 10000, cc_read_timeout = 30000, cc_write_timeout = 10000, cc_idle_timeout = 60000,
      cc_max_redirects = 10, cc_follow_redirects = True, cc_keep_alive = True, cc_default_host = [],
      cc_default_port = 80, cc_tls = tls_config_default\<rparr>"

record pool_entry =
  pe_socket :: tcp_socket
  pe_tls :: "tls_context option"
  pe_is_tls :: bool
  pe_tls_handshake_done :: bool
  pe_last_active :: int

definition pool_entry_new :: "tcp_socket \<Rightarrow> pool_entry" where
  "pool_entry_new s =
     \<lparr>pe_socket = s, pe_tls = None, pe_is_tls = False, pe_tls_handshake_done = False, pe_last_active = 0\<rparr>"

text \<open>
  The pool is a hash map with distinct keys, here an association list whose order stands for the
  order of iteration. The redirect callback may do anything to the world, but does not call the
  client.
\<close>

type_synonym pool = "(string \<times> pool_entry) list"

type_synonym 'w redirect_callback = "string \<Rightarrow> string \<Rightarrow> 16 word \<Rightarrow> 'w \<Rightarrow> 'w"

record 'w http_client =
  cl_config :: http_client_config
  cl_cookies :: cookie_jar
  cl_redirect_cb :: "'w redirect_callback option"
  cl_connections :: pool
  cl_tls_ctx :: "ssl_ctx_wrapper option"

record 'w env =
  en_os :: "'w os_api"
  en_ssl :: "'w ssl_api"

definition http_client_new :: "http_client_config \<Rightarrow> 'w http_client" where
  "http_client_new cfg =
     \<lparr>cl_config = cfg, cl_cookies = [], cl_redirect_cb = None, cl_connections = [], cl_tls_ctx = None\<rparr>"

definition on_redirect :: "'w redirect_callback \<Rightarrow> 'w http_client \<Rightarrow> 'w http_client" where
  "on_redirect cb c = c\<lparr>cl_redirect_cb := Some cb\<rparr>"

subsection \<open>Defaults\<close>

definition hdr_default :: "string \<Rightarrow> string \<Rightarrow> http_headers \<Rightarrow> http_headers" where
  "hdr_default = default_header hdr_contains hdr_set"

definition host_value :: "string \<Rightarrow> 16 word \<Rightarrow> string" where
  "host_value host port = (if port \<noteq> 80 \<and> port \<noteq> 443 then host @ '':'' @ to_string (unat port) else host)"

definition apply_defaults :: "http_client_config \<Rightarrow> cookie_jar \<Rightarrow> http_request \<Rightarrow> http_request" where
  "apply_defaults cfg jar req =
     (let req = (if rq_host req = [] \<and> cc_default_host cfg \<noteq> [] then req\<lparr>rq_host := cc_default_host cfg\<rparr> else req);
          req = (if rq_port req = 0 then req\<lparr>rq_port := cc_default_port cfg\<rparr> else req);
          hs = hdr_default ''Host'' (host_value (rq_host req) (rq_port req)) (rq_headers req);
          hs = hdr_default ''Connection'' (if cc_keep_alive cfg then ''keep-alive'' else ''close'') hs;
          hs = (if bb_size (rq_body req) > 0
                then hdr_default ''Content-Length'' (to_string (bb_size (rq_body req))) hs else hs);
          hs = hdr_default ''User-Agent'' ''vynx_http/0.1'' hs;
          hs = hdr_default ''Accept'' ''*/*'' hs;
          cookie_header = build_cookie_header (rq_host req) (rq_uri req) jar;
          hs = (if cookie_header \<noteq> [] then hdr_set ''Cookie'' cookie_header hs else hs)
      in req\<lparr>rq_headers := hs\<rparr>)"

subsection \<open>The pool\<close>

definition pool_find :: "string \<Rightarrow> pool \<Rightarrow> pool_entry option" where
  "pool_find key p = map_of p key"

definition pool_erase :: "string \<Rightarrow> pool \<Rightarrow> pool" where
  "pool_erase key p = filter (\<lambda>kv. fst kv \<noteq> key) p"

definition pool_emplace :: "string \<Rightarrow> pool_entry \<Rightarrow> pool \<Rightarrow> pool" where
  "pool_emplace key e p = (if pool_find key p = None then (key, e) # p else p)"

definition pool_update :: "string \<Rightarrow> pool_entry \<Rightarrow> pool \<Rightarrow> pool" where
  "pool_update key e p = map (\<lambda>kv. if fst kv = key then (key, e) else kv) p"

text \<open>Destroying an entry frees the TLS session, then closes the descriptor.\<close>

definition entry_destroy :: "'w env \<Rightarrow> pool_entry \<Rightarrow> 'w \<Rightarrow> 'w" where
  "entry_destroy env e w =
     tcp_destroy (en_os env) (pe_socket e) (tls_destroy (en_ssl env) (pe_tls e) w)"

definition erase_connection :: "'w env \<Rightarrow> string \<Rightarrow> pool \<times> 'w \<Rightarrow> pool \<times> 'w" where
  "erase_connection env key pw =
     (case pool_find key (fst pw) of
        None \<Rightarrow> pw
      | Some e \<Rightarrow> (pool_erase key (fst pw), entry_destroy env e (snd pw)))"

definition ns_of_ms :: "int \<Rightarrow> int" where
  "ns_of_ms ms = ms * 1000000"

definition is_idle :: "http_client_config \<Rightarrow> int \<Rightarrow> pool_entry \<Rightarrow> bool" where
  "is_idle cfg now e \<longleftrightarrow> now - pe_last_active e > ns_of_ms (cc_idle_timeout cfg)"

definition close_entry :: "'w env \<Rightarrow> pool_entry \<Rightarrow> 'w \<Rightarrow> pool_entry \<times> 'w" where
  "close_entry env e w =
     (if tcp_valid (pe_socket e)
      then (case tcp_close (en_os env) (pe_socket e) w of (r, s, w') \<Rightarrow> (e\<lparr>pe_socket := s\<rparr>, w'))
      else (e, w))"

fun cleanup_loop :: "'w env \<Rightarrow> http_client_config \<Rightarrow> int \<Rightarrow> pool \<Rightarrow> 'w \<Rightarrow> pool \<times> 'w" where
  "cleanup_loop env cfg now [] w = ([], w)"
| "cleanup_loop env cfg now ((k, e) # p) w =
     (if is_idle cfg now e
      then (case close_entry env e w of (e', w1) \<Rightarrow> cleanup_loop env cfg now p (entry_destroy env e' w1))
      else (case cleanup_loop env cfg now p w of (p', w') \<Rightarrow> ((k, e) # p', w')))"

definition cleanup_idle :: "'w env \<Rightarrow> 'w http_client \<Rightarrow> 'w \<Rightarrow> 'w http_client \<times> 'w" where
  "cleanup_idle env c w =
     (case os_now (en_os env) w of
        (now, w1) \<Rightarrow> (case cleanup_loop env (cl_config c) now (cl_connections c) w1 of
                        (p, w2) \<Rightarrow> (c\<lparr>cl_connections := p\<rparr>, w2)))"

text \<open>The destructor closes every valid socket; then the members go, the context before the pool.\<close>

fun client_close_loop :: "'w env \<Rightarrow> pool \<Rightarrow> 'w \<Rightarrow> pool \<times> 'w" where
  "client_close_loop env [] w = ([], w)"
| "client_close_loop env ((k, e) # p) w =
     (case close_entry env e w of
        (e', w1) \<Rightarrow> (case client_close_loop env p w1 of (p', w2) \<Rightarrow> ((k, e') # p', w2)))"

definition http_client_destroy :: "'w env \<Rightarrow> 'w http_client \<Rightarrow> 'w \<Rightarrow> 'w" where
  "http_client_destroy env c w =
     (case client_close_loop env (cl_connections c) w of
        (p, w1) \<Rightarrow> fold (\<lambda>(k, e). entry_destroy env e) p (ssl_ctx_destroy (en_ssl env) (cl_tls_ctx c) w1))"

subsection \<open>TLS set-up\<close>

definition ensure_tls_context :: "'w env \<Rightarrow> 'w http_client \<Rightarrow> 'w \<Rightarrow> vresult \<times> 'w http_client \<times> 'w" where
  "ensure_tls_context env c w =
     (case cl_tls_ctx c of
        Some ctx \<Rightarrow> (make_result_void, c, w)
      | None \<Rightarrow>
          (case ssl_ctx_create (en_ssl env) (cc_tls (cl_config c)) w of
             (Inl e, w1) \<Rightarrow> (e, c, w1)
           | (Inr ctx, w1) \<Rightarrow> (make_result_void, c\<lparr>cl_tls_ctx := Some ctx\<rparr>, w1)))"

subsection \<open>Sending\<close>

definition entry_send :: "'w env \<Rightarrow> byte list \<Rightarrow> pool_entry \<Rightarrow> 'w \<Rightarrow> nat result \<times> pool_entry \<times> 'w" where
  "entry_send env chunk e w =
     (if pe_is_tls e \<and> pe_tls_handshake_done e
      then (case tls_write (en_ssl env) chunk (the (pe_tls e)) w of (r, w1) \<Rightarrow> (r, e, w1))
      else (case tcp_send (en_os env) chunk (pe_socket e) w of (r, s, w1) \<Rightarrow> (r, e\<lparr>pe_socket := s\<rparr>, w1)))"

definition send_request :: "'w env \<Rightarrow> http_request \<Rightarrow> pool_entry \<Rightarrow> 'w \<Rightarrow> (vresult \<times> pool_entry \<times> 'w) option" where
  "send_request env req e w =
     (case serialize req of
        None \<Rightarrow> None
      | Some serialized \<Rightarrow> Some (send_loop (entry_send env) (bb_contents serialized) e w))"

subsection \<open>Receiving\<close>

definition recv_buf_size :: nat where
  "recv_buf_size = 8192"

definition entry_receive :: "'w env \<Rightarrow> nat \<Rightarrow> pool_entry \<Rightarrow> 'w \<Rightarrow> (nat result \<times> byte list) \<times> pool_entry \<times> 'w" where
  "entry_receive env room e w =
     (if pe_is_tls e \<and> pe_tls_handshake_done e
      then (case tls_read (en_ssl env) room (the (pe_tls e)) w of (r, w1) \<Rightarrow> (r, e, w1))
      else (case tcp_receive (en_os env) room (pe_socket e) w of (r, s, w1) \<Rightarrow> (r, e\<lparr>pe_socket := s\<rparr>, w1)))"

text \<open>The call stores its bytes behind the write position of the receive buffer.\<close>

definition bb_store :: "byte list \<Rightarrow> byte_buffer \<Rightarrow> byte_buffer" where
  "bb_store data b = b\<lparr>bb_data := mem_write (bb_write_pos b) data (bb_data b)\<rparr>"

definition received_response :: "byte_buffer http_parser \<Rightarrow> byte_buffer http_response result" where
  "received_response p =
     (if hp_state p = St_error then Inl http_parse_error
      else if hp_state p \<noteq> St_complete then Inl http_parse_error
      else Inr (fst (release_response p)))"

text \<open>
  The loop runs as long as the peer keeps sending without completing a response, so it need not end:
  \<open>None\<close>.
\<close>

partial_function (option) receive_loop ::
  "'w env \<Rightarrow> byte_buffer http_parser \<Rightarrow> byte_buffer \<Rightarrow> pool_entry \<Rightarrow> 'w \<Rightarrow>
   (byte_buffer http_response result \<times> pool_entry \<times> 'w) option" where
  "receive_loop env p buf e w =
     (if hp_state p = St_complete \<or> hp_state p = St_error then Some (received_response p, e, w)
      else case entry_receive env (bb_available buf) e w of
             ((Inl err, data), e1, w1) \<Rightarrow>
               Some (if hp_state p = St_complete then received_response p else Inl err, e1, w1)
           | ((Inr bytes_received, data), e1, w1) \<Rightarrow>
               if bytes_received = 0
               then Some (if hp_state p = St_complete then received_response p else Inl http_parse_error, e1, w1)
               else (case bb_advance_write bytes_received (bb_store data buf) of
                       None \<Rightarrow> None
                     | Some buf1 \<Rightarrow>
                         (case feed (bb_contents buf1) p of
                            None \<Rightarrow> None
                          | Some (r, p1) \<Rightarrow>
                              if v_has_error r then Some (Inl r, e1, w1)
                              else receive_loop env p1 (bb_clear buf1) e1 w1)))"

definition receive_response ::
  "'w env \<Rightarrow> pool_entry \<Rightarrow> 'w \<Rightarrow> (byte_buffer http_response result \<times> pool_entry \<times> 'w) option" where
  "receive_response env e w = receive_loop env http_parser_init (bb_new recv_buf_size) e w"

definition send_and_receive ::
  "'w env \<Rightarrow> http_request \<Rightarrow> pool_entry \<Rightarrow> 'w \<Rightarrow> (byte_buffer http_response result \<times> pool_entry \<times> 'w) option" where
  "send_and_receive env req e w =
     (case send_request env req e w of
        None \<Rightarrow> None
      | Some (r, e1, w1) \<Rightarrow> if v_has_error r then Some (Inl r, e1, w1) else receive_response env e1 w1)"

subsection \<open>Getting a connection\<close>

definition request_scheme :: "http_request \<Rightarrow> string" where
  "request_scheme req =
     (if rq_scheme req = [] then (if rq_port req = 443 then ''https'' else ''http'') else rq_scheme req)"

definition pool_key :: "http_request \<Rightarrow> string" where
  "pool_key req = request_scheme req @ ''://'' @ rq_host req @ '':'' @ to_string (unat (rq_port req))"

definition client_socket_options :: "http_client_config \<Rightarrow> socket_options" where
  "client_socket_options cfg =
     socket_options_default\<lparr>so_keep_alive := cc_keep_alive cfg, so_no_delay := True,
       so_connect_timeout := cc_connect_timeout cfg, so_read_timeout := cc_read_timeout cfg,
       so_write_timeout := cc_write_timeout cfg\<rparr>"

text \<open>The handshake of a new HTTPS entry; on failure the entry is destroyed.\<close>

definition start_tls :: "'w env \<Rightarrow> string \<Rightarrow> pool_entry \<Rightarrow> 'w http_client \<Rightarrow> 'w \<Rightarrow>
    pool_entry result \<times> 'w http_client \<times> 'w" where
  "start_tls env host e c w =
     (case ensure_tls_context env c w of
        (r, c1, w1) \<Rightarrow>
          if v_has_error r then (Inl r, c1, entry_destroy env e w1)
          else case tls_create (en_ssl env) (cl_tls_ctx c1) (sk_fd (pe_socket e)) host w1 of
                 (Inl err, w2) \<Rightarrow> (Inl err, c1, entry_destroy env e w2)
               | (Inr h, w2) \<Rightarrow>
                   let e1 = e\<lparr>pe_tls := Some h\<rparr>
                   in case tls_handshake (en_ssl env) h w2 of
                        (r3, w3) \<Rightarrow>
                          if v_has_error r3 then (Inl r3, c1, entry_destroy env e1 w3)
                          else (Inr (e1\<lparr>pe_tls_handshake_done := True\<rparr>), c1, w3))"

definition open_connection :: "'w env \<Rightarrow> bool \<Rightarrow> http_request \<Rightarrow> 'w http_client \<Rightarrow> 'w \<Rightarrow>
    pool_entry result \<times> 'w http_client \<times> 'w" where
  "open_connection env tls req c w =
     (case tcp_create (en_os env) w of
        (Inl err, w1) \<Rightarrow> (Inl err, c, w1)
      | (Inr s0, w1) \<Rightarrow>
          (case tcp_set_options (en_os env) (client_socket_options (cl_config c)) s0 w1 of
             (_, s1, w2) \<Rightarrow>
               (case tcp_connect (en_os env) (rq_host req) (rq_port req) s1 w2 of
                  (r, s2, w3) \<Rightarrow>
                    if v_has_error r then (Inl r, c, tcp_destroy (en_os env) s2 w3)
                    else let e = (pool_entry_new s2)\<lparr>pe_is_tls := tls\<rparr>
                         in if tls then start_tls env (rq_host req) e c w3 else (Inr e, c, w3))))"

definition drop_stale :: "'w env \<Rightarrow> string \<Rightarrow> 'w http_client \<Rightarrow> 'w \<Rightarrow> 'w http_client \<times> 'w" where
  "drop_stale env key c w =
     (case pool_find key (cl_connections c) of
        None \<Rightarrow> (c, w)
      | Some e \<Rightarrow>
          (case tcp_close (en_os env) (pe_socket e) w of
             (_, s, w1) \<Rightarrow> (c\<lparr>cl_connections := pool_erase key (cl_connections c)\<rparr>,
                           entry_destroy env (e\<lparr>pe_socket := s\<rparr>) w1)))"

definition entry_usable :: "pool_entry \<Rightarrow> bool" where
  "entry_usable e \<longleftrightarrow> tcp_valid (pe_socket e) \<and> sk_state (pe_socket e) = Connected"

definition get_connection :: "'w env \<Rightarrow> http_request \<Rightarrow> 'w http_client \<Rightarrow> 'w \<Rightarrow>
    pool_entry result \<times> 'w http_client \<times> 'w" where
  "get_connection env req c w =
     (let key = pool_key req; tls = (request_scheme req = ''https'')
      in case (case pool_find key (cl_connections c) of
                 Some e \<Rightarrow> if entry_usable e then Some e else None | None \<Rightarrow> None) of
           Some e \<Rightarrow> (Inr e, c, w)
         | None \<Rightarrow>
             (case drop_stale env key c w of
                (c1, w1) \<Rightarrow>
                  (case open_connection env tls req c1 w1 of
                     (Inl err, c2, w2) \<Rightarrow> (Inl err, c2, w2)
                   | (Inr e, c2, w2) \<Rightarrow>
                       (case os_now (en_os env) w2 of
                          (t, w3) \<Rightarrow>
                            let e1 = e\<lparr>pe_last_active := t\<rparr>
                            in (Inr e1, c2\<lparr>cl_connections := pool_emplace key e1 (cl_connections c2)\<rparr>, w3)))))"

subsection \<open>Redirects\<close>

definition store_cookies :: "string \<Rightarrow> http_headers \<Rightarrow> cookie_jar \<Rightarrow> cookie_jar" where
  "store_cookies host hs jar =
     fold (\<lambda>f jar. if iequal (hf_name f) ''Set-Cookie'' then set_cookie_line (hf_value f) host jar else jar) hs jar"

definition origin_text :: "http_request \<Rightarrow> string" where
  "origin_text req = request_scheme req @ ''://'' @ host_value (rq_host req) (rq_port req)"

definition redirect_target :: "http_request \<Rightarrow> string \<Rightarrow> string option" where
  "redirect_target req loc =
     (if take 7 loc = ''http://'' \<or> take 8 loc = ''https://'' then Some loc
      else if take 1 loc = ''/'' then Some (origin_text req @ loc)
      else None)"

definition redirect_skips :: "bool \<Rightarrow> string \<Rightarrow> bool" where
  "redirect_skips cross name \<longleftrightarrow>
     (\<exists>n \<in> set [''Host'', ''Content-Length'', ''Cookie'']. iequal name n)
     \<or> cross \<and> (\<exists>n \<in> set [''Authorization'', ''Proxy-Authorization'']. iequal name n)"

definition redirect_request :: "http_request \<Rightarrow> 16 word \<Rightarrow> parsed_url \<Rightarrow> http_request" where
  "redirect_request req status u =
     (let cross = (pu_host u \<noteq> rq_host req)
      in \<lparr>rq_method = (if status = 307 \<or> status = 308 then rq_method req else Method_get),
          rq_uri = pu_path u, rq_host = pu_host u, rq_scheme = pu_scheme u, rq_port = pu_port u,
          rq_headers = filter (\<lambda>f. \<not> redirect_skips cross (hf_name f)) (rq_headers req),
          rq_body = bb_default\<rparr>)"

subsection \<open>Executing\<close>

definition finish_response :: "'w env \<Rightarrow> string \<Rightarrow> byte_buffer http_response \<Rightarrow> 'w http_client \<Rightarrow> 'w \<Rightarrow>
    byte_buffer http_response result \<times> 'w http_client \<times> 'w" where
  "finish_response env key resp c w =
     (if \<not> hdr_connection_keep_alive (rs_headers resp)
      then (case erase_connection env key (cl_connections c, w) of
              (p, w1) \<Rightarrow> (Inr resp, c\<lparr>cl_connections := p\<rparr>, w1))
      else (Inr resp, c, w))"

text \<open>
  One exchange: everything of \<open>do_execute\<close> before the redirect is looked at. The entry in the pool is
  the one the exchange worked on.
\<close>

definition exchange :: "'w env \<Rightarrow> http_request \<Rightarrow> 'w http_client \<Rightarrow> 'w \<Rightarrow>
    (byte_buffer http_response result \<times> 'w http_client \<times> 'w) option" where
  "exchange env req c w =
     (case cleanup_idle env c w of
        (c1, w1) \<Rightarrow>
          (case get_connection env req c1 w1 of
             (Inl err, c2, w2) \<Rightarrow> Some (Inl err, c2, w2)
           | (Inr e, c2, w2) \<Rightarrow>
               (case send_and_receive env req e w2 of
                  None \<Rightarrow> None
                | Some (Inl err, e1, w3) \<Rightarrow>
                    (case erase_connection env (pool_key req) (pool_update (pool_key req) e1 (cl_connections c2), w3) of
                       (p, w4) \<Rightarrow> Some (Inl err, c2\<lparr>cl_connections := p\<rparr>, w4))
                | Some (Inr resp, e1, w3) \<Rightarrow>
                    (case os_now (en_os env) w3 of
                       (t, w4) \<Rightarrow>
                         Some (Inr resp,
                           c2\<lparr>cl_connections := pool_update (pool_key req) (e1\<lparr>pe_last_active := t\<rparr>) (cl_connections c2),
                              cl_cookies := store_cookies (rq_host req) (rs_headers resp) (cl_cookies c2)\<rparr>,
                           w4)))))"

definition notify_redirect :: "'w http_client \<Rightarrow> http_request \<Rightarrow> string \<Rightarrow> 16 word \<Rightarrow> 'w \<Rightarrow> 'w" where
  "notify_redirect c req target status w =
     (case cl_redirect_cb c of
        None \<Rightarrow> w
      | Some cb \<Rightarrow> cb (origin_text req @ rq_uri req) target status w)"

function do_execute :: "'w env \<Rightarrow> nat \<Rightarrow> http_request \<Rightarrow> 'w http_client \<Rightarrow> 'w \<Rightarrow>
    (byte_buffer http_response result \<times> 'w http_client \<times> 'w) option" where
  "do_execute env remaining_redirects req0 c w =
     (let req = apply_defaults (cl_config c) (cl_cookies c) req0
      in case exchange env req c w of
           None \<Rightarrow> None
         | Some (Inl err, c1, w1) \<Rightarrow> Some (Inl err, c1, w1)
         | Some (Inr resp, c1, w1) \<Rightarrow>
             if is_redirect resp \<and> cc_follow_redirects (cl_config c1) \<and> remaining_redirects > 0
             then (case hdr_get ''Location'' (rs_headers resp) of
                     None \<Rightarrow> Some (Inr resp, c1, w1)
                   | Some loc \<Rightarrow>
                       (case redirect_target req loc of
                          None \<Rightarrow> Some (Inr resp, c1, w1)
                        | Some target \<Rightarrow>
                            let w2 = notify_redirect c1 req target (rs_status_code resp) w1
                            in case parse_url target of
                                 Inl err \<Rightarrow> Some (Inl err, c1, w2)
                               | Inr u \<Rightarrow>
                                   do_execute env (remaining_redirects - 1)
                                     (redirect_request req (rs_status_code resp) u) c1 w2))
             else Some (finish_response env (pool_key req) resp c1 w1))"
  by pat_completeness auto
termination
  by (relation "measure (\<lambda>(env, n, req, c, w). n)") auto

declare do_execute.simps [simp del]

definition execute :: "'w env \<Rightarrow> http_request \<Rightarrow> 'w http_client \<Rightarrow> 'w \<Rightarrow>
    (byte_buffer http_response result \<times> 'w http_client \<times> 'w) option" where
  "execute env req c w = do_execute env (unat (cc_max_redirects (cl_config c))) req c w"

definition execute_url :: "'w env \<Rightarrow> http_method \<Rightarrow> string \<Rightarrow> http_headers \<Rightarrow> byte_buffer \<Rightarrow> 'w http_client \<Rightarrow> 'w \<Rightarrow>
    (byte_buffer http_response result \<times> 'w http_client \<times> 'w) option" where
  "execute_url env m url hs body c w =
     (case parse_url url of
        Inl err \<Rightarrow> Some (Inl err, c, w)
      | Inr u \<Rightarrow>
          execute env \<lparr>rq_method = m, rq_uri = pu_path u, rq_host = pu_host u, rq_scheme = pu_scheme u,
                       rq_port = pu_port u, rq_headers = hs, rq_body = body\<rparr> c w)"

definition client_get where
  "client_get env url hs = execute_url env Method_get url hs bb_default"

definition with_content_type :: "string \<Rightarrow> http_headers \<Rightarrow> http_headers" where
  "with_content_type content_type hs = hdr_default ''Content-Type'' content_type hs"

definition client_post where
  "client_post env url body content_type hs = execute_url env Method_post url (with_content_type content_type hs) body"

definition client_put where
  "client_put env url body content_type hs = execute_url env Method_put url (with_content_type content_type hs) body"

definition client_patch where
  "client_patch env url body content_type hs = execute_url env Method_patch url (with_content_type content_type hs) body"

definition client_del where
  "client_del env url hs = execute_url env Method_del url hs bb_default"

definition client_head where
  "client_head env url hs = execute_url env Method_head url hs bb_default"

definition client_options where
  "client_options env url hs = execute_url env Method_options url hs bb_default"

end
