(* ===== verification/Async_Client.thy ===== *)
theory Async_Client
  imports Http_Client Event_Loop
begin

text \<open>
  \<open>http_client::execute_async\<close>: the request and its callback become a payload posted to the event loop,
  whose task executes the request and calls the callback with the outcome. The world of the loop holds
  the client and the rest, \<open>'w\<close>; a callback \<open>'b\<close> changes that rest.
\<close>

record 'b async_payload =
  pl_request :: http_request
  pl_cb :: 'b

type_synonym 'w client_world = "'w http_client \<times> 'w"

definition execute_async ::
  "http_request \<Rightarrow> 'b \<Rightarrow> ('c, 'b async_payload, 'w) event_loop \<Rightarrow> ('c, 'b async_payload, 'w) event_loop" where
  "execute_async req cb l = el_post \<lparr>pl_request = req, pl_cb = cb\<rparr> l"

definition payload_run ::
  "'w env \<Rightarrow> ('b \<Rightarrow> byte_buffer http_response result \<Rightarrow> 'w \<Rightarrow> 'w) \<Rightarrow> 'b async_payload \<Rightarrow> 'w client_world \<Rightarrow>
   'w client_world option" where
  "payload_run env call p cw =
     (case execute env (pl_request p) (fst cw) (snd cw) of
        None \<Rightarrow> None
      | Some (r, c, w) \<Rightarrow> Some (c, call (pl_cb p) r w))"

text \<open>The payloads one after the other, as the thread that runs the loop executes them.\<close>

fun run_payloads ::
  "'w env \<Rightarrow> ('b \<Rightarrow> byte_buffer http_response result \<Rightarrow> 'w \<Rightarrow> 'w) \<Rightarrow> 'b async_payload list \<Rightarrow> 'w client_world \<Rightarrow>
   'w client_world option" where
  "run_payloads env call [] cw = Some cw"
| "run_payloads env call (p # ps) cw =
     (case payload_run env call p cw of None \<Rightarrow> None | Some cw1 \<Rightarrow> run_payloads env call ps cw1)"

text \<open>A loop whose tasks are payloads of the client.\<close>

definition runs_payloads ::
  "'w env \<Rightarrow> ('b \<Rightarrow> byte_buffer http_response result \<Rightarrow> 'w \<Rightarrow> 'w) \<Rightarrow>
   ('c, 'b async_payload, 'w client_world) loop_env \<Rightarrow> bool" where
  "runs_payloads env call lenv \<longleftrightarrow>
     (\<forall>p l cw cw'. payload_run env call p cw = Some cw' \<longrightarrow> le_task lenv p (l, cw) = (l, cw'))"

lemma execute_async_queue [simp]:
  "el_task_queue (execute_async req cb l) = el_task_queue l @ [\<lparr>pl_request = req, pl_cb = cb\<rparr>]"
  by (simp add: execute_async_def el_post_def)

lemma tasks_run_payloads:
  assumes "runs_payloads env call lenv"
  shows "run_payloads env call ps cw = Some cw' \<Longrightarrow>
    \<exists>l'. fold (run_task lenv) ps (l, cw) = (l', cw') \<and> el_task_queue l' = el_task_queue l
      \<and> ls_tasks_executed (el_stats l') = ls_tasks_executed (el_stats l) + of_nat (length ps)"
proof (induction ps arbitrary: l cw)
  case (Cons p ps)
  then obtain cw1 where cw1: "payload_run env call p cw = Some cw1" "run_payloads env call ps cw1 = Some cw'"
    by (auto split: option.splits)
  let ?l1 = "l\<lparr>el_stats := count_task (el_stats l)\<rparr>"
  have "le_task lenv p (l, cw) = (l, cw1)" using assms cw1(1) unfolding runs_payloads_def by blast
  then have "run_task lenv p (l, cw) = (?l1, cw1)" by (simp add: run_task_def)
  moreover obtain l' where "fold (run_task lenv) ps (?l1, cw1) = (l', cw')" "el_task_queue l' = el_task_queue ?l1"
      "ls_tasks_executed (el_stats l') = ls_tasks_executed (el_stats ?l1) + of_nat (length ps)"
    using Cons.IH [OF cw1(2)] by blast
  ultimately show ?case by (auto simp: count_task_def)
qed simp

lemma process_posted_payloads:
  assumes "runs_payloads env call lenv" and "run_payloads env call (el_task_queue l) cw = Some cw'"
  shows "\<exists>l'. process_tasks lenv (l, cw) = (l', cw') \<and> el_task_queue l' = []
    \<and> ls_tasks_executed (el_stats l') = ls_tasks_executed (el_stats l) + of_nat (length (el_task_queue l))"
  using tasks_run_payloads [OF assms(1,2), of "l\<lparr>el_task_queue := []\<rparr>"] by (simp add: process_tasks_def)

lemma post_all_queue:
  "el_task_queue (fold (\<lambda>(req, cb). execute_async req cb) rs l)
     = el_task_queue l @ map (\<lambda>(req, cb). \<lparr>pl_request = req, pl_cb = cb\<rparr>) rs"
  by (induction rs arbitrary: l) auto

lemma post_all_stats: "el_stats (fold (\<lambda>(req, cb). execute_async req cb) rs l) = el_stats l"
  by (induction rs arbitrary: l) (auto simp: execute_async_def el_post_def)

end
