(* ===== verification/Http_Client_Facts.thy ===== *)
theory Http_Client_Facts
  imports Http_Client
begin

text \<open>
  Facts about the client: what it writes to a connection, which responses it returns, the chain of
  requests a redirect makes, and the invariant of the pool.
\<close>

subsection \<open>Sending\<close>

definition over_tls :: "pool_entry \<Rightarrow> bool" where
  "over_tls e \<longleftrightarrow> pe_is_tls e \<and> pe_tls_handshake_done e"

locale client_stream =
  tcp_part: posix_stream "en_os env" tx + tls_part: ssl_stream "en_ssl env" tx
  for env :: "'w env" and tx :: "'w \<Rightarrow> byte list"
begin

lemma entry_send_ok:
  "entry_send env ds e w = (Inr n, e', w') \<Longrightarrow> n \<le> length ds \<and> tx w' = tx w @ take n ds"
  by (auto simp: entry_send_def split: if_splits prod.splits
      dest: tcp_part.tcp_send_ok tls_part.tls_write_ok)

lemma entry_send_error:
  "entry_send env ds e w = (Inl err, e', w') \<Longrightarrow> err \<noteq> ec_ok \<and> (\<exists>k. tx w' = tx w @ take k ds)"
  by (auto simp: entry_send_def split: if_splits prod.splits
      dest: tcp_part.tcp.wr_error tls_part.tls_write_error)

lemma entry_send_plain:
  "entry_send env ds e w = (Inl err, e', w') \<Longrightarrow> \<not> over_tls e \<Longrightarrow> tx w' = tx w"
  "entry_send env ds e w = (q, e', w') \<Longrightarrow> \<not> over_tls e \<Longrightarrow> \<not> over_tls e'"
  by (auto simp: entry_send_def over_tls_def split: if_splits prod.splits dest: tcp_part.tcp_send_error)

end

sublocale client_stream \<subseteq> conn: clean_wire "entry_send env" tx "\<lambda>e. \<not> over_tls e"
  by unfold_locales (simp_all add: entry_send_ok entry_send_error entry_send_plain)

context client_stream begin

lemma send_request_prefix:
  assumes "bb_wf (rq_body req)" and "send_request env req e w = Some (r, e', w')"
  shows "\<exists>out unsent. (if uri_single_line req then request_text req else []) = out @ unsent
    \<and> tx w' = tx w @ out \<and> (r = ec_ok \<longrightarrow> unsent = [])
    \<and> (\<not> (pe_is_tls e \<and> pe_tls_handshake_done e) \<and> unsent = [] \<longrightarrow> r = ec_ok)"
proof -
  obtain b where b: "serialize req = Some b"
      "bb_contents b = (if uri_single_line req then request_text req else [])"
    using serialize_view [OF assms(1)] by blast
  have "send_loop (entry_send env) (bb_contents b) e w = (r, e', w')"
    using assms(2) b(1) by (simp add: send_request_def)
  then obtain out unsent where o: "bb_contents b = out @ unsent" "tx w' = tx w @ out" "r = ec_ok \<longrightarrow> unsent = []"
    and plain: "\<not> over_tls e \<Longrightarrow> r \<noteq> ec_ok \<Longrightarrow> tx w' \<noteq> tx w @ bb_contents b"
    using conn.send_loop_prefix conn.send_loop_failed by metis
  then show ?thesis using b(2) by (intro exI [of _ out] exI [of _ unsent]) (auto simp: over_tls_def)
qed

end

text \<open>\<open>send_request\<close> always returns.\<close>

lemma send_request_total: "bb_wf (rq_body req) \<Longrightarrow> send_request env req e w \<noteq> None"
proof -
  assume "bb_wf (rq_body req)"
  then obtain b where "serialize req = Some b" using serialize_view by blast
  then show "send_request env req e w \<noteq> None" by (simp add: send_request_def del: not_None_eq)
qed

subsection \<open>Receiving\<close>

lemma bb_store_advance:
  assumes "bb_wf buf" "bb_size buf = 0" "length data \<le> bb_available buf"
  shows "\<exists>b. bb_advance_write (length data) (bb_store data buf) = Some b \<and> bb_wf b \<and> bb_contents b = data
    \<and> bb_capacity b = bb_capacity buf"
proof -
  have p: "bb_read_pos buf = bb_write_pos buf" "bb_write_pos buf + length data \<le> length (bb_data buf)"
    using assms by (auto simp: bb_wf_def bb_size_def bb_available_def bb_capacity_def)
  have "bb_contents buf = []" using assms(2) by (simp add: bb_contents_def)
  moreover have "mem_read (bb_read_pos buf) (bb_write_pos buf - bb_read_pos buf + length data)
      (mem_write (bb_write_pos buf) data (bb_data buf)) = bb_contents buf @ data"
    using mem_read_write_extend [of "bb_read_pos buf" "bb_write_pos buf" data "bb_data buf"] p
    by (simp add: bb_contents_def bb_size_def)
  ultimately show ?thesis
    using p by (simp add: bb_advance_write_def bb_store_def bb_capacity_def bb_contents_def bb_size_def bb_wf_def)
qed

text \<open>The peer delivers these pieces, one per read, none empty, none above what the buffer holds.\<close>

inductive reads :: "'w env \<Rightarrow> pool_entry \<Rightarrow> 'w \<Rightarrow> byte list list \<Rightarrow> bool" for env where
  reads_none: "reads env e w []"
| reads_more: "entry_receive env recv_buf_size e w = ((Inr (length d), d), e1, w1) \<Longrightarrow> d \<noteq> [] \<Longrightarrow>
    length d \<le> recv_buf_size \<Longrightarrow> reads env e1 w1 ds \<Longrightarrow> reads env e w (d # ds)"

inductive_cases reads_ConsE: "reads env e w (d # ds)"

lemma receive_loop_reads:
  "reads env e w (ds @ later) \<Longrightarrow> hp_live p \<Longrightarrow> feed_all ds p = Some (ec_ok, q) \<Longrightarrow> hp_state q = St_complete \<Longrightarrow>
   bb_wf buf \<Longrightarrow> bb_read_pos buf = 0 \<Longrightarrow> bb_write_pos buf = 0 \<Longrightarrow> bb_capacity buf = recv_buf_size \<Longrightarrow>
   \<exists>used unread e' w'. ds = used @ unread \<and> feed_all used p = Some (ec_ok, q) \<and> reads env e' w' (unread @ later)
     \<and> receive_loop env p buf e w = Some (Inr (hp_response q), e', w')"
proof (induction ds arbitrary: e w p buf)
  case Nil
  then have pq: "p = q" by simp
  have "receive_loop env p buf e w = Some (Inr (hp_response q), e, w)"
    unfolding pq using Nil.prems(4) by (subst receive_loop.simps) (simp add: received_response_def release_response_def)
  then show ?case using Nil.prems(1,3) by auto
next
  case (Cons d ds)
  show ?case
  proof (cases "hp_state p = St_complete \<or> hp_state p = St_error")
    case True
    then have pq: "p = q" using Cons.prems(3) feed_all_at_rest [of p "d # ds"] by (simp add: at_rest_def)
    have "receive_loop env p buf e w = Some (Inr (hp_response q), e, w)"
      unfolding pq using Cons.prems(4) by (subst receive_loop.simps) (simp add: received_response_def release_response_def)
    moreover have "feed_all [] p = Some (ec_ok, q)" using pq by simp
    ultimately show ?thesis using Cons.prems(1) by (metis append_Nil)
  next
    case False
    obtain e1 w1 where r: "entry_receive env recv_buf_size e w = ((Inr (length d), d), e1, w1)"
        "d \<noteq> []" "length d \<le> recv_buf_size" "reads env e1 w1 (ds @ later)"
      using Cons.prems(1) by (auto elim: reads_ConsE)
    have av: "bb_available buf = recv_buf_size" and sz: "bb_size buf = 0"
      using Cons.prems by (simp_all add: bb_available_def bb_size_def)
    obtain b where b: "bb_advance_write (length d) (bb_store d buf) = Some b" "bb_wf b" "bb_contents b = d"
        "bb_capacity b = bb_capacity buf"
      using bb_store_advance [OF Cons.prems(5) sz, of d] r(3) av by auto
    obtain c p1 where f: "feed d p = Some (c, p1)" "hp_live p1" using feed_refines [OF Cons.prems(2), of d] by blast
    have c: "\<not> v_has_error c" and rest: "feed_all ds p1 = Some (ec_ok, q)"
      using Cons.prems(3) f(1) by (auto split: if_splits simp: v_has_error_def)
    have l: "receive_loop env p buf e w = receive_loop env p1 (bb_clear b) e1 w1"
      using False r av b f c by (subst receive_loop.simps) simp
    have clear: "bb_wf (bb_clear b)" "bb_read_pos (bb_clear b) = 0" "bb_write_pos (bb_clear b) = 0"
        "bb_capacity (bb_clear b) = recv_buf_size"
      using Cons.prems(8) b(4) by (simp_all add: bb_clear_def) (simp_all add: bb_reset_def bb_capacity_def)
    obtain used unread e' w' where ih: "ds = used @ unread" "feed_all used p1 = Some (ec_ok, q)"
        "reads env e' w' (unread @ later)" "receive_loop env p1 (bb_clear b) e1 w1 = Some (Inr (hp_response q), e', w')"
      using Cons.IH [OF r(4) f(2) rest Cons.prems(4), of "bb_clear b"] clear by blast
    have "feed_all (d # used) p = Some (ec_ok, q)" using f(1) c ih(2) by simp
    then show ?thesis unfolding l using ih by (metis append_Cons)
  qed
qed

lemma reads_nonempty: "reads env e w ds \<Longrightarrow> list_all (\<lambda>d. d \<noteq> []) ds"
  by (induction rule: reads.induct) simp_all

text \<open>The loop returns the response, has read its pieces and no more.\<close>

lemma receive_response_pieces:
  assumes "reads env e w (ds @ later)" and "pieces_of code reason hs body ds"
  shows "\<exists>resp e' w'. receive_response env e w = Some (Inr resp, e', w')
    \<and> response_is code reason hs body resp \<and> reads env e' w' later"
proof -
  obtain q where q: "feed_all ds http_parser_init = Some (ec_ok, q)" "hp_state q = St_complete"
      "response_is code reason hs body (hp_response q)"
    using pieces_feed [OF assms(2)] by blast
  obtain used unread e' w' where u: "ds = used @ unread" "feed_all used http_parser_init = Some (ec_ok, q)"
      "reads env e' w' (unread @ later)" "receive_response env e w = Some (Inr (hp_response q), e', w')"
    using receive_loop_reads [OF assms(1) hp_live_init q(1,2), of "bb_new recv_buf_size"]
    by (auto simp: receive_response_def) (auto simp: bb_new_def bb_capacity_def)
  have "list_all (\<lambda>d. d \<noteq> []) unread" using reads_nonempty [OF u(3)] by simp
  then have "unread = []" using pieces_not_early assms(2) u(1,2) q(2) by metis
  then show ?thesis using u q(3) by auto
qed

definition response_framed :: "byte_buffer http_response \<Rightarrow> bool" where
  "response_framed resp \<longleftrightarrow> status_ok resp \<and>
     (resp_is_chunked resp \<or> resp_content_length resp = Some (length (bb_contents (rs_body resp))))"

lemma reachable_complete_framed:
  "parser_reachable p \<Longrightarrow> hp_state p = St_complete \<Longrightarrow> response_framed (hp_response p)"
  using parser_reachable_inv [of p] by (auto simp: spec_inv_def response_framed_def status_ok_def)

lemma receive_loop_framed_aux:
  "receive_loop env p buf e w = Some res \<Longrightarrow>
   parser_reachable p \<longrightarrow> (\<forall>resp. fst res = Inr resp \<longrightarrow> response_framed resp)"
proof (rule receive_loop.raw_induct
    [where P = "\<lambda>env p buf e w res. parser_reachable p \<longrightarrow> (\<forall>resp. fst res = Inr resp \<longrightarrow> response_framed resp)"])
  fix f and env :: "'w env" and p buf e w and res :: "byte_buffer http_response result \<times> pool_entry \<times> 'w"
  assume IH: "\<And>env p buf e w res. f env p buf e w = Some res \<Longrightarrow>
      parser_reachable p \<longrightarrow> (\<forall>resp. fst res = Inr resp \<longrightarrow> response_framed resp)"
    and eq: "(if hp_state p = St_complete \<or> hp_state p = St_error then Some (received_response p, e, w)
      else case entry_receive env (bb_available buf) e w of
             ((Inl err, data), e1, w1) \<Rightarrow>
               Some (if hp_state p = St_complete then received_response p else Inl err, e1, w1)
           | ((Inr bytes_received, data), e1, w1) \<Rightarrow>
               if bytes_received = 0
               then Some (if hp_state p = St_complete then received_response p else Inl http_parse_error, e1, w1)
               else (case bb_advance_write bytes_received (bb_store data buf) of
                       None \<Rightarrow> None
                     | Some buf1 \<Rightarrow>
                         (case feed (bb_contents buf1) p of
                            None \<Rightarrow> None
                          | Some (r, p1) \<Rightarrow>
                              if v_has_error r then Some (Inl r, e1, w1)
                              else f env p1 (bb_clear buf1) e1 w1))) = Some res"
  show "parser_reachable p \<longrightarrow> (\<forall>resp. fst res = Inr resp \<longrightarrow> response_framed resp)"
  proof (intro impI allI)
    fix resp assume p: "parser_reachable p" and resp: "fst res = Inr resp"
    have fin: "received_response p = Inr resp \<Longrightarrow> response_framed resp"
      using reachable_complete_framed [OF p]
      by (auto simp: received_response_def release_response_def split: if_splits)
    show "response_framed resp"
    proof (cases "hp_state p = St_complete \<or> hp_state p = St_error")
      case True
      then show ?thesis using eq resp fin by auto
    next
      case False
      obtain q data e1 w1 where q: "entry_receive env (bb_available buf) e w = ((q, data), e1, w1)"
        by (cases "entry_receive env (bb_available buf) e w") auto
      obtain n where n: "q = Inr n" "n \<noteq> 0"
        using eq resp False q by (cases q) (auto split: if_splits)
      obtain buf1 r p1 where b: "feed (bb_contents buf1) p = Some (r, p1)"
          "(if v_has_error r then Some (Inl r, e1, w1) else f env p1 (bb_clear buf1) e1 w1) = Some res"
        using eq False q n by (auto split: option.splits)
      have "\<not> v_has_error r" using b(2) resp by (auto split: if_splits)
      then show ?thesis
        using IH [of env p1 "bb_clear buf1" e1 w1 res] b resp reach_step [OF p step_feed [OF b(1)]] by simp
    qed
  qed
qed

lemma receive_response_framed:
  "receive_response env e w = Some (Inr resp, e', w') \<Longrightarrow> response_framed resp"
  using receive_loop_framed_aux [of env http_parser_init _ e w "(Inr resp, e', w')"] reach_init
  by (auto simp: receive_response_def)

subsection \<open>The chain of requests\<close>

text \<open>One round of \<open>do_execute\<close>: it ends with a result, or goes on with another request.\<close>

definition hop :: "'w env \<Rightarrow> nat \<Rightarrow> http_request \<Rightarrow> 'w http_client \<Rightarrow> 'w \<Rightarrow>
    ((byte_buffer http_response result \<times> 'w http_client \<times> 'w) + (http_request \<times> 'w http_client \<times> 'w)) option" where
  "hop env n req0 c w =
     (let req = apply_defaults (cl_config c) (cl_cookies c) req0
      in case exchange env req c w of
           None \<Rightarrow> None
         | Some (Inl err, c1, w1) \<Rightarrow> Some (Inl (Inl err, c1, w1))
         | Some (Inr resp, c1, w1) \<Rightarrow>
             if is_redirect resp \<and> cc_follow_redirects (cl_config c1) \<and> n > 0
             then (case hdr_get ''Location'' (rs_headers resp) of
                     None \<Rightarrow> Some (Inl (Inr resp, c1, w1))
                   | Some loc \<Rightarrow>
                       (case redirect_target req loc of
                          None \<Rightarrow> Some (Inl (Inr resp, c1, w1))
                        | Some target \<Rightarrow>
                            let w2 = notify_redirect c1 req target (rs_status_code resp) w1
                            in case parse_url target of
                                 Inl err \<Rightarrow> Some (Inl (Inl err, c1, w2))
                               | Inr u \<Rightarrow> Some (Inr (redirect_request req (rs_status_code resp) u, c1, w2))))
             else Some (Inl (finish_response env (pool_key req) resp c1 w1)))"

lemma do_execute_hop:
  "do_execute env n req c w =
     (case hop env n req c w of
        None \<Rightarrow> None
      | Some (Inl out) \<Rightarrow> Some out
      | Some (Inr (req', c', w')) \<Rightarrow> do_execute env (n - 1) req' c' w')"
  by (subst do_execute.simps) (simp add: hop_def Let_def split: option.split sum.split)

text \<open>Where a redirect leads.\<close>

lemma hop_next:
  assumes "hop env n req c w = Some (Inr (req', c', w'))"
  shows "\<exists>status u. req' = redirect_request (apply_defaults (cl_config c) (cl_cookies c) req) status u \<and> url_ok u"
  using assms unfolding hop_def Let_def
  by (auto split: option.splits sum.splits if_splits) (blast intro: parse_url_ok)

inductive runs :: "'w env \<Rightarrow> nat \<Rightarrow> http_request \<Rightarrow> 'w http_client \<Rightarrow> 'w \<Rightarrow> http_request list \<Rightarrow>
    byte_buffer http_response result \<times> 'w http_client \<times> 'w \<Rightarrow> bool" for env where
  runs_last: "hop env n req c w = Some (Inl out) \<Longrightarrow> runs env n req c w [apply_defaults (cl_config c) (cl_cookies c) req] out"
| runs_next: "hop env n req c w = Some (Inr (req', c', w')) \<Longrightarrow> runs env (n - 1) req' c' w' reqs out \<Longrightarrow>
    runs env n req c w (apply_defaults (cl_config c) (cl_cookies c) req # reqs) out"

lemma hop_budget: "hop env n req c w = Some (Inr x) \<Longrightarrow> 0 < n"
  by (auto simp: hop_def Let_def split: option.splits sum.splits if_splits)

lemma do_execute_runs:
  "do_execute env n req c w = Some out \<Longrightarrow> \<exists>reqs. runs env n req c w reqs out"
proof (induction n arbitrary: req c w rule: less_induct)
  case (less n)
  show ?case
  proof (cases "hop env n req c w")
    case None
    then show ?thesis using less.prems by (simp add: do_execute_hop)
  next
    case (Some h)
    show ?thesis
    proof (cases h)
      case (Inl x)
      then have "hop env n req c w = Some (Inl out)" using less.prems Some by (simp add: do_execute_hop [of env n])
      then have "runs env n req c w [apply_defaults (cl_config c) (cl_cookies c) req] out" by (rule runs_last)
      then show ?thesis by (rule exI)
    next
      case (Inr x)
      obtain req' c' w' where x: "x = (req', c', w')" by (cases x) auto
      then have h: "hop env n req c w = Some (Inr (req', c', w'))" using Some Inr by simp
      then have "do_execute env (n - 1) req' c' w' = Some out" using less.prems by (simp add: do_execute_hop [of env n])
      then obtain reqs where "runs env (n - 1) req' c' w' reqs out"
        using less.IH [of "n - 1" req' c' w'] hop_budget [OF h] by auto
      then show ?thesis using runs_next [OF h] by blast
    qed
  qed
qed

lemma runs_do_execute: "runs env n req c w reqs out \<Longrightarrow> do_execute env n req c w = Some out"
  by (induction rule: runs.induct) (simp_all add: do_execute_hop)

lemma runs_length: "runs env n req c w reqs out \<Longrightarrow> length reqs \<le> n + 1 \<and> reqs \<noteq> [] \<and> hd reqs = apply_defaults (cl_config c) (cl_cookies c) req"
  by (induction rule: runs.induct) (auto dest: hop_budget)

text \<open>What one request may owe to the one before it.\<close>

definition follows :: "http_request \<Rightarrow> http_request \<Rightarrow> bool" where
  "follows a b \<longleftrightarrow> (\<exists>status u cfg jar. url_ok u \<and> b = apply_defaults cfg jar (redirect_request a status u))"

lemma runs_follows:
  "runs env n req c w reqs out \<Longrightarrow> reqs = xs @ a # b # ys \<Longrightarrow> follows a b"
proof (induction arbitrary: xs rule: runs.induct)
  case (runs_next n req c w req' c' w' reqs out)
  have first: "reqs \<noteq> [] \<and> hd reqs = apply_defaults (cl_config c') (cl_cookies c') req'" using runs_length [OF runs_next.hyps(2)] by simp
  obtain status u where "req' = redirect_request (apply_defaults (cl_config c) (cl_cookies c) req) status u" "url_ok u"
    using hop_next [OF runs_next.hyps(1)] by blast
  then have f: "follows (apply_defaults (cl_config c) (cl_cookies c) req) (hd reqs)" using first by (auto simp: follows_def)
  show ?case
  proof (cases xs)
    case Nil
    then have "a = apply_defaults (cl_config c) (cl_cookies c) req" "b = hd reqs" using runs_next.prems by auto
    then show ?thesis using f by simp
  next
    case (Cons x xs')
    then show ?thesis using runs_next.IH [of xs'] runs_next.prems by simp
  qed
qed simp

subsection \<open>The pool\<close>

text \<open>
  The invariant: no key twice, and an entry under an \<open>https\<close> key, and no other, is a TLS entry whose
  handshake is done and whose session exists.
\<close>

definition key_scheme :: "string \<Rightarrow> string" where
  "key_scheme key = takeWhile (\<lambda>c. c \<noteq> CHR '':'') key"

definition entry_ok :: "string \<Rightarrow> pool_entry \<Rightarrow> bool" where
  "entry_ok key e \<longleftrightarrow>
     (pe_is_tls e \<longleftrightarrow> key_scheme key = ''https'')
     \<and> (pe_is_tls e \<longrightarrow> pe_tls_handshake_done e \<and> pe_tls e \<noteq> None)"

definition pool_ok :: "pool \<Rightarrow> bool" where
  "pool_ok p \<longleftrightarrow> distinct (map fst p) \<and> list_all (\<lambda>(k, e). entry_ok k e) p"

lemma takeWhile_until: "c \<notin> set s \<Longrightarrow> takeWhile (\<lambda>x. x \<noteq> c) (s @ c # t) = s"
  by (induction s) auto

lemma key_scheme_pool_key:
  "CHR '':'' \<notin> set (request_scheme req) \<Longrightarrow> key_scheme (pool_key req) = request_scheme req"
  by (simp add: key_scheme_def pool_key_def takeWhile_until)

lemma pool_ok_erase [wf_intros]: "pool_ok p \<Longrightarrow> pool_ok (pool_erase k p)"
  by (auto simp: pool_ok_def pool_erase_def list_all_iff distinct_map_filter)

lemma pool_find_erase: "pool_find k (pool_erase j p) = (if k = j then None else pool_find k p)"
  by (induction p) (auto simp: pool_find_def pool_erase_def)

lemma pool_ok_emplace:
  assumes "pool_ok p" and "pool_find k p = None" and "entry_ok k e"
  shows "pool_ok (pool_emplace k e p)"
  using assms by (auto simp: pool_ok_def pool_emplace_def pool_find_def map_of_eq_None_iff)

lemma pool_ok_update: "pool_ok p \<Longrightarrow> entry_ok k e \<Longrightarrow> pool_ok (pool_update k e p)"
proof -
  assume p: "pool_ok p" and e: "entry_ok k e"
  have "map fst (pool_update k e p) = map fst p" by (induction p) (auto simp: pool_update_def)
  moreover have "list_all (\<lambda>(k, e). entry_ok k e) (pool_update k e p)"
    using p e by (auto simp: pool_ok_def pool_update_def list_all_iff)
  ultimately show "pool_ok (pool_update k e p)"
    using p by (simp add: pool_ok_def)
qed

lemma pool_ok_find: "pool_ok p \<Longrightarrow> pool_find k p = Some e \<Longrightarrow> entry_ok k e"
  by (auto simp: pool_ok_def pool_find_def list_all_iff dest: map_of_SomeD)

lemma cleanup_loop_filter:
  "fst (cleanup_loop env cfg now p w) = filter (\<lambda>(k, e). \<not> is_idle cfg now e) p"
  by (induction env cfg now p w rule: cleanup_loop.induct) (auto split: prod.split)

lemma cleanup_idle_pool:
  assumes "cleanup_idle env c w = (c', w')"
  shows "cl_connections c' = filter (\<lambda>(k, e). \<not> is_idle (cl_config c) (fst (os_now (en_os env) w)) e) (cl_connections c)
    \<and> cl_config c' = cl_config c \<and> cl_cookies c' = cl_cookies c \<and> cl_tls_ctx c' = cl_tls_ctx c
    \<and> cl_redirect_cb c' = cl_redirect_cb c"
proof -
  obtain now w1 where n: "os_now (en_os env) w = (now, w1)" by fastforce
  obtain p w2 where p: "cleanup_loop env (cl_config c) now (cl_connections c) w1 = (p, w2)" by fastforce
  show ?thesis
    using assms n p cleanup_loop_filter [of env "cl_config c" now "cl_connections c" w1]
    by (auto simp: cleanup_idle_def)
qed

lemma pool_ok_filter: "pool_ok p \<Longrightarrow> pool_ok (filter P p)"
  by (auto simp: pool_ok_def list_all_iff distinct_map_filter)

text \<open>Opening a connection leaves the pool alone and gives an entry that fits its scheme.\<close>

lemma ensure_tls_context_frame:
  "ensure_tls_context env c w = (r, c', w') \<Longrightarrow>
   cl_connections c' = cl_connections c \<and> cl_config c' = cl_config c \<and> cl_cookies c' = cl_cookies c
   \<and> cl_redirect_cb c' = cl_redirect_cb c"
  by (auto simp: ensure_tls_context_def split: option.splits sum.splits prod.splits)

lemma start_tls_frame:
  assumes "start_tls env host e c w = (q, c', w')"
  shows "cl_connections c' = cl_connections c \<and> cl_config c' = cl_config c \<and> cl_cookies c' = cl_cookies c
    \<and> (\<forall>e'. q = Inr e' \<longrightarrow> pe_is_tls e' = pe_is_tls e \<and> pe_tls_handshake_done e' \<and> pe_tls e' \<noteq> None)"
  using assms
  by (auto simp: start_tls_def Let_def split: option.splits sum.splits prod.splits if_splits
      dest: ensure_tls_context_frame)

lemma open_connection_frame:
  assumes "open_connection env tls req c w = (q, c', w')"
  shows "cl_connections c' = cl_connections c \<and> cl_config c' = cl_config c \<and> cl_cookies c' = cl_cookies c
    \<and> (\<forall>e'. q = Inr e' \<longrightarrow> pe_is_tls e' = tls \<and> (tls \<longrightarrow> pe_tls_handshake_done e' \<and> pe_tls e' \<noteq> None))"
  using assms
  by (auto simp: open_connection_def Let_def pool_entry_new_def split: sum.splits prod.splits if_splits
      dest: start_tls_frame)

lemma drop_stale_frame:
  assumes "drop_stale env key c w = (c', w')"
  shows "cl_connections c' = pool_erase key (cl_connections c) \<and> cl_config c' = cl_config c \<and> cl_cookies c' = cl_cookies c"
proof -
  have "pool_erase key p = p" if "pool_find key p = None" for p
    using that by (auto simp: pool_erase_def pool_find_def map_of_eq_None_iff filter_id_conv)
  then show ?thesis using assms by (auto simp: drop_stale_def split: option.splits prod.splits)
qed

lemma pool_find_emplace: "pool_find k p = None \<Longrightarrow> pool_find k (pool_emplace k e p) = Some e"
  by (simp add: pool_emplace_def pool_find_def)

lemma get_connection_ok:
  assumes ok: "pool_ok (cl_connections c)" and scheme: "CHR '':'' \<notin> set (request_scheme req)"
    and get: "get_connection env req c w = (q, c', w')"
  shows "pool_ok (cl_connections c')
    \<and> (\<forall>e. q = Inr e \<longrightarrow> pool_find (pool_key req) (cl_connections c') = Some e \<and> entry_ok (pool_key req) e)"
proof -
  let ?k = "pool_key req" and ?tls = "request_scheme req = ''https''"
  define old where "old = (case pool_find ?k (cl_connections c) of
    Some e \<Rightarrow> if entry_usable e then Some e else None | None \<Rightarrow> None)"
  show ?thesis
  proof (cases old)
    case (Some e)
    then have "pool_find ?k (cl_connections c) = Some e" by (auto simp: old_def split: option.splits if_splits)
    moreover have "q = Inr e" "c' = c" using get Some by (auto simp: get_connection_def Let_def old_def)
    ultimately show ?thesis using ok pool_ok_find by blast
  next
    case None
    obtain c1 w1 where d: "drop_stale env ?k c w = (c1, w1)" by fastforce
    obtain q1 c2 w2 where o: "open_connection env ?tls req c1 w1 = (q1, c2, w2)" by (metis prod_cases3)
    have p2: "cl_connections c2 = pool_erase ?k (cl_connections c)"
      using drop_stale_frame [OF d] open_connection_frame [OF o] by simp
    have ok2: "pool_ok (cl_connections c2)" using ok pool_ok_erase p2 by metis
    have no: "pool_find ?k (cl_connections c2) = None" by (simp add: p2 pool_find_erase)
    show ?thesis
    proof (cases q1)
      case (Inl err)
      then have "q = Inl err" "c' = c2"
        using get None d o by (auto simp: get_connection_def Let_def old_def)
      then show ?thesis using ok2 by simp
    next
      case (Inr e)
      obtain t w3 where t: "os_now (en_os env) w2 = (t, w3)" by fastforce
      let ?e = "e\<lparr>pe_last_active := t\<rparr>"
      have r: "q = Inr ?e" "cl_connections c' = pool_emplace ?k ?e (cl_connections c2)"
        using get None d o Inr t by (auto simp: get_connection_def Let_def old_def)
      have "entry_ok ?k ?e"
        using open_connection_frame [OF o] Inr key_scheme_pool_key [OF scheme] by (simp add: entry_ok_def)
      then show ?thesis using r pool_ok_emplace [OF ok2 no] pool_find_emplace [OF no] by simp
    qed
  qed
qed

text \<open>Sending and receiving change nothing of an entry but its socket.\<close>

definition same_kind :: "pool_entry \<Rightarrow> pool_entry \<Rightarrow> bool" where
  "same_kind a b \<longleftrightarrow> pe_is_tls a = pe_is_tls b \<and> pe_tls a = pe_tls b
     \<and> pe_tls_handshake_done a = pe_tls_handshake_done b"

lemma entry_send_kind: "entry_send env ds e w = (r, e', w') \<Longrightarrow> same_kind e e'"
  by (auto simp: entry_send_def same_kind_def split: if_splits prod.splits)

lemma entry_receive_kind: "entry_receive env n e w = (r, e', w') \<Longrightarrow> same_kind e e'"
  by (auto simp: entry_receive_def same_kind_def split: if_splits prod.splits)

lemma same_kind_trans: "same_kind a b \<Longrightarrow> same_kind b c \<Longrightarrow> same_kind a c"
  by (simp add: same_kind_def)

lemma send_loop_kind: "send_loop (entry_send env) rest e w = (r, e', w') \<Longrightarrow> same_kind e e'"
proof (induction "length rest" arbitrary: rest e w rule: less_induct)
  case less
  show ?case
  proof (cases "rest = []")
    case True
    then show ?thesis using less.prems by (simp add: send_loop.simps same_kind_def)
  next
    case False
    obtain q e1 w1 where q: "entry_send env rest e w = (q, e1, w1)" by (metis prod_cases3)
    have k: "same_kind e e1" by (rule entry_send_kind [OF q])
    show ?thesis
    proof (cases "\<exists>n. q = Inr n \<and> n \<noteq> 0")
      case True
      then obtain n where n: "q = Inr n" "n \<noteq> 0" by blast
      have "send_loop (entry_send env) (drop n rest) e1 w1 = (r, e', w')"
        using less.prems q n False by (simp add: send_loop.simps [of _ rest])
      then show ?thesis using less.hyps [of "drop n rest" e1 w1] n False k same_kind_trans by auto
    next
      case stop: False
      then have "e' = e1" using less.prems q False by (auto simp: send_loop.simps [of _ rest] split: sum.splits)
      then show ?thesis using k by simp
    qed
  qed
qed

lemma receive_loop_kind_aux:
  "receive_loop env p buf e w = Some res \<Longrightarrow> same_kind e (fst (snd res))"
proof (rule receive_loop.raw_induct [where P = "\<lambda>env p buf e w res. same_kind e (fst (snd res))"])
  fix f and env :: "'w env" and p buf e w and res :: "byte_buffer http_response result \<times> pool_entry \<times> 'w"
  assume IH: "\<And>env p buf e w res. f env p buf e w = Some res \<Longrightarrow> same_kind e (fst (snd res))"
    and eq: "(if hp_state p = St_complete \<or> hp_state p = St_error then Some (received_response p, e, w)
      else case entry_receive env (bb_available buf) e w of
             ((Inl err, data), e1, w1) \<Rightarrow>
               Some (if hp_state p = St_complete then received_response p else Inl err, e1, w1)
           | ((Inr bytes_received, data), e1, w1) \<Rightarrow>
               if bytes_received = 0
               then Some (if hp_state p = St_complete then received_response p else Inl http_parse_error, e1, w1)
               else (case bb_advance_write bytes_received (bb_store data buf) of
                       None \<Rightarrow> None
                     | Some buf1 \<Rightarrow>
                         (case feed (bb_contents buf1) p of
                            None \<Rightarrow> None
                          | Some (r, p1) \<Rightarrow>
                              if v_has_error r then Some (Inl r, e1, w1)
                              else f env p1 (bb_clear buf1) e1 w1))) = Some res"
  show "same_kind e (fst (snd res))"
  proof (cases "hp_state p = St_complete \<or> hp_state p = St_error")
    case True
    then show ?thesis using eq by (auto simp: same_kind_def)
  next
    case False
    obtain q data e1 w1 where q: "entry_receive env (bb_available buf) e w = ((q, data), e1, w1)"
      by (cases "entry_receive env (bb_available buf) e w") auto
    have k: "same_kind e e1" by (rule entry_receive_kind [OF q])
    have "fst (snd res) = e1 \<or> (\<exists>p1 b1. f env p1 b1 e1 w1 = Some res)"
      using eq False q by (auto split: sum.splits if_splits option.splits)
    then show ?thesis using k IH same_kind_trans [OF k] by metis
  qed
qed

lemma send_and_receive_kind:
  "send_and_receive env req e w = Some (r, e', w') \<Longrightarrow> same_kind e e'"
  using same_kind_trans
  by (fastforce simp: send_and_receive_def send_request_def receive_response_def
      split: option.splits if_splits dest: send_loop_kind receive_loop_kind_aux)

lemma entry_ok_kind: "same_kind e e' \<Longrightarrow> entry_ok k e \<Longrightarrow> entry_ok k e'"
  by (simp add: same_kind_def entry_ok_def)

lemma erase_connection_pool: "fst (erase_connection env k (p, w)) = pool_erase k p"
proof -
  have "pool_erase k p = p" if "pool_find k p = None"
    using that by (auto simp: pool_erase_def pool_find_def map_of_eq_None_iff filter_id_conv)
  then show ?thesis by (auto simp: erase_connection_def split: option.split)
qed

lemma exchange_ok:
  assumes ok: "pool_ok (cl_connections c)" and scheme: "CHR '':'' \<notin> set (request_scheme req)"
    and ex: "exchange env req c w = Some (q, c', w')"
  shows "pool_ok (cl_connections c')
    \<and> (\<forall>resp. q = Inr resp \<longrightarrow> response_framed resp)"
proof -
  let ?k = "pool_key req"
  obtain c1 w1 where cl: "cleanup_idle env c w = (c1, w1)" by fastforce
  have ok1: "pool_ok (cl_connections c1)" using cleanup_idle_pool [OF cl] pool_ok_filter [OF ok] by simp
  obtain g c2 w2 where g: "get_connection env req c1 w1 = (g, c2, w2)" by (metis prod_cases3)
  note gok = get_connection_ok [OF ok1 scheme g]
  show ?thesis
  proof (cases g)
    case (Inl err)
    then show ?thesis using ex cl g gok by (simp add: exchange_def) blast
  next
    case (Inr e)
    have eok: "entry_ok ?k e" using gok Inr by simp
    obtain r e1 w3 where s: "send_and_receive env req e w2 = Some (r, e1, w3)"
      using ex cl g Inr by (auto simp: exchange_def split: option.splits)
    have ok3: "pool_ok (pool_update ?k x (cl_connections c2))" if "same_kind e1 x" for x
      using pool_ok_update entry_ok_kind send_and_receive_kind [OF s] eok gok that by metis
    show ?thesis
    proof (cases r)
      case (Inl err)
      have "cl_connections c' = pool_erase ?k (pool_update ?k e1 (cl_connections c2))" "q = Inl err"
        using ex cl g Inr s Inl erase_connection_pool [of env ?k "pool_update ?k e1 (cl_connections c2)" w3]
        by (auto simp: exchange_def split: prod.splits)
      then show ?thesis using pool_ok_erase [OF ok3 [of e1]] by (simp add: same_kind_def)
    next
      case (Inr resp)
      obtain t w4 where t: "os_now (en_os env) w3 = (t, w4)" by fastforce
      have "cl_connections c' = pool_update ?k (e1\<lparr>pe_last_active := t\<rparr>) (cl_connections c2)" "q = Inr resp"
        using ex cl g \<open>g = Inr e\<close> s Inr t by (auto simp: exchange_def)
      moreover have "response_framed resp"
        using s Inr receive_response_framed
        by (auto simp: send_and_receive_def split: option.splits if_splits)
      ultimately show ?thesis using ok3 [of "e1\<lparr>pe_last_active := t\<rparr>"] by (simp add: same_kind_def)
    qed
  qed
qed

subsection \<open>Destruction\<close>

text \<open>When closing succeeds each descriptor is closed once: the entries that go later find none.\<close>

definition close_fd :: "'w env \<Rightarrow> pool_entry \<Rightarrow> 'w \<Rightarrow> 'w" where
  "close_fd env e w = (if tcp_valid (pe_socket e) then snd (os_close (en_os env) (sk_fd (pe_socket e)) w) else w)"

lemma close_entry_ok:
  assumes "\<And>fd w. fst (os_close (en_os env) fd w) = 0"
  shows "\<exists>e'. close_entry env e w = (e', close_fd env e w) \<and> sk_fd (pe_socket e') = -1 \<and> pe_tls e' = pe_tls e"
proof -
  obtain rc w1 where c: "os_close (en_os env) (sk_fd (pe_socket e)) w = (rc, w1)" by fastforce
  then have "rc = 0" using assms [of "sk_fd (pe_socket e)" w] by simp
  then show ?thesis using c by (simp add: close_entry_def close_fd_def tcp_valid_def tcp_close_def)
qed

lemma client_close_loop_ok:
  assumes "\<And>fd w. fst (os_close (en_os env) fd w) = 0"
  shows "\<exists>p'. client_close_loop env p w = (p', fold (close_fd env) (map snd p) w)
    \<and> map (pe_tls \<circ> snd) p' = map (pe_tls \<circ> snd) p \<and> list_all (\<lambda>kv. sk_fd (pe_socket (snd kv)) = -1) p'"
proof (induction p arbitrary: w)
  case (Cons kv p)
  obtain k e where kv: "kv = (k, e)" by fastforce
  obtain e' where "close_entry env e w = (e', close_fd env e w)" "sk_fd (pe_socket e') = -1" "pe_tls e' = pe_tls e"
    using close_entry_ok [OF assms] by blast
  then show ?case using Cons.IH [of "close_fd env e w"] by (auto simp: kv)
qed simp

lemma http_client_destroy_closes_once:
  assumes "\<And>fd w. fst (os_close (en_os env) fd w) = 0"
  shows "http_client_destroy env c w =
    fold (tls_destroy (en_ssl env)) (map (pe_tls \<circ> snd) (cl_connections c))
      (ssl_ctx_destroy (en_ssl env) (cl_tls_ctx c) (fold (close_fd env) (map snd (cl_connections c)) w))"
proof -
  obtain p where p: "client_close_loop env (cl_connections c) w = (p, fold (close_fd env) (map snd (cl_connections c)) w)"
      "map (pe_tls \<circ> snd) p = map (pe_tls \<circ> snd) (cl_connections c)"
      "list_all (\<lambda>kv. sk_fd (pe_socket (snd kv)) = -1) p"
    using client_close_loop_ok [OF assms] by blast
  have "fold (\<lambda>(k, e). entry_destroy env e) p w1 = fold (tls_destroy (en_ssl env)) (map (pe_tls \<circ> snd) p) w1" for w1
    using p(3) by (induction p arbitrary: w1) (auto simp: entry_destroy_def tcp_destroy_def)
  then show ?thesis by (simp add: http_client_destroy_def p(1) p(2))
qed

subsection \<open>Defaults\<close>

text \<open>The host and port of a request once the defaults are in.\<close>

definition effective_host :: "http_client_config \<Rightarrow> http_request \<Rightarrow> string" where
  "effective_host cfg req =
     (if rq_host req = [] \<and> cc_default_host cfg \<noteq> [] then cc_default_host cfg else rq_host req)"

definition effective_port :: "http_client_config \<Rightarrow> http_request \<Rightarrow> 16 word" where
  "effective_port cfg req = (if rq_port req = 0 then cc_default_port cfg else rq_port req)"

lemma apply_defaults_sel:
  "rq_host (apply_defaults cfg jar req) = effective_host cfg req"
  "rq_port (apply_defaults cfg jar req) = effective_port cfg req"
  "rq_uri (apply_defaults cfg jar req) = rq_uri req" "rq_scheme (apply_defaults cfg jar req) = rq_scheme req"
  "rq_method (apply_defaults cfg jar req) = rq_method req" "rq_body (apply_defaults cfg jar req) = rq_body req"
  by (simp_all add: apply_defaults_def effective_host_def effective_port_def Let_def)

end
