(* ===== verification/Client_Exchange.thy ===== *)
theory Client_Exchange
  imports Http_Client_Facts
begin

text \<open>
  Whole exchanges: what the client makes of a request whose connection is set up, whose bytes the kernel
  takes and whose response the peer delivers, and where it goes from a redirect.
\<close>

text \<open>
  The client gets a connection for the request, the kernel takes the whole of it, and the peer delivers
  these pieces.
\<close>

definition answered :: "'w env \<Rightarrow> http_request \<Rightarrow> 'w http_client \<Rightarrow> 'w \<Rightarrow> byte list list \<Rightarrow> bool" where
  "answered env req c w ds \<longleftrightarrow>
     (\<exists>c1 w1 e c2 w2 e1 w3. cleanup_idle env c w = (c1, w1) \<and> get_connection env req c1 w1 = (Inr e, c2, w2)
        \<and> send_request env req e w2 = Some (ec_ok, e1, w3) \<and> reads env e1 w3 ds)"

subsection \<open>One exchange\<close>

lemma get_connection_entry:
  assumes "get_connection env req c w = (Inr e, c', w')"
  shows "pool_find (pool_key req) (cl_connections c') = Some e \<and> cl_config c' = cl_config c
    \<and> cl_cookies c' = cl_cookies c"
proof -
  let ?k = "pool_key req" and ?tls = "request_scheme req = ''https''"
  define old where "old = (case pool_find ?k (cl_connections c) of
    Some e \<Rightarrow> if entry_usable e then Some e else None | None \<Rightarrow> None)"
  show ?thesis
  proof (cases old)
    case (Some x)
    then show ?thesis using assms by (auto simp: get_connection_def Let_def old_def split: option.splits if_splits)
  next
    case None
    obtain c1 w1 where d: "drop_stale env ?k c w = (c1, w1)" by fastforce
    obtain q c2 w2 where o: "open_connection env ?tls req c1 w1 = (q, c2, w2)" by (metis prod_cases3)
    obtain x where q: "q = Inr x" using assms None d o by (cases q) (auto simp: get_connection_def Let_def old_def)
    have "pool_find ?k (cl_connections c2) = None"
      using drop_stale_frame [OF d] open_connection_frame [OF o] by (simp add: pool_find_erase)
    then show ?thesis
      using assms None d o q drop_stale_frame [OF d] open_connection_frame [OF o]
      by (auto simp: get_connection_def Let_def old_def pool_find_emplace split: prod.splits)
  qed
qed

lemma pool_find_update: "pool_find k (pool_update k e p) = (if pool_find k p = None then None else Some e)"
  by (induction p) (auto simp: pool_find_def pool_update_def)

lemma exchange_answered:
  assumes "answered env req c w (ds @ later)" and "pieces_of code reason hs body ds"
  shows "\<exists>resp c' e w1. exchange env req c w = Some (Inr resp, c', snd (os_now (en_os env) w1))
    \<and> response_is code reason hs body resp
    \<and> cl_config c' = cl_config c \<and> cl_cookies c' = store_cookies (rq_host req) hs (cl_cookies c)
    \<and> pool_find (pool_key req) (cl_connections c') = Some (e\<lparr>pe_last_active := fst (os_now (en_os env) w1)\<rparr>)
    \<and> reads env e w1 later"
proof -
  obtain c1 w1 e0 c2 w2 e1 w3 where a: "cleanup_idle env c w = (c1, w1)"
      "get_connection env req c1 w1 = (Inr e0, c2, w2)"
      "send_request env req e0 w2 = Some (ec_ok, e1, w3)" "reads env e1 w3 (ds @ later)"
    using assms(1) by (auto simp: answered_def)
  obtain resp e w4 where r: "receive_response env e1 w3 = Some (Inr resp, e, w4)"
      "response_is code reason hs body resp" "reads env e w4 later"
    using receive_response_pieces [OF a(4) assms(2)] by blast
  obtain t w5 where t: "os_now (en_os env) w4 = (t, w5)" by fastforce
  have s: "send_and_receive env req e0 w2 = Some (Inr resp, e, w4)"
    using a(3) r(1) by (simp add: send_and_receive_def v_has_error_def)
  define c' where "c' = c2\<lparr>cl_connections := pool_update (pool_key req) (e\<lparr>pe_last_active := t\<rparr>) (cl_connections c2),
         cl_cookies := store_cookies (rq_host req) (rs_headers resp) (cl_cookies c2)\<rparr>"
  have x: "exchange env req c w = Some (Inr resp, c', w5)"
    using a(1,2) t s by (simp add: exchange_def c'_def)
  show ?thesis
    using x t r(2,3) get_connection_entry [OF a(2)] cleanup_idle_pool [OF a(1)]
    by (intro exI [of _ resp] exI [of _ c'] exI [of _ e] exI [of _ w4])
      (simp add: pool_find_update response_is_def c'_def)
qed

subsection \<open>Executions\<close>

lemma response_is_redirect:
  "response_is code reason hs body resp \<Longrightarrow> is_redirect resp \<longleftrightarrow> 300 \<le> code \<and> code < 400"
  by (auto simp: response_is_def is_redirect_def word_le_nat_alt word_less_nat_alt)

lemma execute_answered:
  assumes "answered env (apply_defaults (cl_config c) (cl_cookies c) req) c w (ds @ later)"
    and "pieces_of code reason hs body ds" and "code < 300 \<or> 400 \<le> code"
  shows "\<exists>resp c' w'. do_execute env n req c w = Some (Inr resp, c', w')
    \<and> response_is code reason hs body resp
    \<and> cl_cookies c' = store_cookies (effective_host (cl_config c) req) hs (cl_cookies c)
    \<and> (pool_find (pool_key (apply_defaults (cl_config c) (cl_cookies c) req)) (cl_connections c') \<noteq> None
        \<longleftrightarrow> hdr_connection_keep_alive hs)"
proof -
  let ?req = "apply_defaults (cl_config c) (cl_cookies c) req"
  obtain resp c1 e w1 where x: "exchange env ?req c w = Some (Inr resp, c1, snd (os_now (en_os env) w1))"
      "response_is code reason hs body resp" "cl_cookies c1 = store_cookies (rq_host ?req) hs (cl_cookies c)"
      "pool_find (pool_key ?req) (cl_connections c1) \<noteq> None"
    using exchange_answered [OF assms(1,2)] by blast
  let ?f = "finish_response env (pool_key ?req) resp c1 (snd (os_now (en_os env) w1))"
  have "\<not> is_redirect resp" using response_is_redirect [OF x(2)] assms(3) by auto
  then have d: "do_execute env n req c w = Some ?f" using x(1) by (simp add: do_execute_hop hop_def Let_def)
  have hs: "rs_headers resp = hs" using x(2) by (simp add: response_is_def)
  obtain p w2 where er: "erase_connection env (pool_key ?req) (cl_connections c1, snd (os_now (en_os env) w1)) = (p, w2)"
    by fastforce
  have "p = pool_erase (pool_key ?req) (cl_connections c1)" using erase_connection_pool er by (metis fst_conv)
  then have "\<exists>c' w'. ?f = (Inr resp, c', w') \<and> cl_cookies c' = cl_cookies c1
      \<and> (pool_find (pool_key ?req) (cl_connections c') \<noteq> None \<longleftrightarrow> hdr_connection_keep_alive hs)"
    using er hs x(4) by (auto simp: finish_response_def pool_find_erase)
  then show ?thesis unfolding d using x(2,3) by (auto simp: apply_defaults_sel)
qed

lemma redirect_answered:
  assumes "answered env (apply_defaults (cl_config c) (cl_cookies c) req) c w (ds @ later)"
    and "pieces_of code reason hs body ds" and "300 \<le> code" "code < 400"
    and "cc_follow_redirects (cl_config c)" "0 < n"
    and "hdr_get ''Location'' hs = Some loc"
    and "redirect_target (apply_defaults (cl_config c) (cl_cookies c) req) loc = Some target" "parse_url target = Inr u"
  shows "\<exists>c' w'. do_execute env n req c w =
      do_execute env (n - 1) (redirect_request (apply_defaults (cl_config c) (cl_cookies c) req) (of_nat code) u) c'
        (notify_redirect c' (apply_defaults (cl_config c) (cl_cookies c) req) target (of_nat code) w')
    \<and> cl_config c' = cl_config c
    \<and> cl_cookies c' = store_cookies (effective_host (cl_config c) req) hs (cl_cookies c)"
proof -
  let ?req = "apply_defaults (cl_config c) (cl_cookies c) req"
  obtain resp c1 e w1 where x: "exchange env ?req c w = Some (Inr resp, c1, snd (os_now (en_os env) w1))"
      "response_is code reason hs body resp" "cl_config c1 = cl_config c"
      "cl_cookies c1 = store_cookies (rq_host ?req) hs (cl_cookies c)"
    using exchange_answered [OF assms(1,2)] by blast
  have r: "is_redirect resp" "rs_headers resp = hs" "rs_status_code resp = of_nat code"
    using response_is_redirect [OF x(2)] assms(3,4) x(2) by (auto simp: response_is_def)
  have "do_execute env n req c w = do_execute env (n - 1) (redirect_request ?req (of_nat code) u) c1
      (notify_redirect c1 ?req target (of_nat code) (snd (os_now (en_os env) w1)))"
    using x(1,3) r assms(5-9) by (subst do_execute_hop) (simp add: hop_def Let_def)
  then show ?thesis using x(3,4) by (auto simp: apply_defaults_sel)
qed

end
