(* ===== verification/Demo_World.thy ===== *)
theory Demo_World
  imports Client_Exchange
begin

text \<open>
  A concrete outside world: a peer that delivers a script of pieces and records what it is sent, a
  kernel that accepts at most sixteen bytes at a time, and an OpenSSL that protects nothing. It meets
  the contracts of the interfaces, and the properties are evaluated on it.
\<close>

record net =
  nt_tx :: "byte list"
  nt_rx :: "byte list list"
  nt_next_fd :: int
  nt_time :: int

definition net_script :: "byte list list \<Rightarrow> net" where
  "net_script ds = \<lparr>nt_tx = [], nt_rx = ds, nt_next_fd = 3, nt_time = 0\<rparr>"

definition demo_send :: "byte list \<Rightarrow> net \<Rightarrow> nat \<times> net" where
  "demo_send ds w = (min 16 (length ds), w\<lparr>nt_tx := nt_tx w @ take 16 ds\<rparr>)"

definition demo_recv :: "net \<Rightarrow> byte list \<times> net" where
  "demo_recv w = (case nt_rx w of [] \<Rightarrow> ([], w) | d # ds \<Rightarrow> (d, w\<lparr>nt_rx := ds\<rparr>))"

definition demo_os :: "net os_api" where
  "demo_os =
     \<lparr>os_socket = \<lambda>w. (nt_next_fd w, w\<lparr>nt_next_fd := nt_next_fd w + 1\<rparr>),
      os_close = \<lambda>fd w. (0, w),
      os_connect = \<lambda>fd a w. ((0, E_other), w),
      os_send = \<lambda>fd ds w. (case demo_send ds w of (n, w') \<Rightarrow> ((int n, E_other), w')),
      os_recv = \<lambda>fd room w. (case demo_recv w of (d, w') \<Rightarrow> ((int (length d), E_other, d), w')),
      os_shutdown = \<lambda>fd how w. ((0, E_other), w),
      os_getfl = \<lambda>fd w. (0, w),
      os_setfl = \<lambda>fd fl w. (0, w),
      os_setsockopt = \<lambda>fd opt b w. (0, w),
      os_getsockname = \<lambda>fd w. ((0, AF_other), w),
      os_getpeername = \<lambda>fd w. ((0, AF_other), w),
      os_getaddrinfo = \<lambda>host port w. ((0, [AF_inet \<lparr>sin_port = htons 80, sin_addr = [127, 0, 0, 1]\<rparr>]), w),
      os_now = \<lambda>w. (nt_time w, w\<lparr>nt_time := nt_time w + 1\<rparr>)\<rparr>"

definition demo_ssl :: "net ssl_api" where
  "demo_ssl =
     \<lparr>ssl_ctx_new = \<lambda>w. (Some 1, w),
      ssl_ctx_free = \<lambda>c w. w,
      ssl_ctx_load_verify_locations = \<lambda>c p w. (1, w),
      ssl_ctx_set_default_verify_paths = \<lambda>c w. (1, w),
      ssl_ctx_get_verify_mode = \<lambda>c w. (0, w),
      ssl_ctx_set_verify = \<lambda>c m w. w,
      ssl_new = \<lambda>c w. (Some 2, w),
      ssl_free = \<lambda>h w. w,
      ssl_set_fd = \<lambda>h fd w. (1, w),
      ssl_set1_host = \<lambda>h n w. w,
      ssl_set_tlsext_host_name = \<lambda>h n w. w,
      ssl_connect = \<lambda>h w. (1, w),
      ssl_get_error = \<lambda>h r w. (SSL_ERROR_other, w),
      ssl_read = \<lambda>h room w. (case demo_recv w of (d, w') \<Rightarrow> ((int (length d), d), w')),
      ssl_write = \<lambda>h ds len w. (if len = int (length ds) then (case demo_send ds w of (n, w') \<Rightarrow> (int n, w')) else (-1, w)),
      ssl_shutdown = \<lambda>h w. (1, w)\<rparr>"

definition demo_env :: "net env" where
  "demo_env = \<lparr>en_os = demo_os, en_ssl = demo_ssl\<rparr>"

interpretation demo: client_stream demo_env nt_tx
proof (unfold_locales, goal_cases)
  case (1 fd ds w n err w')
  then show ?case by (auto simp: demo_env_def demo_os_def demo_send_def min_def)
next
  case (2 w)
  then show ?case by (simp add: demo_env_def demo_os_def)
next
  case (3 h ds len w n w')
  then show ?case by (auto simp: demo_env_def demo_ssl_def demo_send_def min_def intro: exI [of _ 0] split: if_splits)
next
  case (4 h ret w)
  then show ?case by (simp add: demo_env_def demo_ssl_def)
qed

definition demo_entry :: pool_entry where
  "demo_entry = pool_entry_new (tcp_invalid\<lparr>sk_fd := 3, sk_state := Connected\<rparr>)"

text \<open>The peer of the plain connection delivers its script.\<close>

lemma demo_reads:
  "list_all (\<lambda>d. d \<noteq> [] \<and> length d \<le> recv_buf_size) (nt_rx w) \<Longrightarrow> pe_is_tls e = False \<Longrightarrow>
   sk_state (pe_socket e) = Connected \<Longrightarrow> reads demo_env e w (nt_rx w)"
proof (induction "nt_rx w" arbitrary: e w)
  case Nil
  show ?case unfolding Nil.hyps [symmetric] by (rule reads_none)
next
  case (Cons d ds)
  let ?w = "w\<lparr>nt_rx := ds, nt_time := nt_time w + 1\<rparr>"
  obtain e1 where r: "entry_receive demo_env recv_buf_size e w = ((Inr (length d), d), e1, ?w)"
      "pe_is_tls e1 = False" "sk_state (pe_socket e1) = Connected"
    using Cons.prems Cons.hyps(2) [symmetric]
    by (cases d) (auto simp: entry_receive_def tcp_receive_def demo_env_def demo_os_def demo_recv_def)
  have "reads demo_env e1 ?w (nt_rx ?w)"
    using Cons.hyps(1) [of ?w e1] Cons.prems Cons.hyps(2) [symmetric] r by simp
  then have "reads demo_env e w (d # ds)"
    using Cons.prems Cons.hyps(2) [symmetric] by (intro reads_more [OF r(1)]) simp_all
  then show ?case using Cons.hyps(2) by simp
qed

text \<open>Its kernel takes every request, and a fresh client gets the answer the script holds.\<close>

lemma demo_send_loop:
  "pe_is_tls e = False \<Longrightarrow> sk_state (pe_socket e) = Connected \<Longrightarrow>
   \<exists>e' w'. send_loop (entry_send demo_env) rest e w = (ec_ok, e', w') \<and> nt_rx w' = nt_rx w
     \<and> pe_is_tls e' = False \<and> sk_state (pe_socket e') = Connected"
proof (induction "length rest" arbitrary: rest e w rule: less_induct)
  case less
  show ?case
  proof (cases "rest = []")
    case True
    then show ?thesis using less.prems by (simp add: send_loop.simps make_result_void_def)
  next
    case False
    obtain e1 w1 where s: "entry_send demo_env rest e w = (Inr (min 16 (length rest)), e1, w1)" "nt_rx w1 = nt_rx w"
        "pe_is_tls e1 = False" "sk_state (pe_socket e1) = Connected"
      using less.prems by (simp add: entry_send_def tcp_send_def demo_env_def demo_os_def demo_send_def)
    have "length (drop (min 16 (length rest)) rest) < length rest" using False by simp
    then show ?thesis
      using less.hyps [of "drop (min 16 (length rest)) rest" e1 w1] s False
      by (simp add: send_loop.simps [of _ rest])
  qed
qed

lemma demo_answered:
  assumes "list_all (\<lambda>d. d \<noteq> [] \<and> length d \<le> recv_buf_size) ds" and "cl_connections c = []"
    and "request_scheme req \<noteq> ''https''" and "bb_wf (rq_body req)"
  shows "answered demo_env req c (net_script ds) ds"
proof -
  obtain e c2 w2 where g: "get_connection demo_env req c (net_script ds\<lparr>nt_time := 1\<rparr>) = (Inr e, c2, w2)"
      "nt_rx w2 = ds" "pe_is_tls e = False" "sk_state (pe_socket e) = Connected"
    using assms(2,3)
    by (simp add: get_connection_def pool_find_def Let_def drop_stale_def open_connection_def tcp_create_def
        tcp_set_options_def tcp_connect_def resolve_address_def pool_entry_new_def tcp_invalid_def
        vresult_defs demo_env_def demo_os_def net_script_def)
  obtain b where b: "serialize req = Some b" using serialize_view [OF assms(4)] by blast
  obtain e1 w3 where s: "send_loop (entry_send demo_env) (bb_contents b) e w2 = (ec_ok, e1, w3)" "nt_rx w3 = ds"
      "pe_is_tls e1 = False" "sk_state (pe_socket e1) = Connected"
    using demo_send_loop [OF g(3,4), of "bb_contents b" w2] g(2) by auto
  have "cleanup_idle demo_env c (net_script ds) = (c, net_script ds\<lparr>nt_time := 1\<rparr>)"
    using assms(2) by (simp add: cleanup_idle_def demo_env_def demo_os_def net_script_def)
  moreover have "send_request demo_env req e w2 = Some (ec_ok, e1, w3)" using b s(1) by (simp add: send_request_def)
  moreover have "reads demo_env e1 w3 ds" using demo_reads [of w3 e1] assms(1) s by simp
  ultimately show ?thesis unfolding answered_def using g(1) by blast
qed

end
