(* ===== verification/Client_Claims.thy ===== *)
theory Client_Claims
  imports Client_Exchange Demo_World
begin

text \<open>
  The properties of the client: request defaults, cookies, URLs, sending, receiving, redirects and the
  connection pool.
\<close>

subsection \<open>Looking up the headers of a request\<close>

text \<open>The names the client sets or drops are different names.\<close>

lemma client_header_names:
  "\<not> iequal ''Host'' ''Connection''" "\<not> iequal ''Host'' ''Content-Length''"
  "\<not> iequal ''Host'' ''User-Agent''" "\<not> iequal ''Host'' ''Accept''"
  "\<not> iequal ''Host'' ''Cookie''" "\<not> iequal ''Host'' ''Authorization''"
  "\<not> iequal ''Host'' ''Proxy-Authorization''" "\<not> iequal ''Connection'' ''Host''"
  "\<not> iequal ''Connection'' ''Content-Length''" "\<not> iequal ''Connection'' ''User-Agent''"
  "\<not> iequal ''Connection'' ''Accept''" "\<not> iequal ''Connection'' ''Cookie''"
  "\<not> iequal ''Connection'' ''Authorization''" "\<not> iequal ''Connection'' ''Proxy-Authorization''"
  "\<not> iequal ''Content-Length'' ''Host''" "\<not> iequal ''Content-Length'' ''Connection''"
  "\<not> iequal ''Content-Length'' ''User-Agent''" "\<not> iequal ''Content-Length'' ''Accept''"
  "\<not> iequal ''Content-Length'' ''Cookie''" "\<not> iequal ''Content-Length'' ''Authorization''"
  "\<not> iequal ''Content-Length'' ''Proxy-Authorization''" "\<not> iequal ''User-Agent'' ''Host''"
  "\<not> iequal ''User-Agent'' ''Connection''" "\<not> iequal ''User-Agent'' ''Content-Length''"
  "\<not> iequal ''User-Agent'' ''Accept''" "\<not> iequal ''User-Agent'' ''Cookie''"
  "\<not> iequal ''User-Agent'' ''Authorization''" "\<not> iequal ''User-Agent'' ''Proxy-Authorization''"
  "\<not> iequal ''Accept'' ''Host''" "\<not> iequal ''Accept'' ''Connection''"
  "\<not> iequal ''Accept'' ''Content-Length''" "\<not> iequal ''Accept'' ''User-Agent''"
  "\<not> iequal ''Accept'' ''Cookie''" "\<not> iequal ''Accept'' ''Authorization''"
  "\<not> iequal ''Accept'' ''Proxy-Authorization''" "\<not> iequal ''Cookie'' ''Host''"
  "\<not> iequal ''Cookie'' ''Connection''" "\<not> iequal ''Cookie'' ''Content-Length''"
  "\<not> iequal ''Cookie'' ''User-Agent''" "\<not> iequal ''Cookie'' ''Accept''"
  "\<not> iequal ''Cookie'' ''Authorization''" "\<not> iequal ''Cookie'' ''Proxy-Authorization''"
  "\<not> iequal ''Authorization'' ''Host''" "\<not> iequal ''Authorization'' ''Connection''"
  "\<not> iequal ''Authorization'' ''Content-Length''" "\<not> iequal ''Authorization'' ''User-Agent''"
  "\<not> iequal ''Authorization'' ''Accept''" "\<not> iequal ''Authorization'' ''Cookie''"
  "\<not> iequal ''Authorization'' ''Proxy-Authorization''" "\<not> iequal ''Proxy-Authorization'' ''Host''"
  "\<not> iequal ''Proxy-Authorization'' ''Connection''" "\<not> iequal ''Proxy-Authorization'' ''Content-Length''"
  "\<not> iequal ''Proxy-Authorization'' ''User-Agent''" "\<not> iequal ''Proxy-Authorization'' ''Accept''"
  "\<not> iequal ''Proxy-Authorization'' ''Cookie''" "\<not> iequal ''Proxy-Authorization'' ''Authorization''"
  by code_simp+

lemma hdr_get_default:
  "hdr_get n (hdr_default m v hs) = (if iequal n m \<and> hdr_get m hs = None then Some v else hdr_get n hs)"
  unfolding hdr_default_def by (rule hs.look_default)

lemma hdr_get_filter_names:
  assumes "\<And>a b. iequal a b \<Longrightarrow> P a = P b"
  shows "hdr_get n (filter (\<lambda>f. \<not> P (hf_name f)) hs) = (if P n then None else hdr_get n hs)"
proof (induction hs)
  case (Cons f fs)
  then show ?case using assms [of "hf_name f" n] by auto
qed simp

lemma redirect_skips_cong: "iequal a b \<Longrightarrow> redirect_skips cross a = redirect_skips cross b"
  using iequal_cong [of a b] by (simp add: redirect_skips_def)

lemma redirect_request_get:
  "hdr_get n (rq_headers (redirect_request req status u)) =
     (if redirect_skips (pu_host u \<noteq> rq_host req) n then None else hdr_get n (rq_headers req))"
  unfolding redirect_request_def Let_def
  by (simp add: hdr_get_filter_names [of "redirect_skips (pu_host u \<noteq> rq_host req)"] redirect_skips_cong)

lemma redirect_request_sel [simp]:
  "rq_host (redirect_request req status u) = pu_host u" "rq_port (redirect_request req status u) = pu_port u"
  "rq_uri (redirect_request req status u) = pu_path u" "rq_scheme (redirect_request req status u) = pu_scheme u"
  "rq_method (redirect_request req status u) = (if status = 307 \<or> status = 308 then rq_method req else Method_get)"
  "bb_size (rq_body (redirect_request req status u)) = 0"
  by (simp_all add: redirect_request_def Let_def bb_default_def bb_new_def bb_size_def)

lemma redirect_skips_names:
  "redirect_skips cross ''Host''" "redirect_skips cross ''Content-Length''" "redirect_skips cross ''Cookie''"
  "redirect_skips cross ''Authorization'' = cross" "redirect_skips cross ''Proxy-Authorization'' = cross"
  by (simp_all add: redirect_skips_def client_header_names)

lemma apply_defaults_get:
  "hdr_get n (rq_headers (apply_defaults cfg jar req)) =
     (let cookie = build_cookie_header (effective_host cfg req) (rq_uri req) jar;
          given = hdr_get n (rq_headers req)
      in if cookie \<noteq> [] \<and> iequal n ''Cookie'' then Some cookie
         else case given of
                Some v \<Rightarrow> Some v
              | None \<Rightarrow>
                  if iequal n ''Host'' then Some (host_value (effective_host cfg req) (effective_port cfg req))
                  else if iequal n ''Connection'' then Some (if cc_keep_alive cfg then ''keep-alive'' else ''close'')
                  else if iequal n ''Content-Length'' \<and> bb_size (rq_body req) > 0 then Some (to_string (bb_size (rq_body req)))
                  else if iequal n ''User-Agent'' then Some ''vynx_http/0.1''
                  else if iequal n ''Accept'' then Some ''*/*''
                  else None)"
proof -
  have congs: "iequal n c = iequal m c" "hdr_get n h = hdr_get m h" if "iequal n m" for m c h
    using iequal_cong [OF that] hdr_get_cong [OF that] by auto
  note defs = apply_defaults_def effective_host_def effective_port_def Let_def hdr_get_set hdr_get_default
    client_header_names
  consider "iequal n ''Host''" | "iequal n ''Connection''" | "iequal n ''Content-Length''" | "iequal n ''User-Agent''"
    | "iequal n ''Accept''" | "iequal n ''Cookie''"
    | "\<not> iequal n ''Host''" "\<not> iequal n ''Connection''" "\<not> iequal n ''Content-Length''" "\<not> iequal n ''User-Agent''"
      "\<not> iequal n ''Accept''" "\<not> iequal n ''Cookie''" by blast
  then show ?thesis
  proof cases
    case 1
    show ?thesis unfolding congs [OF 1] by (simp add: defs split: option.split)
  next
    case 2
    show ?thesis unfolding congs [OF 2] by (simp add: defs split: option.split)
  next
    case 3
    show ?thesis unfolding congs [OF 3] by (simp add: defs split: option.split)
  next
    case 4
    show ?thesis unfolding congs [OF 4] by (simp add: defs split: option.split)
  next
    case 5
    show ?thesis unfolding congs [OF 5] by (simp add: defs split: option.split)
  next
    case 6
    show ?thesis unfolding congs [OF 6] by (simp add: defs split: option.split)
  next
    case 7
    then show ?thesis by (simp add: defs split: option.split)
  qed
qed

lemma names_in_defaults:
  "\<not> iequal ''Authorization'' ''Host''" "\<not> iequal ''Proxy-Authorization'' ''Host''"
  using client_header_names by simp_all

subsection \<open>Requests\<close>

text \<open>The defaults fill in and never override: of the headers a request is sent with, the user's
  own value stays for every name but \<open>Cookie\<close>, a missing \<open>Host\<close> names the host and any port other than
  80 and 443, a missing \<open>Content-Length\<close> gives the size of a non-empty body, and the cookies of the
  jar that match replace a \<open>Cookie\<close> header.\<close>

theorem apply_defaults_headers:
  "hdr_get ''Host'' (rq_headers (apply_defaults cfg jar req)) =
     Some (case hdr_get ''Host'' (rq_headers req) of Some v \<Rightarrow> v
           | None \<Rightarrow> host_value (effective_host cfg req) (effective_port cfg req))
   \<and> hdr_get ''Content-Length'' (rq_headers (apply_defaults cfg jar req)) =
       (if bb_size (rq_body req) > 0 \<and> hdr_get ''Content-Length'' (rq_headers req) = None
        then Some (to_string (bb_size (rq_body req))) else hdr_get ''Content-Length'' (rq_headers req))
   \<and> hdr_get ''Cookie'' (rq_headers (apply_defaults cfg jar req)) =
       (if build_cookie_header (effective_host cfg req) (rq_uri req) jar \<noteq> []
        then Some (build_cookie_header (effective_host cfg req) (rq_uri req) jar)
        else hdr_get ''Cookie'' (rq_headers req))
   \<and> (hdr_get n (rq_headers req) = Some v \<and> \<not> iequal n ''Cookie'' \<longrightarrow> hdr_get n (rq_headers (apply_defaults cfg jar req)) = Some v)"
  by (simp add: apply_defaults_get Let_def client_header_names split: option.split)

theorem apply_defaults_headers_witness:
  "hdr_get ''Host'' (rq_headers (apply_defaults client_config_default []
      (http_request_default\<lparr>rq_host := ''a'', rq_headers := [\<lparr>hf_name = ''X'', hf_value = ''y''\<rparr>]\<rparr>))) = Some ''a''
   \<and> hdr_get ''x'' (rq_headers (apply_defaults client_config_default []
      (http_request_default\<lparr>rq_host := ''a'', rq_headers := [\<lparr>hf_name = ''X'', hf_value = ''y''\<rparr>]\<rparr>))) = Some ''y''"
proof -
  let ?hs = "[\<lparr>hf_name = ''X'', hf_value = ''y''\<rparr>]"
  have g: "hdr_get ''x'' ?hs = Some ''y''" "hdr_get ''Host'' ?hs = None" "\<not> iequal ''x'' ''Cookie''"
    by code_simp+
  show ?thesis
    using apply_defaults_headers [of client_config_default "[]"
        "http_request_default\<lparr>rq_host := ''a'', rq_headers := ?hs\<rparr>" "''x''" "''y''"] g
    by (simp add: effective_host_def effective_port_def host_value_def http_request_default_def)
qed

text \<open>C14: Whatever the connection, TCP or TLS, and however the kernel cuts the writes, \<open>send_request\<close>
  puts a front of the serialised request on the wire and nothing else, and all of it when it reports success;
  over TCP exactly then (a TLS write that fails may have sent all of what it was offered).\<close>

theorem send_request_wire:
  assumes "client_stream env tx" and "bb_wf (rq_body req)" and "send_request env req e w = Some (r, e', w')"
  shows "\<exists>out unsent. (if uri_single_line req then request_text req else []) = out @ unsent
    \<and> tx w' = tx w @ out \<and> (r = ec_ok \<longrightarrow> unsent = [])
    \<and> (\<not> (pe_is_tls e \<and> pe_tls_handshake_done e) \<and> unsent = [] \<longrightarrow> r = ec_ok)"
  using client_stream.send_request_prefix [OF assms] .

theorem send_request_wire_witness:
  "\<exists>r e' w'. send_request demo_env (http_request_default\<lparr>rq_uri := ''/x''\<rparr>) demo_entry (net_script []) = Some (r, e', w')
    \<and> (\<exists>out unsent. request_text (http_request_default\<lparr>rq_uri := ''/x''\<rparr>) = out @ unsent
        \<and> nt_tx w' = nt_tx (net_script []) @ out \<and> (r = ec_ok \<longleftrightarrow> unsent = []))"
proof -
  let ?r = "http_request_default\<lparr>rq_uri := ''/x''\<rparr>"
  have wf: "bb_wf (rq_body ?r)" by (simp add: http_request_default_def)
  obtain r e' w' where s: "send_request demo_env ?r demo_entry (net_script []) = Some (r, e', w')"
    using send_request_total [OF wf, of demo_env demo_entry "net_script []"] by auto
  have "uri_single_line ?r" by (simp add: uri_single_line_def)
  then show ?thesis
    using send_request_wire [OF demo.client_stream_axioms wf s] s by (auto simp: demo_entry_def pool_entry_new_def)
qed

subsection \<open>Responses\<close>

text \<open>C5: A response that the peer delivers whole, with a \<open>Content-Length\<close> in any cut the parser allows or
  in chunks as one read, is returned by \<open>receive_response\<close> as it was rendered, and what the peer delivers
  after it is left unread.\<close>

theorem receive_response_rendered:
  assumes "reads env e w (ds @ later)" and "pieces_of code reason hs body ds"
  shows "\<exists>resp e' w'. receive_response env e w = Some (Inr resp, e', w') \<and> response_is code reason hs body resp
    \<and> reads env e' w' later"
  using receive_response_pieces [OF assms] .

theorem receive_response_rendered_witness:
  "\<exists>resp e' w'. receive_response demo_env demo_entry
      (net_script [response_head 200 ''OK'' sample_headers @ ''hi'', ''junk'']) = Some (Inr resp, e', w')
    \<and> response_is 200 ''OK'' sample_headers ''hi'' resp \<and> reads demo_env e' w' [''junk'']"
proof (rule receive_response_rendered)
  let ?d = "response_head 200 ''OK'' sample_headers @ ''hi''"
  have "length ?d \<le> recv_buf_size \<and> ?d \<noteq> []" by code_simp
  then show "reads demo_env demo_entry (net_script [?d, ''junk'']) ([?d] @ [''junk''])"
    using demo_reads [of "net_script [?d, ''junk'']" demo_entry]
    by (simp add: net_script_def demo_entry_def pool_entry_new_def recv_buf_size_def)
  show "pieces_of 200 ''OK'' sample_headers ''hi'' [?d]" by (simp add: pieces_of_def sample_headers_ok)
qed

text \<open>C24: Whatever the peer sends, a response that \<open>receive_response\<close> returns has a status from 100 to
  599 and is either chunked or exactly as long as its \<open>Content-Length\<close>: a response framed by the end of
  the stream alone is never returned.\<close>

theorem receive_response_framed_only:
  assumes "receive_response env e w = Some (Inr resp, e', w')"
  shows "100 \<le> unat (rs_status_code resp) \<and> unat (rs_status_code resp) \<le> 599
    \<and> (resp_is_chunked resp \<or> resp_content_length resp = Some (length (bb_contents (rs_body resp))))"
  using receive_response_framed [OF assms] by (simp add: response_framed_def status_ok_def)

theorem receive_response_framed_only_witness:
  "\<exists>resp. 100 \<le> unat (rs_status_code (resp :: byte_buffer http_response)) \<and> unat (rs_status_code resp) \<le> 599
    \<and> (resp_is_chunked resp \<or> resp_content_length resp = Some (length (bb_contents (rs_body resp))))"
proof -
  let ?d = "response_head 200 ''OK'' sample_headers @ ''hi''"
  have "length ?d \<le> recv_buf_size \<and> ?d \<noteq> []" by code_simp
  then have r: "reads demo_env demo_entry (net_script [?d]) [?d]"
    using demo_reads [of "net_script [?d]" demo_entry]
    by (simp add: net_script_def demo_entry_def pool_entry_new_def)
  obtain resp e' w' where "receive_response demo_env demo_entry (net_script [?d]) = Some (Inr resp, e', w')"
    using receive_response_pieces [of demo_env demo_entry "net_script [?d]" "[?d]" "[]" 200 "''OK''" sample_headers "''hi''"] r
    by (auto simp: pieces_of_def sample_headers_ok)
  from receive_response_framed_only [OF this] show ?thesis by blast
qed

text \<open>C6: A request that is answered, by a response that is no redirect, is executed to exactly that response;
  its cookies go to the jar under the host of the request, and the connection stays in the pool if and only
  if the response keeps it alive.\<close>

theorem execute_returns_answer:
  assumes "answered env (apply_defaults (cl_config c) (cl_cookies c) req) c w (ds @ later)"
    and "pieces_of code reason hs body ds" and "code < 300 \<or> 400 \<le> code"
  shows "\<exists>resp c' w'. execute env req c w = Some (Inr resp, c', w')
    \<and> response_is code reason hs body resp
    \<and> cl_cookies c' = store_cookies (effective_host (cl_config c) req) hs (cl_cookies c)
    \<and> (pool_find (pool_key (apply_defaults (cl_config c) (cl_cookies c) req)) (cl_connections c') \<noteq> None
        \<longleftrightarrow> hdr_connection_keep_alive hs)"
  unfolding execute_def by (rule execute_answered [OF assms])

lemma demo_request:
  assumes "list_all (\<lambda>d. d \<noteq> [] \<and> length d \<le> recv_buf_size) ds"
  shows "answered demo_env (apply_defaults (cl_config (http_client_new client_config_default :: net http_client))
      (cl_cookies (http_client_new client_config_default :: net http_client)) http_request_default)
    (http_client_new client_config_default) (net_script ds) ds"
  by (rule demo_answered [OF assms])
    (simp_all add: http_client_new_def request_scheme_def apply_defaults_sel effective_port_def http_request_default_def)

theorem execute_returns_answer_witness:
  "\<exists>resp c' w'. execute demo_env http_request_default (http_client_new client_config_default)
      (net_script [response_head 200 ''OK'' sample_headers @ ''hi'']) = Some (Inr resp, (c' :: net http_client), w')
    \<and> response_is 200 ''OK'' sample_headers ''hi'' resp"
proof -
  let ?d = "response_head 200 ''OK'' sample_headers @ ''hi''"
  have "length ?d \<le> recv_buf_size \<and> ?d \<noteq> []" by code_simp
  then have a: "list_all (\<lambda>d. d \<noteq> [] \<and> length d \<le> recv_buf_size) ([?d] @ [])" by simp
  have "pieces_of 200 ''OK'' sample_headers ''hi'' [?d]" by (simp add: pieces_of_def sample_headers_ok)
  from execute_returns_answer [OF demo_request [OF a] this] show ?thesis by auto
qed

subsection \<open>Redirects\<close>

text \<open>C16: An execution that returns is a chain of at most one request more than the redirect budget:
  the first is the request given, each later one is made by the redirect rule from the one before, and
  the result is that of the last.\<close>

theorem redirects_bounded:
  assumes "do_execute env n req c w = Some out"
  shows "\<exists>reqs. runs env n req c w reqs out \<and> length reqs \<le> n + 1
    \<and> hd reqs = apply_defaults (cl_config c) (cl_cookies c) req
    \<and> (\<forall>xs a b ys. reqs = xs @ a # b # ys \<longrightarrow> follows a b)"
  using do_execute_runs [OF assms] runs_length runs_follows by metis

theorem redirects_bounded_witness:
  "\<exists>out reqs. runs demo_env 10 http_request_default (http_client_new client_config_default)
      ((net_script [])\<lparr>nt_next_fd := -1\<rparr>) reqs (out :: _ \<times> net http_client \<times> net) \<and> length reqs \<le> 11"
proof -
  let ?w = "(net_script [])\<lparr>nt_next_fd := -1\<rparr>"
  have "do_execute demo_env 10 http_request_default
      (http_client_new client_config_default :: net http_client) ?w \<noteq> None"
    by (subst do_execute.simps)
      (simp add: exchange_def cleanup_idle_def http_client_new_def get_connection_def pool_find_def Let_def
        drop_stale_def open_connection_def tcp_create_def demo_env_def demo_os_def net_script_def)
  then obtain out where x: "do_execute demo_env 10 http_request_default
      (http_client_new client_config_default :: net http_client) ?w = Some out" by blast
  obtain reqs where "runs demo_env 10 http_request_default (http_client_new client_config_default) ?w reqs out"
      "length reqs \<le> 10 + 1"
    using redirects_bounded [OF x] by blast
  then show ?thesis by (intro exI [of _ out] exI [of _ reqs]) simp
qed

text \<open>C8: A redirected request takes over no credential of another host: it never repeats the \<open>Host\<close>,
  \<open>Content-Length\<close> or \<open>Cookie\<close> header of the request before, it has an \<open>Authorization\<close> or
  \<open>Proxy-Authorization\<close> header only when the host is the same, it has no body, and its method is \<open>GET\<close>
  or that of the request before.\<close>

theorem redirect_drops_credentials:
  assumes "follows a b"
  shows "(rq_host b \<noteq> rq_host a \<longrightarrow>
      hdr_get ''Authorization'' (rq_headers b) = None \<and> hdr_get ''Proxy-Authorization'' (rq_headers b) = None)
    \<and> hdr_get ''Host'' (rq_headers b) = Some (host_value (rq_host b) (rq_port b))
    \<and> hdr_get ''Content-Length'' (rq_headers b) = None \<and> bb_size (rq_body b) = 0
    \<and> (\<exists>jar. hdr_get ''Cookie'' (rq_headers b) =
         (if build_cookie_header (rq_host b) (rq_uri b) jar = [] then None
          else Some (build_cookie_header (rq_host b) (rq_uri b) jar)))
    \<and> (rq_method b = Method_get \<or> rq_method b = rq_method a)"
proof -
  obtain status u cfg jar where u: "url_ok u" and b: "b = apply_defaults cfg jar (redirect_request a status u)"
    using assms by (auto simp: follows_def)
  have h: "effective_host cfg (redirect_request a status u) = pu_host u"
    "effective_port cfg (redirect_request a status u) = pu_port u"
    using u by (simp_all add: effective_host_def effective_port_def url_ok_def)
  have f: "hdr_get ''Host'' (rq_headers b) = Some (host_value (rq_host b) (rq_port b))"
    "hdr_get ''Content-Length'' (rq_headers b) = None" "bb_size (rq_body b) = 0"
    "rq_method b = Method_get \<or> rq_method b = rq_method a"
    by (simp_all add: b apply_defaults_get apply_defaults_sel h redirect_request_get redirect_skips_names
        client_header_names)
  have c: "hdr_get ''Cookie'' (rq_headers b) =
      (if build_cookie_header (rq_host b) (rq_uri b) jar = [] then None
       else Some (build_cookie_header (rq_host b) (rq_uri b) jar))"
    by (simp add: b apply_defaults_get apply_defaults_sel h redirect_request_get redirect_skips_names
        client_header_names)
  have "rq_host b \<noteq> rq_host a \<longrightarrow>
      hdr_get ''Authorization'' (rq_headers b) = None \<and> hdr_get ''Proxy-Authorization'' (rq_headers b) = None"
    by (simp add: b apply_defaults_get apply_defaults_sel h redirect_request_get redirect_skips_names
        client_header_names)
  then show ?thesis using f c by blast
qed

definition sample_url :: parsed_url where
  "sample_url = \<lparr>pu_scheme = ''http'', pu_host = ''b'', pu_port = 80, pu_path = ''/''\<rparr>"

theorem redirect_drops_credentials_witness:
  "\<exists>(a :: http_request) (b :: http_request). hdr_get ''Authorization'' (rq_headers a) = Some ''secret'' \<and> rq_host b \<noteq> rq_host a
    \<and> hdr_get ''Authorization'' (rq_headers b) = None"
proof -
  let ?a = "http_request_default\<lparr>rq_host := ''a'', rq_headers := [\<lparr>hf_name = ''Authorization'', hf_value = ''secret''\<rparr>]\<rparr>"
  let ?b = "apply_defaults client_config_default [] (redirect_request ?a 302 sample_url)"
  have "url_ok sample_url" by (simp add: url_ok_def sample_url_def)
  then have f: "follows ?a ?b" unfolding follows_def by blast
  have "rq_host ?b \<noteq> rq_host ?a"
    by (simp add: apply_defaults_sel effective_host_def sample_url_def)
  moreover have "hdr_get ''Authorization'' (rq_headers ?a) = Some ''secret''" by simp
  ultimately show ?thesis using redirect_drops_credentials [OF f] by blast
qed

text \<open>C7: A request that is answered by a redirect to a URL the client accepts goes on, while the budget lasts,
  as the execution of the redirected request with one redirect less: with the cookies of the redirect in
  the jar, after the callback was told, on the client the first exchange left.\<close>

theorem redirect_is_followed:
  assumes "answered env (apply_defaults (cl_config c) (cl_cookies c) req) c w (ds @ later)"
    and "pieces_of code reason hs body ds" and "300 \<le> code" "code < 400"
    and "cc_follow_redirects (cl_config c)" "0 < n"
    and "hdr_get ''Location'' hs = Some loc"
    and "redirect_target (apply_defaults (cl_config c) (cl_cookies c) req) loc = Some target" "parse_url target = Inr u"
  shows "\<exists>c' w'. do_execute env n req c w =
      do_execute env (n - 1) (redirect_request (apply_defaults (cl_config c) (cl_cookies c) req) (of_nat code) u) c'
        (notify_redirect c' (apply_defaults (cl_config c) (cl_cookies c) req) target (of_nat code) w')
    \<and> cl_config c' = cl_config c
    \<and> cl_cookies c' = store_cookies (effective_host (cl_config c) req) hs (cl_cookies c)"
  by (rule redirect_answered [OF assms])

definition sample_redirect :: http_headers where
  "sample_redirect = [\<lparr>hf_name = ''Location'', hf_value = ''http://b/''\<rparr>, \<lparr>hf_name = ''Content-Length'', hf_value = ''2''\<rparr>]"

lemma sample_redirect_ok:
  "list_all field_ok sample_redirect" "\<not> hdr_is_chunked sample_redirect"
  "hdr_content_length sample_redirect = Some 2" "hdr_get ''Location'' sample_redirect = Some ''http://b/''"
proof -
  show "list_all field_ok sample_redirect" "\<not> hdr_is_chunked sample_redirect"
    "hdr_get ''Location'' sample_redirect = Some ''http://b/''" by code_simp+
  have "\<not> iequal ''Location'' ''Content-Length''" by code_simp
  then show "hdr_content_length sample_redirect = Some 2"
    using sample_headers_ok(3) by (simp add: hdr_content_length_def sample_headers_def sample_redirect_def)
qed

theorem redirect_is_followed_witness:
  "\<exists>c' w'. do_execute demo_env 10 http_request_default (http_client_new client_config_default)
      (net_script [response_head 302 ''Found'' sample_redirect @ ''hi'']) =
    do_execute demo_env 9 (redirect_request (apply_defaults client_config_default [] http_request_default) 302 sample_url)
      (c' :: net http_client) w'"
proof -
  let ?d = "response_head 302 ''Found'' sample_redirect @ ''hi''"
  let ?c = "http_client_new client_config_default :: net http_client"
  have "length ?d \<le> recv_buf_size \<and> ?d \<noteq> []" by code_simp
  then have a: "list_all (\<lambda>d. d \<noteq> [] \<and> length d \<le> recv_buf_size) ([?d] @ [])" by simp
  have p: "pieces_of 302 ''Found'' sample_redirect ''hi'' [?d]" by (simp add: pieces_of_def sample_redirect_ok)
  have t: "redirect_target (apply_defaults (cl_config ?c) (cl_cookies ?c) http_request_default) ''http://b/'' = Some ''http://b/''"
    by (simp add: redirect_target_def)
  have "parse_url ''http://b/'' = Inr sample_url"
    using parse_after_scheme_split [of "''b''" "''/''" "''http''" 80] parse_host_port_plain [of "''b''" 80]
      parse_url_scheme [of False "''b/''"]
    by (simp add: scheme_prefix_def http_prefix_def scheme_name_def scheme_port_def sample_url_def plain_host_def path_ok_def)
  from redirect_is_followed [OF demo_request [OF a] p _ _ _ _ sample_redirect_ok(4) t this, of 10]
  show ?thesis by (auto simp: http_client_new_def client_config_default_def)
qed

text \<open>Only a change of host counts as a change of origin: a redirect to another port, or from
  \<open>https\<close> to plain \<open>http\<close>, of the same host carries the \<open>Authorization\<close> header over.\<close>

theorem redirect_same_host_keeps_authorization:
  assumes "pu_host u = rq_host a" and "hdr_get ''Authorization'' (rq_headers a) = Some v"
  shows "hdr_get ''Authorization'' (rq_headers (apply_defaults cfg jar (redirect_request a status u))) = Some v"
  using assms by (simp add: apply_defaults_get redirect_request_get redirect_skips_names client_header_names)

theorem redirect_same_host_keeps_authorization_witness:
  "hdr_get ''Authorization'' (rq_headers (apply_defaults client_config_default []
     (redirect_request (http_request_default\<lparr>rq_scheme := ''https'', rq_port := 443, rq_host := ''b'',
        rq_headers := [\<lparr>hf_name = ''Authorization'', hf_value = ''secret''\<rparr>]\<rparr>) 302 sample_url))) = Some ''secret''"
  by (rule redirect_same_host_keeps_authorization) (simp_all add: sample_url_def)

text \<open>A redirect to an absolute path keeps scheme, host and the path given, but the ports 80 and
  443 turn into the default port of the scheme: \<open>https\<close> on port 80 and \<open>http\<close> on port 443 end at another
  server.\<close>

theorem relative_redirect_target:
  assumes "request_scheme req = scheme_name tls" and "plain_host (rq_host req)" and "rq_port req \<noteq> 0" and "path_ok loc"
  shows "\<exists>target u. redirect_target req loc = Some target \<and> parse_url target = Inr u
    \<and> pu_scheme u = scheme_name tls \<and> pu_host u = rq_host req \<and> pu_path u = loc
    \<and> pu_port u = (if rq_port req = 80 \<or> rq_port req = 443 then scheme_port tls else rq_port req)"
proof -
  obtain rest where loc: "loc = CHR ''/'' # rest" using assms(4) by (cases loc) (auto simp: path_ok_def)
  let ?t = "origin_text req @ loc"
  have t: "redirect_target req loc = Some ?t" by (simp add: redirect_target_def loc)
  have pre: "request_scheme req @ ''://'' = scheme_prefix tls"
    using assms(1) by (simp add: scheme_prefix_def scheme_name_def http_prefix_def https_prefix_def)
  let ?auth = "host_value (rq_host req) (rq_port req)"
  have "?t = scheme_prefix tls @ ?auth @ loc" using pre by (simp add: origin_text_def flip: append_assoc)
  then have p: "parse_url ?t = parse_after_scheme (scheme_name tls) (scheme_port tls) (?auth @ loc)"
    by (simp add: parse_url_scheme)
  have auth: "CHR ''/'' \<notin> set ?auth" "?auth \<noteq> []"
    using assms(2) to_string_no_slash by (auto simp: host_value_def plain_host_def)
  have hp: "parse_host_port ?auth (scheme_port tls) =
      Inr (rq_host req, if rq_port req = 80 \<or> rq_port req = 443 then scheme_port tls else rq_port req)"
    using parse_host_port_plain [OF assms(2)] parse_host_port_plain_port [OF assms(2,3)]
    by (auto simp: host_value_def)
  have "rq_host req \<noteq> []" using assms(2) by (simp add: plain_host_def)
  then show ?thesis
    using t p parse_after_scheme_split [OF auth, of loc "scheme_name tls" "scheme_port tls"] assms(4) hp loc
    by auto
qed

theorem relative_redirect_target_witness:
  "\<exists>target u. redirect_target (http_request_default\<lparr>rq_scheme := ''https'', rq_host := ''a'', rq_port := 80\<rparr>) ''/x'' = Some target
    \<and> parse_url target = Inr u \<and> pu_scheme u = scheme_name True
    \<and> pu_host u = rq_host (http_request_default\<lparr>rq_scheme := ''https'', rq_host := ''a'', rq_port := 80\<rparr>)
    \<and> pu_path u = ''/x''
    \<and> pu_port u = (if rq_port (http_request_default\<lparr>rq_scheme := ''https'', rq_host := ''a'', rq_port := 80\<rparr>) = 80
          \<or> rq_port (http_request_default\<lparr>rq_scheme := ''https'', rq_host := ''a'', rq_port := 80\<rparr>) = 443
        then scheme_port True else rq_port (http_request_default\<lparr>rq_scheme := ''https'', rq_host := ''a'', rq_port := 80\<rparr>))"
  by (rule relative_redirect_target) (simp_all add: request_scheme_def scheme_name_def plain_host_def path_ok_def)

subsection \<open>The pool\<close>

text \<open>C15: The exchange keeps the pool well formed, whatever the peer, the kernel and OpenSSL do: no key
  twice, and under an \<open>https\<close> key only entries with a session whose handshake is done, so that a request
  under \<open>https\<close> is neither sent in the clear nor through a missing session.\<close>

theorem exchange_keeps_pool:
  assumes "pool_ok (cl_connections c)" and "CHR '':'' \<notin> set (request_scheme req)"
    and "exchange env req c w = Some (q, c', w')"
  shows "pool_ok (cl_connections c')"
  using exchange_ok [OF assms] by blast

theorem exchange_keeps_pool_witness:
  "\<exists>q c' w'. exchange demo_env http_request_default (http_client_new client_config_default)
      ((net_script [])\<lparr>nt_next_fd := -1\<rparr>) = Some (q, c', w') \<and> pool_ok (cl_connections (c' :: net http_client))"
proof -
  let ?r = "http_request_default" and ?w = "(net_script [])\<lparr>nt_next_fd := -1\<rparr>"
  let ?c = "http_client_new client_config_default :: net http_client"
  obtain q c' w' where x: "exchange demo_env ?r ?c ?w = Some (q, c', w')"
    by (simp add: exchange_def cleanup_idle_def http_client_new_def get_connection_def pool_find_def Let_def
        drop_stale_def open_connection_def tcp_create_def demo_env_def demo_os_def net_script_def)
  have "pool_ok (cl_connections ?c)" by (simp add: http_client_new_def pool_ok_def)
  moreover have "CHR '':'' \<notin> set (request_scheme ?r)" by (simp add: request_scheme_def http_request_default_def)
  ultimately show ?thesis using exchange_keeps_pool [OF _ _ x] x by blast
qed

text \<open>C23: A connection handed out for a request is the pool's entry for its key, and for \<open>https\<close> it is a
  TLS entry with an established session.\<close>

theorem connection_matches_scheme:
  assumes "pool_ok (cl_connections c)" and "CHR '':'' \<notin> set (request_scheme req)"
    and "get_connection env req c w = (Inr e, c', w')"
  shows "pool_find (pool_key req) (cl_connections c') = Some e
    \<and> (request_scheme req = ''https'' \<longleftrightarrow> pe_is_tls e)
    \<and> (pe_is_tls e \<longrightarrow> pe_tls_handshake_done e \<and> pe_tls e \<noteq> None)"
  using get_connection_ok [OF assms] key_scheme_pool_key [OF assms(2)] by (auto simp: entry_ok_def)

theorem connection_matches_scheme_witness:
  "\<exists>e c' w'. get_connection demo_env (http_request_default\<lparr>rq_scheme := ''https''\<rparr>)
      (http_client_new client_config_default) (net_script []) = (Inr e, (c' :: net http_client), w') \<and> pe_is_tls e"
proof -
  let ?r = "http_request_default\<lparr>rq_scheme := ''https''\<rparr>"
  let ?c = "http_client_new client_config_default :: net http_client"
  have sch: "request_scheme ?r = ''https''" by (simp add: request_scheme_def)
  obtain e c' w' where g: "get_connection demo_env ?r ?c (net_script []) = (Inr e, c', w')"
    by (simp add: http_client_new_def get_connection_def pool_find_def Let_def sch
        drop_stale_def open_connection_def tcp_create_def tcp_set_options_def tcp_connect_def resolve_address_def
        pool_entry_new_def tcp_invalid_def start_tls_def ensure_tls_context_def ssl_ctx_create_def
        client_config_default_def tls_config_default_def tls_create_def tls_handshake_def
        vresult_defs demo_env_def demo_os_def demo_ssl_def net_script_def)
  have "pool_ok (cl_connections ?c)" by (simp add: http_client_new_def pool_ok_def)
  moreover have "CHR '':'' \<notin> set (request_scheme ?r)" by (simp add: sch)
  ultimately show ?thesis using connection_matches_scheme [OF _ _ g] g sch by blast
qed

text \<open>The idle sweep keeps exactly the entries that were active within the idle timeout, in their
  order, and changes nothing else of the client.\<close>

theorem cleanup_keeps_active:
  assumes "cleanup_idle env c w = (c', w')"
  shows "cl_connections c' =
      filter (\<lambda>(k, e). fst (os_now (en_os env) w) - pe_last_active e \<le> cc_idle_timeout (cl_config c) * 1000000) (cl_connections c)
    \<and> cl_config c' = cl_config c \<and> cl_cookies c' = cl_cookies c \<and> cl_tls_ctx c' = cl_tls_ctx c"
  using cleanup_idle_pool [OF assms] by (simp add: is_idle_def ns_of_ms_def not_less)

theorem cleanup_keeps_active_witness:
  "\<exists>c' w'. cleanup_idle demo_env (http_client_new client_config_default) (net_script []) = (c', w')
    \<and> cl_connections (c' :: net http_client) =
      filter (\<lambda>(k, e). fst (os_now (en_os demo_env) (net_script [])) - pe_last_active e
          \<le> cc_idle_timeout (cl_config (http_client_new client_config_default :: net http_client)) * 1000000)
        (cl_connections (http_client_new client_config_default :: net http_client))"
proof -
  obtain c' w' where c: "cleanup_idle demo_env (http_client_new client_config_default) (net_script []) = (c' :: net http_client, w')"
    by fastforce
  show ?thesis using cleanup_keeps_active [OF c] c by blast
qed

subsection \<open>Cookies and URLs\<close>

text \<open>The jar keeps one cookie per name, domain and path: setting a cookie replaces exactly the one
  with its key and leaves every other as it was.\<close>

theorem cookie_set_replaces:
  assumes "jar_ok jar"
  shows "jar_ok (set_cookie c jar)
    \<and> jar_lookup k (set_cookie c jar) = (if k = cookie_key c then Some c else jar_lookup k jar)"
  using set_cookie_ok [OF assms] jar_lookup_set by blast

theorem cookie_set_replaces_witness:
  "jar_ok (set_cookie cookie_default [cookie_default])
    \<and> jar_lookup (''a'', [], []) (set_cookie cookie_default [cookie_default]) =
      (if (''a'', [], []) = cookie_key cookie_default then Some cookie_default else jar_lookup (''a'', [], []) [cookie_default])"
  by (rule cookie_set_replaces) (simp add: jar_ok_def)

text \<open>C39: The \<open>Cookie\<close> header lists, in the order of the jar and separated by a semicolon and a blank, the
  cookies whose domain is empty, the host or a parent domain of it, and whose path is empty or a prefix
  of the request target that ends at a slash or at its end. The \<open>Secure\<close> attribute plays no part.\<close>

theorem cookie_header_exact:
  "build_cookie_header host path jar =
     join ''; '' (map (\<lambda>c. ck_name c @ ''='' @ ck_value c)
       (filter (\<lambda>c. (ck_domain c = [] \<or> ck_domain c = host \<or> (\<exists>sub. host = sub @ ''.'' @ ck_domain c))
          \<and> (ck_path c = [] \<or> (\<exists>rest. path = ck_path c @ rest
               \<and> (rest = [] \<or> last (ck_path c) = CHR ''/'' \<or> hd rest = CHR ''/''))))
        jar))
   \<and> build_cookie_header host path (map (\<lambda>c. c\<lparr>ck_secure := b\<rparr>) jar) = build_cookie_header host path jar"
proof -
  have "filter (cookie_applies host path) (map (\<lambda>c. c\<lparr>ck_secure := b\<rparr>) jar) =
      map (\<lambda>c. c\<lparr>ck_secure := b\<rparr>) (filter (cookie_applies host path) jar)"
    by (induction jar) (simp_all add: cookie_applies_def)
  then have "build_cookie_header host path (map (\<lambda>c. c\<lparr>ck_secure := b\<rparr>) jar) = build_cookie_header host path jar"
    by (simp add: build_cookie_header_join cookie_text_def [abs_def] comp_def)
  then show ?thesis
    by (simp add: build_cookie_header_join cookie_text_def [abs_def] cookie_applies_def [abs_def]
        domain_match_iff path_match_iff)
qed

text \<open>C26: A cookie comes back: when a response ends with the \<open>Set-Cookie\<close> header a server renders for a cookie,
  the client understands it as that cookie, with the host of the request for a missing domain and the root
  for a missing path and without the date, and every later request the cookie applies to, by host and path,
  carries its name and value in the \<open>Cookie\<close> header.\<close>

theorem set_cookie_comes_back:
  assumes "list_all token_ok (set_cookie_parts date c)" and "cookie_ok c"
    and "cookie_applies (effective_host cfg req) (rq_uri req)
      (c\<lparr>ck_domain := if ck_domain c = [] then host else ck_domain c, ck_path := if ck_path c = [] then ''/'' else ck_path c\<rparr>)"
  shows "parse_set_cookie (join ''; '' (set_cookie_parts date c)) host =
      c\<lparr>ck_domain := if ck_domain c = [] then host else ck_domain c,
        ck_path := if ck_path c = [] then ''/'' else ck_path c, ck_expires := 0\<rparr>
    \<and> (\<exists>before after. hdr_get ''Cookie'' (rq_headers (apply_defaults cfg
        (store_cookies host (hs @ [\<lparr>hf_name = ''Set-Cookie'', hf_value = join ''; '' (set_cookie_parts date c)\<rparr>]) jar) req))
      = Some (join ''; '' (before @ [ck_name c @ ''='' @ ck_value c] @ after)))"
proof
  let ?c = "c\<lparr>ck_domain := if ck_domain c = [] then host else ck_domain c,
        ck_path := if ck_path c = [] then ''/'' else ck_path c, ck_expires := 0\<rparr>"
  let ?jar = "store_cookies host (hs @ [\<lparr>hf_name = ''Set-Cookie'', hf_value = join ''; '' (set_cookie_parts date c)\<rparr>]) jar"
  let ?header = "build_cookie_header (effective_host cfg req) (rq_uri req) ?jar"
  show p: "parse_set_cookie (join ''; '' (set_cookie_parts date c)) host = ?c"
    by (rule parse_set_cookie_parts [OF assms(1,2)])
  have "iequal ''Set-Cookie'' ''Set-Cookie''" by simp
  then have "?c \<in> set ?jar"
    using set_cookie_mem [of ?c] by (simp add: store_cookies_def set_cookie_line_def p)
  moreover have "cookie_applies (effective_host cfg req) (rq_uri req) ?c" using assms(3) by (simp add: cookie_applies_def)
  ultimately obtain before after where b: "?header = join ''; '' (before @ [cookie_text ?c] @ after)"
    using cookie_sent by metis
  have t: "cookie_text ?c = ck_name c @ ''='' @ ck_value c" by (simp add: cookie_text_def)
  have "?header \<noteq> []" unfolding b t by (cases before; cases after) (auto simp: join_Cons)
  then have "hdr_get ''Cookie'' (rq_headers (apply_defaults cfg ?jar req)) = Some ?header"
    by (simp add: apply_defaults_get Let_def)
  then show "\<exists>before after. hdr_get ''Cookie'' (rq_headers (apply_defaults cfg ?jar req))
      = Some (join ''; '' (before @ [ck_name c @ ''='' @ ck_value c] @ after))"
    unfolding b t by blast
qed

definition sample_cookie :: cookie_entry where
  "sample_cookie = \<lparr>ck_name = ''session'', ck_value = ''abc'', ck_domain = ''a.b'', ck_path = [], ck_secure = True,
     ck_expires = 0, ck_has_expiry = False\<rparr>"

theorem set_cookie_comes_back_witness:
  "\<exists>before after. hdr_get ''Cookie'' (rq_headers (apply_defaults client_config_default
      (store_cookies ''www.a.b'' [\<lparr>hf_name = ''Set-Cookie'', hf_value = ''session=abc; Domain=a.b; Secure''\<rparr>] [])
      (http_request_default\<lparr>rq_host := ''a.b'', rq_uri := ''/x''\<rparr>)))
    = Some (join ''; '' (before @ [''session=abc''] @ after))"
proof -
  let ?req = "http_request_default\<lparr>rq_host := ''a.b'', rq_uri := ''/x''\<rparr>"
  have "list_all token_ok (set_cookie_parts [] sample_cookie)" "cookie_ok sample_cookie" by code_simp+
  moreover have "cookie_applies (effective_host client_config_default ?req) (rq_uri ?req)
      (sample_cookie\<lparr>ck_domain := if ck_domain sample_cookie = [] then ''www.a.b'' else ck_domain sample_cookie,
         ck_path := if ck_path sample_cookie = [] then ''/'' else ck_path sample_cookie\<rparr>)"
    by (simp add: cookie_applies_def domain_match_def path_match_def effective_host_def sample_cookie_def)
  ultimately show ?thesis
    using set_cookie_comes_back [of "[]" sample_cookie client_config_default ?req "''www.a.b''" "[]" "[]"]
    by (simp add: set_cookie_parts_def sample_cookie_def)
qed

text \<open>C38: A URL rendered from a scheme, a host, a port and an absolute path parses to them; without a port
  the default of the scheme is taken, without a path the root.\<close>

theorem url_roundtrip:
  assumes "plain_host host" and "port \<noteq> 0" and "path = [] \<or> path_ok path"
  shows "parse_url (scheme_prefix tls @ host @ '':'' @ to_string (unat port) @ path) =
      Inr \<lparr>pu_scheme = scheme_name tls, pu_host = host, pu_port = port, pu_path = (if path = [] then ''/'' else path)\<rparr>
    \<and> parse_url (scheme_prefix tls @ host @ path) =
      Inr \<lparr>pu_scheme = scheme_name tls, pu_host = host, pu_port = scheme_port tls, pu_path = (if path = [] then ''/'' else path)\<rparr>"
proof -
  let ?auth = "host @ '':'' @ to_string (unat port)"
  have a: "CHR ''/'' \<notin> set ?auth" "?auth \<noteq> []" and h: "CHR ''/'' \<notin> set host" "host \<noteq> []"
    using assms(1) to_string_no_slash by (auto simp: plain_host_def)
  show ?thesis
    using parse_after_scheme_split [OF a assms(3), of "scheme_name tls" "scheme_port tls"]
      parse_after_scheme_split [OF h assms(3), of "scheme_name tls" "scheme_port tls"]
      parse_host_port_plain_port [OF assms(1,2)] parse_host_port_plain [OF assms(1)] h(2)
    by (simp add: parse_url_scheme)
qed

theorem url_roundtrip_witness:
  "parse_url (scheme_prefix True @ ''a.b'' @ '':'' @ to_string (unat (8443 :: 16 word)) @ ''/x'') =
      Inr \<lparr>pu_scheme = scheme_name True, pu_host = ''a.b'', pu_port = 8443, pu_path = (if ''/x'' = [] then ''/'' else ''/x'')\<rparr>
    \<and> parse_url (scheme_prefix True @ ''a.b'' @ ''/x'') =
      Inr \<lparr>pu_scheme = scheme_name True, pu_host = ''a.b'', pu_port = scheme_port True, pu_path = (if ''/x'' = [] then ''/'' else ''/x'')\<rparr>"
  by (rule url_roundtrip) (simp_all add: plain_host_def path_ok_def)

text \<open>C40: Every URL that is accepted has scheme \<open>http\<close> or \<open>https\<close>, a host, a port other than 0 and a path
  that starts with a slash; every other URL is an \<open>invalid_argument\<close>.\<close>

theorem url_parse_result:
  "case parse_url url of Inl e \<Rightarrow> e = invalid_argument | Inr u \<Rightarrow> url_ok u"
  by (cases "parse_url url") (simp_all add: parse_url_ok parse_url_error)

end
