(* ===== verification/Tcp_Winsock.thy ===== *)
theory Tcp_Winsock
  imports Tcp_Socket Platform
begin

text \<open>
  \<open>src/tcp_socket.cpp\<close>, the Winsock branch. A \<open>SOCKET\<close> is an unsigned 64-bit number, \<open>INVALID_SOCKET\<close> its
  largest value. The world holds the two function-local flags that guard \<open>WSAStartup\<close>, one in the
  constructor of \<open>impl\<close> and one in \<open>resolve_address\<close>. The branch refines the POSIX one: seen through
  \<open>posix_view\<close> its operations are those of \<open>Tcp_Socket\<close> over the system calls \<open>posix_api\<close> makes of Winsock's.
\<close>

type_synonym socket_handle = "64 word"

definition invalid_socket :: socket_handle where
  "invalid_socket = -1"

record win_socket =
  ws_fd :: socket_handle
  ws_state :: socket_state
  ws_options :: socket_options
  ws_stats :: socket_stats
  ws_driver :: "nat option"
  ws_non_blocking :: bool

datatype wsa_error = WSAEWOULDBLOCK | WSAEINPROGRESS | WSAENOTCONN | WSA_other

record 'w wsa_api =
  wa_startup :: "'w \<Rightarrow> 'w"
  wa_socket :: "'w \<Rightarrow> socket_handle \<times> 'w"
  wa_closesocket :: "socket_handle \<Rightarrow> 'w \<Rightarrow> int \<times> 'w"
  wa_connect :: "socket_handle \<Rightarrow> sockaddr \<Rightarrow> 'w \<Rightarrow> (int \<times> wsa_error) \<times> 'w"
  wa_send :: "socket_handle \<Rightarrow> byte list \<Rightarrow> int \<Rightarrow> 'w \<Rightarrow> (int \<times> wsa_error) \<times> 'w"
  wa_recv :: "socket_handle \<Rightarrow> int \<Rightarrow> 'w \<Rightarrow> (int \<times> wsa_error \<times> byte list) \<times> 'w"
  wa_shutdown :: "socket_handle \<Rightarrow> shut_how \<Rightarrow> 'w \<Rightarrow> (int \<times> wsa_error) \<times> 'w"
  wa_ioctlsocket :: "socket_handle \<Rightarrow> bool \<Rightarrow> 'w \<Rightarrow> int \<times> 'w"
  wa_setsockopt :: "socket_handle \<Rightarrow> sockopt \<Rightarrow> bool \<Rightarrow> 'w \<Rightarrow> int \<times> 'w"
  wa_getsockname :: "socket_handle \<Rightarrow> 'w \<Rightarrow> (int \<times> sockaddr) \<times> 'w"
  wa_getpeername :: "socket_handle \<Rightarrow> 'w \<Rightarrow> (int \<times> sockaddr) \<times> 'w"
  wa_getaddrinfo :: "string \<Rightarrow> string \<Rightarrow> 'w \<Rightarrow> (int \<times> sockaddr list) \<times> 'w"
  wa_now :: "'w \<Rightarrow> int \<times> 'w"

record 'w win_world =
  ww_impl_started :: bool
  ww_resolve_started :: bool
  ww_ext :: 'w

text \<open>A call that does not touch the flags.\<close>

definition winc :: "('w \<Rightarrow> 'a \<times> 'w) \<Rightarrow> 'w win_world \<Rightarrow> 'a \<times> 'w win_world" where
  "winc f ww = (case f (ww_ext ww) of (r, w) \<Rightarrow> (r, ww\<lparr>ww_ext := w\<rparr>))"

subsection \<open>The operations\<close>

definition win_impl_start :: "'w wsa_api \<Rightarrow> 'w win_world \<Rightarrow> 'w win_world" where
  "win_impl_start api ww =
     (if \<not> ww_impl_started ww then ww\<lparr>ww_ext := wa_startup api (ww_ext ww), ww_impl_started := True\<rparr> else ww)"

definition win_fresh :: win_socket where
  "win_fresh =
     \<lparr>ws_fd = invalid_socket, ws_state = Disconnected, ws_options = socket_options_default,
      ws_stats = socket_stats_default, ws_driver = None, ws_non_blocking = False\<rparr>"

definition win_invalid :: "'w wsa_api \<Rightarrow> 'w win_world \<Rightarrow> win_socket \<times> 'w win_world" where
  "win_invalid api ww = (win_fresh, win_impl_start api ww)"

definition win_destroy :: "'w wsa_api \<Rightarrow> win_socket \<Rightarrow> 'w win_world \<Rightarrow> 'w win_world" where
  "win_destroy api s ww =
     (if ws_fd s \<noteq> invalid_socket then snd (winc (wa_closesocket api (ws_fd s)) ww) else ww)"

definition win_set_non_blocking :: "'w wsa_api \<Rightarrow> bool \<Rightarrow> win_socket \<Rightarrow> 'w win_world \<Rightarrow> vresult \<times> win_socket \<times> 'w win_world" where
  "win_set_non_blocking api enable s ww =
     (case winc (wa_ioctlsocket api (ws_fd s) enable) ww of
        (rc, ww1) \<Rightarrow>
          if rc \<noteq> 0 then (socket_error, s, ww1) else (make_result_void, s\<lparr>ws_non_blocking := enable\<rparr>, ww1))"

definition win_set_options :: "'w wsa_api \<Rightarrow> socket_options \<Rightarrow> win_socket \<Rightarrow> 'w win_world \<Rightarrow> vresult \<times> win_socket \<times> 'w win_world" where
  "win_set_options api opts s ww =
     (case winc (wa_setsockopt api (ws_fd s) SO_KEEPALIVE (so_keep_alive opts)) ww of
        (rc1, ww1) \<Rightarrow>
          if rc1 \<noteq> 0 then (socket_error, s, ww1)
          else case winc (wa_setsockopt api (ws_fd s) TCP_NODELAY (so_no_delay opts)) ww1 of
                 (rc2, ww2) \<Rightarrow>
                   if rc2 \<noteq> 0 then (socket_error, s, ww2)
                   else (make_result_void, s\<lparr>ws_options := opts\<rparr>, ww2))"

definition win_create :: "'w wsa_api \<Rightarrow> 'w win_world \<Rightarrow> win_socket result \<times> 'w win_world" where
  "win_create api ww =
     (case winc (wa_socket api) (win_impl_start api ww) of
        (fd, ww1) \<Rightarrow> (if fd = invalid_socket then Inl socket_error
                      else Inr (win_fresh\<lparr>ws_fd := fd, ws_state := Disconnected\<rparr>), ww1))"

text \<open>The \<open>int\<close> is converted to a \<open>SOCKET\<close>.\<close>

definition win_from_fd :: "'w wsa_api \<Rightarrow> int \<Rightarrow> 'w win_world \<Rightarrow> win_socket result \<times> 'w win_world" where
  "win_from_fd api fd ww =
     (case winc (wa_now api) (win_impl_start api ww) of
        (t, ww1) \<Rightarrow> (Inr (win_fresh\<lparr>ws_fd := of_int fd, ws_state := Connected,
                       ws_stats := socket_stats_default\<lparr>ss_connected_time := t, ss_last_active_time := t\<rparr>\<rparr>), ww1))"

definition win_resolve_start :: "'w wsa_api \<Rightarrow> 'w win_world \<Rightarrow> 'w win_world" where
  "win_resolve_start api ww =
     (if \<not> ww_resolve_started ww then ww\<lparr>ww_ext := wa_startup api (ww_ext ww), ww_resolve_started := True\<rparr> else ww)"

definition win_resolve_address :: "'w wsa_api \<Rightarrow> string \<Rightarrow> 16 word \<Rightarrow> 'w win_world \<Rightarrow> socket_address result \<times> 'w win_world" where
  "win_resolve_address api host port ww =
     (case winc (wa_getaddrinfo api host (to_string (unat port))) (win_resolve_start api ww) of
        ((status, infos), ww1) \<Rightarrow>
          (if status \<noteq> 0 then Inl dns_resolution_failed
           else case first_inet infos of
                  Some a \<Rightarrow> Inr (Ipv4 a)
                | None \<Rightarrow> (case first_inet6 infos of
                             Some a \<Rightarrow> Inr (Ipv6 a)
                           | None \<Rightarrow> Inl dns_resolution_failed), ww1))"

definition win_connect :: "'w wsa_api \<Rightarrow> string \<Rightarrow> 16 word \<Rightarrow> win_socket \<Rightarrow> 'w win_world \<Rightarrow> vresult \<times> win_socket \<times> 'w win_world" where
  "win_connect api host port s ww =
     (if ws_state s \<noteq> Disconnected then (invalid_state, s, ww)
      else case win_resolve_address api host port ww of
             (Inl e, ww1) \<Rightarrow> (e, s, ww1)
           | (Inr addr, ww1) \<Rightarrow>
               let s1 = s\<lparr>ws_state := Connecting\<rparr>
               in case winc (wa_connect api (ws_fd s1) (address_to_sockaddr addr)) ww1 of
                    ((rc, err), ww2) \<Rightarrow>
                      if rc = 0
                      then (case winc (wa_now api) ww2 of
                              (t, ww3) \<Rightarrow> (make_result_void,
                                s1\<lparr>ws_state := Connected,
                                   ws_stats := (ws_stats s1)\<lparr>ss_connected_time := t, ss_last_active_time := t\<rparr>\<rparr>,
                                ww3))
                      else if err = WSAEWOULDBLOCK \<or> err = WSAEINPROGRESS then (make_result_void, s1, ww2)
                      else (connection_refused, s1\<lparr>ws_state := Sock_error\<rparr>, ww2))"

text \<open>The length is passed as an \<open>int\<close>.\<close>

definition win_send :: "'w wsa_api \<Rightarrow> byte list \<Rightarrow> win_socket \<Rightarrow> 'w win_world \<Rightarrow> nat result \<times> win_socket \<times> 'w win_world" where
  "win_send api data s ww =
     (if ws_state s \<noteq> Connected then (Inl invalid_state, s, ww)
      else case winc (wa_send api (ws_fd s) data (int_cast (int (length data)))) ww of
             ((n, err), ww1) \<Rightarrow>
               if n \<ge> 0
               then (case winc (wa_now api) ww1 of
                       (t, ww2) \<Rightarrow> (Inr (nat n),
                         s\<lparr>ws_stats := (ws_stats s)\<lparr>ss_bytes_sent := ss_bytes_sent (ws_stats s) + of_int n,
                             ss_packets_sent := ss_packets_sent (ws_stats s) + 1, ss_last_active_time := t\<rparr>\<rparr>,
                         ww2))
               else if err = WSAEWOULDBLOCK then (Inr 0, s, ww1)
               else (Inl socket_error, s, ww1))"

definition win_receive :: "'w wsa_api \<Rightarrow> nat \<Rightarrow> win_socket \<Rightarrow> 'w win_world \<Rightarrow> (nat result \<times> byte list) \<times> win_socket \<times> 'w win_world" where
  "win_receive api room s ww =
     (if ws_state s \<noteq> Connected then ((Inl invalid_state, []), s, ww)
      else case winc (wa_recv api (ws_fd s) (int_cast (int room))) ww of
             ((n, err, data), ww1) \<Rightarrow>
               if n > 0
               then (case winc (wa_now api) ww1 of
                       (t, ww2) \<Rightarrow> ((Inr (nat n), data),
                         s\<lparr>ws_stats := (ws_stats s)\<lparr>ss_bytes_received := ss_bytes_received (ws_stats s) + of_int n,
                             ss_packets_received := ss_packets_received (ws_stats s) + 1,
                             ss_last_active_time := t\<rparr>\<rparr>,
                         ww2))
               else if n = 0 then ((Inl connection_reset, []), s\<lparr>ws_state := Disconnected\<rparr>, ww1)
               else if err = WSAEWOULDBLOCK then ((Inr 0, []), s, ww1)
               else ((Inl socket_error, []), s, ww1))"

definition win_close :: "'w wsa_api \<Rightarrow> win_socket \<Rightarrow> 'w win_world \<Rightarrow> vresult \<times> win_socket \<times> 'w win_world" where
  "win_close api s ww =
     (if ws_fd s = invalid_socket then (make_result_void, s, ww)
      else let s1 = s\<lparr>ws_state := Closing\<rparr>
           in case winc (wa_closesocket api (ws_fd s1)) ww of
                (rc, ww1) \<Rightarrow>
                  if rc \<noteq> 0 then (socket_error, s1\<lparr>ws_state := Sock_error\<rparr>, ww1)
                  else (make_result_void, s1\<lparr>ws_fd := invalid_socket, ws_state := Disconnected\<rparr>, ww1))"

text \<open>\<open>SD_BOTH\<close>, \<open>SD_SEND\<close> and \<open>SD_RECEIVE\<close> are the three ways of \<^typ>\<open>shut_how\<close>.\<close>

definition win_shutdown :: "'w wsa_api \<Rightarrow> bool \<Rightarrow> bool \<Rightarrow> win_socket \<Rightarrow> 'w win_world \<Rightarrow> vresult \<times> 'w win_world" where
  "win_shutdown api snd_side rcv_side s ww =
     (if ws_fd s = invalid_socket then (make_result_void, ww)
      else case (if snd_side \<and> rcv_side then Some SHUT_RDWR
                 else if snd_side then Some SHUT_WR
                 else if rcv_side then Some SHUT_RD else None) of
             None \<Rightarrow> (make_result_void, ww)
           | Some how \<Rightarrow>
               (case winc (wa_shutdown api (ws_fd s) how) ww of
                  ((rc, err), ww1) \<Rightarrow>
                    (if rc \<noteq> 0 \<and> err \<noteq> WSAENOTCONN then socket_error else make_result_void, ww1)))"

definition win_local_address :: "'w wsa_api \<Rightarrow> win_socket \<Rightarrow> 'w win_world \<Rightarrow> socket_address result \<times> 'w win_world" where
  "win_local_address api s ww =
     (if ws_fd s = invalid_socket then (Inl invalid_state, ww)
      else case winc (wa_getsockname api (ws_fd s)) ww of (r, ww1) \<Rightarrow> (addr_of_name r, ww1))"

definition win_remote_address :: "'w wsa_api \<Rightarrow> win_socket \<Rightarrow> 'w win_world \<Rightarrow> socket_address result \<times> 'w win_world" where
  "win_remote_address api s ww =
     (if ws_fd s = invalid_socket then (Inl invalid_state, ww)
      else case winc (wa_getpeername api (ws_fd s)) ww of (r, ww1) \<Rightarrow> (addr_of_name r, ww1))"

text \<open>\<open>fd()\<close> gives the low half of the handle as an \<open>int\<close>.\<close>

definition win_fd :: "win_socket \<Rightarrow> int" where
  "win_fd s = int_cast (uint (ws_fd s))"

definition win_valid :: "win_socket \<Rightarrow> bool" where
  "win_valid s \<longleftrightarrow> ws_fd s \<noteq> invalid_socket"

subsection \<open>The branch seen as the POSIX one\<close>

definition posix_view :: "win_socket \<Rightarrow> tcp_socket" where
  "posix_view s =
     \<lparr>sk_fd = sint (ws_fd s), sk_state = ws_state s, sk_options = ws_options s, sk_stats = ws_stats s,
      sk_driver = ws_driver s, sk_non_blocking = ws_non_blocking s\<rparr>"

definition io_errno :: "wsa_error \<Rightarrow> errno" where
  "io_errno e = (if e = WSAEWOULDBLOCK then EWOULDBLOCK else if e = WSAENOTCONN then ENOTCONN else E_other)"

definition connect_errno :: "wsa_error \<Rightarrow> errno" where
  "connect_errno e = (if e = WSAEWOULDBLOCK \<or> e = WSAEINPROGRESS then EINPROGRESS else E_other)"

definition posix_api :: "'w wsa_api \<Rightarrow> 'w win_world os_api" where
  "posix_api api =
     \<lparr>os_socket = \<lambda>ww. (case winc (wa_socket api) (win_impl_start api ww) of (fd, ww1) \<Rightarrow> (sint fd, ww1)),
      os_close = \<lambda>fd. winc (wa_closesocket api (of_int fd)),
      os_connect = \<lambda>fd addr ww.
        (case winc (wa_connect api (of_int fd) addr) ww of ((rc, e), ww1) \<Rightarrow> ((rc, connect_errno e), ww1)),
      os_send = \<lambda>fd data ww.
        (case winc (wa_send api (of_int fd) data (int_cast (int (length data)))) ww of
           ((n, e), ww1) \<Rightarrow> ((n, io_errno e), ww1)),
      os_recv = \<lambda>fd room ww.
        (case winc (wa_recv api (of_int fd) (int_cast (int room))) ww of
           ((n, e, data), ww1) \<Rightarrow> ((n, io_errno e, data), ww1)),
      os_shutdown = \<lambda>fd how ww.
        (case winc (wa_shutdown api (of_int fd) how) ww of ((rc, e), ww1) \<Rightarrow> ((rc, io_errno e), ww1)),
      os_getfl = \<lambda>fd ww. (0, ww),
      os_setfl = \<lambda>fd flags ww.
        (case winc (wa_ioctlsocket api (of_int fd) (flags \<noteq> 0)) ww of (rc, ww1) \<Rightarrow> (if rc \<noteq> 0 then -1 else 0, ww1)),
      os_setsockopt = \<lambda>fd opt v. winc (wa_setsockopt api (of_int fd) opt v),
      os_getsockname = \<lambda>fd. winc (wa_getsockname api (of_int fd)),
      os_getpeername = \<lambda>fd. winc (wa_getpeername api (of_int fd)),
      os_getaddrinfo = \<lambda>host port ww. winc (wa_getaddrinfo api host port) (win_resolve_start api ww),
      os_now = winc (wa_now api)\<rparr>"

lemma view_invalid [simp]: "sint h = -1 \<longleftrightarrow> h = invalid_socket" for h :: socket_handle
proof
  assume "sint h = -1"
  then have "(of_int (sint h) :: socket_handle) = -1" by simp
  then show "h = invalid_socket" by (simp add: invalid_socket_def of_int_sint del: of_int_eq_iff)
qed (simp add: invalid_socket_def)

lemma view_sel [simp]:
  "sk_fd (posix_view s) = sint (ws_fd s)" "sk_state (posix_view s) = ws_state s"
  "sk_options (posix_view s) = ws_options s" "sk_stats (posix_view s) = ws_stats s"
  by (simp_all add: posix_view_def)

lemma errno_sel [simp]:
  "io_errno e \<noteq> EAGAIN" "io_errno e = EWOULDBLOCK \<longleftrightarrow> e = WSAEWOULDBLOCK" "io_errno e = ENOTCONN \<longleftrightarrow> e = WSAENOTCONN"
  "connect_errno e \<noteq> EALREADY" "connect_errno e = EINPROGRESS \<longleftrightarrow> e = WSAEWOULDBLOCK \<or> e = WSAEINPROGRESS"
  by (simp_all add: io_errno_def connect_errno_def)

lemmas view_simps = posix_api_def posix_view_def of_int_sint

text \<open>What an operation of either branch returns.\<close>

definition view_out :: "'r \<times> win_socket \<times> 'w win_world \<Rightarrow> 'r \<times> tcp_socket \<times> 'w win_world" where
  "view_out x = (fst x, posix_view (fst (snd x)), snd (snd x))"

lemma view_out_simp [simp]: "view_out (r, s, ww) = (r, posix_view s, ww)"
  by (simp add: view_out_def)

lemma win_create_view:
  "win_create api ww = (r, ww') \<Longrightarrow> tcp_create (posix_api api) ww = (map_sum id posix_view r, ww')"
  by (auto simp: win_create_def tcp_create_def view_simps win_fresh_def tcp_invalid_def split: prod.splits if_splits)

lemma win_resolve_address_view: "win_resolve_address api host port = resolve_address (posix_api api) host port"
  by (rule ext) (simp add: win_resolve_address_def resolve_address_def posix_api_def)

lemma win_connect_view:
  "view_out (win_connect api host port s ww) = tcp_connect (posix_api api) host port (posix_view s) ww"
  unfolding win_connect_def tcp_connect_def win_resolve_address_view
  by (auto simp: view_simps Let_def split: sum.split prod.split)

lemma win_send_view: "view_out (win_send api data s ww) = tcp_send (posix_api api) data (posix_view s) ww"
  unfolding win_send_def tcp_send_def by (auto simp: view_simps split: prod.split)

lemma win_receive_view: "view_out (win_receive api room s ww) = tcp_receive (posix_api api) room (posix_view s) ww"
  unfolding win_receive_def tcp_receive_def by (auto simp: view_simps split: prod.split)

lemma win_close_view: "view_out (win_close api s ww) = tcp_close (posix_api api) (posix_view s) ww"
  unfolding win_close_def tcp_close_def by (auto simp: view_simps Let_def invalid_socket_def split: prod.split)

lemma win_shutdown_view: "win_shutdown api a b s ww = tcp_shutdown (posix_api api) a b (posix_view s) ww"
  unfolding win_shutdown_def tcp_shutdown_def by (auto simp: view_simps split: prod.split option.split)

lemma win_set_options_view:
  "view_out (win_set_options api opts s ww) = tcp_set_options (posix_api api) opts (posix_view s) ww"
  unfolding win_set_options_def tcp_set_options_def by (auto simp: view_simps split: prod.split)

lemma win_set_non_blocking_view:
  "view_out (win_set_non_blocking api e s ww) = tcp_set_non_blocking (posix_api api) e (posix_view s) ww"
  unfolding win_set_non_blocking_def tcp_set_non_blocking_def
  by (auto simp: view_simps o_nonblock_def Let_def split: prod.split)

lemma win_address_view:
  "win_local_address api s ww = tcp_local_address (posix_api api) (posix_view s) ww"
  "win_remote_address api s ww = tcp_remote_address (posix_api api) (posix_view s) ww"
  unfolding win_local_address_def tcp_local_address_def win_remote_address_def tcp_remote_address_def
  by (auto simp: view_simps split: prod.split)

lemma win_destroy_view: "win_destroy api s ww = tcp_destroy (posix_api api) (posix_view s) ww"
  by (simp add: win_destroy_def tcp_destroy_def view_simps)

lemma win_valid_view: "win_valid s = tcp_valid (posix_view s)"
  by (simp add: win_valid_def tcp_valid_def)

end
