(* ===== verification/Service_Claims.thy ===== *)
theory Service_Claims
  imports Dns_Threads Buffer_Pool Logger Async_Client Client_Claims Tcp_Winsock
begin

text \<open>
  The properties of the resolver and the connection loop, of the buffer pool, of asynchronous requests
  and of the socket on Windows.
\<close>

subsection \<open>The resolver\<close>

text \<open>C28: Whatever it is asked, by however many threads, a resolver keeps one answer per host and at most one
  more than \<open>max_cache_size\<close> answers.\<close>

theorem dns_cache_bounded:
  assumes "(dns_threads_step os)\<^sup>*\<^sup>* ((\<lambda>t. Dns_idle), dns_create cfg, w0) (ps, r, w)"
  shows "length (ds_cache r) \<le> dc_max_cache_size cfg + 1 \<and> distinct (map fst (ds_cache r))"
  using dns_threads_ok [OF assms] by (simp add: cache_ok_def dns_ok_def)

lemma demo_resolve:
  "\<exists>r'. dns_resolve demo_os host (dns_create cfg) w = (Inr [Ipv4 \<lparr>v4_bytes = [127, 0, 0, 1], v4_port = 80\<rparr>], r', w\<lparr>nt_time := nt_time w + 1\<rparr>)
    \<and> length (ds_cache r') = 1 \<and> resolve_miss demo_os host (dns_create cfg) w
        = (Inr [Ipv4 \<lparr>v4_bytes = [127, 0, 0, 1], v4_port = 80\<rparr>], r', w\<lparr>nt_time := nt_time w + 1\<rparr>)"
  by (simp add: dns_resolve_def resolve_miss_def resolve_addresses_def demo_os_def dns_create_def
      evict_oldest_if_needed_def Let_def address_of_in_def)

text \<open>The bound is reached: a cache of size 0 holds an answer.\<close>

theorem dns_cache_bounded_witness:
  "\<exists>ps r w. (dns_threads_step demo_os)\<^sup>*\<^sup>* ((\<lambda>t. Dns_idle), dns_create (dns_config_default\<lparr>dc_max_cache_size := 0\<rparr>), net_script [])
      (ps, r, w) \<and> ps (0::nat) = Dns_done ''a'' (Inr [Ipv4 \<lparr>v4_bytes = [127, 0, 0, 1], v4_port = 80\<rparr>])
    \<and> length (ds_cache r) = 0 + 1 \<and> length (ds_cache r) \<le> dc_max_cache_size (dns_config_default\<lparr>dc_max_cache_size := 0\<rparr>) + 1"
proof -
  let ?cfg = "dns_config_default\<lparr>dc_max_cache_size := 0\<rparr>"
  obtain r' where r: "dns_resolve demo_os ''a'' (dns_create ?cfg) (net_script [])
      = (Inr [Ipv4 \<lparr>v4_bytes = [127, 0, 0, 1], v4_port = 80\<rparr>], r', (net_script [])\<lparr>nt_time := nt_time (net_script []) + 1\<rparr>)"
      "length (ds_cache r') = 1"
    using demo_resolve by blast
  note s = thread_resolves [OF r(1), of "\<lambda>t. Dns_idle" 0, OF refl]
  show ?thesis using s r(2) dns_cache_bounded [OF s] by fastforce
qed

text \<open>C29: Whatever the threads do, what \<open>resolve\<close> returns to one of them is an answer of the system for the host
  it asked for, as the system gave it, or as the cache keeps it: with the configured port in place of its ports
  and with 0 in place of the scopes of its IPv6 addresses.\<close>

theorem dns_threads_answers:
  assumes "(dns_threads_step os)\<^sup>*\<^sup>* ((\<lambda>t. Dns_idle), dns_create cfg, w0) (ps, r, w)"
    and "ps t = Dns_done host (Inr addrs)"
    and "\<forall>h as u u'. resolve_addresses os cfg h u = (as, u') \<longrightarrow> list_all address_ok as"
  shows "\<exists>as u u'. resolve_addresses os cfg host u = (as, u') \<and> as \<noteq> [] \<and> (addrs = as \<or> addrs = map (cached_address cfg) as)"
proof -
  have "place_ok os cfg (ps t)" using dns_threads_ok [OF assms(1)] by blast
  then obtain as where as: "system_answer os cfg host as" "addrs = as \<or> (list_all address_ok as \<longrightarrow> addrs = map (cached_address cfg) as)"
    using assms(2) by (auto simp: place_ok_def answer_ok_def)
  then obtain u u' where u: "resolve_addresses os cfg host u = (as, u')" "as \<noteq> []" by (auto simp: system_answer_def)
  then show ?thesis using as(2) assms(3) by blast
qed

theorem dns_threads_answers_witness:
  "\<exists>ps r w as u u'. (dns_threads_step demo_os)\<^sup>*\<^sup>* ((\<lambda>t. Dns_idle), dns_create dns_config_default, net_script []) (ps, r, w)
    \<and> ps (0::nat) = Dns_done ''a'' (Inr [Ipv4 \<lparr>v4_bytes = [127, 0, 0, 1], v4_port = 80\<rparr>])
    \<and> resolve_addresses demo_os dns_config_default ''a'' u = (as, u') \<and> as \<noteq> []"
proof -
  obtain r' where r: "dns_resolve demo_os ''a'' (dns_create dns_config_default) (net_script [])
      = (Inr [Ipv4 \<lparr>v4_bytes = [127, 0, 0, 1], v4_port = 80\<rparr>], r', (net_script [])\<lparr>nt_time := nt_time (net_script []) + 1\<rparr>)"
    using demo_resolve by blast
  note s = thread_resolves [OF r, of "\<lambda>t. Dns_idle" 0, OF refl]
  have "\<forall>h as u u'. resolve_addresses demo_os dns_config_default h u = (as, u') \<longrightarrow> list_all address_ok as"
    by (auto simp: resolve_addresses_def demo_os_def address_of_in_def address_ok_def)
  then show ?thesis using s dns_threads_answers [OF s, of 0 "''a''" "[Ipv4 \<lparr>v4_bytes = [127, 0, 0, 1], v4_port = 80\<rparr>]"] by fastforce
qed

text \<open>C27: The answer of a resolution that missed the cache is the answer of every later resolution of the host
  until \<open>cache_ttl\<close> has passed, with no call to the system, except that ports are the configured one and
  scopes are lost.\<close>

theorem dns_cached_answer:
  assumes "resolve_miss os host r w = (Inr addrs, r1, w1)" and "list_all address_ok addrs"
    and "os_now os w2 = (now, w3)" and "\<forall>e. map_of (ds_cache r1) host = Some e \<longrightarrow> now < ce_inserted e + sec_ns (ce_ttl e)"
  shows "dns_resolve os host r1 w2 = (Inr (map (cached_address (ds_config r)) addrs), r1\<lparr>ds_hits := ds_hits r1 + 1\<rparr>, w3)"
proof -
  obtain e where e: "map_of (ds_cache r1) host = Some e"
      "\<And>now w2 w3. os_now os w2 = (now, w3) \<Longrightarrow> is_cache_valid now e \<Longrightarrow>
        dns_resolve os host r1 w2 = (Inr (map (cached_address (ds_config r)) addrs), r1\<lparr>ds_hits := ds_hits r1 + 1\<rparr>, w3)"
    using resolve_miss_then_hit [OF assms(1,2)] by blast
  have "is_cache_valid now e" using e(1) assms(4) by (simp add: is_cache_valid_def entry_end_def)
  then show ?thesis using e(2) assms(3) by blast
qed

theorem dns_cached_answer_witness:
  "\<exists>r1 w3. dns_resolve demo_os ''a'' r1 (net_script []) = (Inr [Ipv4 \<lparr>v4_bytes = [127, 0, 0, 1], v4_port = 53\<rparr>],
      r1\<lparr>ds_hits := ds_hits r1 + 1\<rparr>, w3)"
proof -
  let ?cfg = dns_config_default and ?w = "net_script []"
  obtain r' where r: "resolve_miss demo_os ''a'' (dns_create ?cfg) ?w
      = (Inr [Ipv4 \<lparr>v4_bytes = [127, 0, 0, 1], v4_port = 80\<rparr>], r', ?w\<lparr>nt_time := nt_time ?w + 1\<rparr>)"
    using demo_resolve by blast
  then have c: "ds_cache r' = [(''a'', cache_entry ?cfg ''a'' 0 [Ipv4 \<lparr>v4_bytes = [127, 0, 0, 1], v4_port = 80\<rparr>])]"
    by (auto simp: resolve_miss_def resolve_addresses_def demo_os_def dns_create_def evict_oldest_if_needed_def Let_def
        net_script_def address_of_in_def)
  have "dns_resolve demo_os ''a'' r' ?w
      = (Inr (map (cached_address (ds_config (dns_create ?cfg))) [Ipv4 \<lparr>v4_bytes = [127, 0, 0, 1], v4_port = 80\<rparr>]),
         r'\<lparr>ds_hits := ds_hits r' + 1\<rparr>, ?w\<lparr>nt_time := 1\<rparr>)"
  proof (rule dns_cached_answer [OF r])
    show "os_now demo_os ?w = (0, ?w\<lparr>nt_time := 1\<rparr>)" by (simp add: demo_os_def net_script_def)
    show "list_all address_ok [Ipv4 \<lparr>v4_bytes = [127, 0, 0, 1], v4_port = 80\<rparr>]" by (simp add: address_ok_def)
    show "\<forall>e. map_of (ds_cache r') ''a'' = Some e \<longrightarrow> 0 < ce_inserted e + sec_ns (ce_ttl e)"
      by (simp add: c cache_entry_def sec_ns_def dns_config_default_def)
  qed
  then show ?thesis by (auto simp: cached_address_def dns_create_def dns_config_default_def)
qed

text \<open>C35: \<open>happy_eyeballs\<close> orders the addresses by taking the two families in turn, the preferred one first,
  each in its own order, and then makes one attempt per address to the host by name: the outcome depends
  on the number of addresses alone.\<close>

theorem happy_eyeballs_order:
  "interleave prefer6 v4 v6 = (if prefer6 then alternate v6 v4 else alternate v4 v6)
   \<and> mset (interleave prefer6 v4 v6) = mset v4 + mset v6
   \<and> connect_with_addresses os host port (interleave prefer6 v4 v6) w
     = connect_with_addresses os host port (replicate (length v4 + length v6) a) w"
proof -
  have m: "mset (interleave prefer6 v4 v6) = mset v4 + mset v6"
    by (simp add: interleave_alternate mset_alternate)
  have "length (interleave prefer6 v4 v6) = length v4 + length v6"
    using arg_cong [OF m, of size] by simp
  then have "connect_with_addresses os host port (interleave prefer6 v4 v6) w
      = connect_with_addresses os host port (replicate (length v4 + length v6) a) w"
    by (intro connect_ignores_addresses) simp
  then show ?thesis using m interleave_alternate by blast
qed

subsection \<open>The buffer pool\<close>

text \<open>C36: A buffer pool never keeps more buffers than it may hold or began with, and a buffer acquired from it
  is well formed and empty, whatever was released into it.\<close>

theorem buffer_pool_bounded:
  assumes "bp_step\<^sup>*\<^sup>* (bp_new cfg) p" and "bp_acquire p = (b, p')"
  shows "bp_size p \<le> max (pc_initial_size cfg) (pc_max_size cfg) \<and> bb_wf b \<and> bb_contents b = []
    \<and> bp_size p' = bp_size p - 1"
proof -
  have ok: "bp_ok p" "bp_config p = cfg" using bp_reachable_ok [OF assms(1)] by simp_all
  then show ?thesis using bp_acquire_ok [OF ok(1) assms(2)] by (simp add: bp_ok_def bp_size_def)
qed

text \<open>A moved-from buffer that is released comes back, without capacity.\<close>

theorem buffer_pool_bounded_witness:
  "\<exists>p b p'. bp_step\<^sup>*\<^sup>* (bp_new (pool_config_default\<lparr>pc_initial_size := 0\<rparr>)) p \<and> bp_acquire p = (b, p')
    \<and> bp_size p = 1 \<and> bb_contents b = [] \<and> bb_capacity b = 0"
proof -
  let ?cfg = "pool_config_default\<lparr>pc_initial_size := 0\<rparr>"
  let ?p = "bp_release (Some bb_moved_from) (bp_new ?cfg)"
  have s: "bp_step\<^sup>*\<^sup>* (bp_new ?cfg) ?p" by (rule r_into_rtranclp, rule bps_release) auto
  have p: "bp_pool ?p = [bb_reset bb_moved_from]" by (simp add: bp_release_def bp_new_def pool_config_default_def)
  obtain b p' where a: "bp_acquire ?p = (b, p')" by (metis surj_pair)
  have "bb_capacity b = 0" using a p by (auto simp: bp_acquire_def bb_capacity_def bb_reset_def bb_moved_from_def)
  then show ?thesis using s a p buffer_pool_bounded [OF s a] by (auto simp: bp_size_def)
qed

subsection \<open>Asynchronous requests\<close>

text \<open>The requests posted with \<open>execute_async\<close> are executed by the next iteration of the loop, in the
  order they were posted, each once, and each callback gets what \<open>execute\<close> returns on the client the
  earlier ones left.\<close>

theorem async_requests_in_order:
  assumes "runs_payloads env call lenv" and "el_task_queue l = []"
    and "run_payloads env call (map (\<lambda>(req, cb). \<lparr>pl_request = req, pl_cb = cb\<rparr>) rs) cw = Some cw'"
  shows "\<exists>l'. process_tasks lenv (fold (\<lambda>(req, cb). execute_async req cb) rs l, cw) = (l', cw')
    \<and> el_task_queue l' = [] \<and> ls_tasks_executed (el_stats l') = ls_tasks_executed (el_stats l) + of_nat (length rs)"
  using process_posted_payloads [OF assms(1), of "fold (\<lambda>(req, cb). execute_async req cb) rs l" cw cw'] assms(2,3)
  by (simp add: post_all_queue post_all_stats)

text \<open>A loop that runs payloads and a callback that records that it was called.\<close>

definition demo_call :: "nat \<Rightarrow> byte_buffer http_response result \<Rightarrow> net \<Rightarrow> net" where
  "demo_call cb r w = w\<lparr>nt_tx := nt_tx w @ (case r of Inl e \<Rightarrow> ''failed'' | Inr resp \<Rightarrow> ''done'')\<rparr>"

definition demo_loop_env :: "(nat, nat async_payload, net client_world) loop_env" where
  "demo_loop_env =
     \<lparr>le_now = \<lambda>cw. (0, cw), le_timer = \<lambda>c i s. s,
      le_task = \<lambda>p s. (fst s, case payload_run demo_env demo_call p (snd s) of None \<Rightarrow> snd s | Some cw \<Rightarrow> cw),
      le_event = \<lambda>p h e s. s\<rparr>"

theorem async_requests_in_order_witness:
  "\<exists>l l' c w. process_tasks demo_loop_env (execute_async http_request_default 1 l,
      (http_client_new client_config_default, (net_script [])\<lparr>nt_next_fd := -1\<rparr>)) = (l', (c, w))
    \<and> nt_tx w = ''failed'' \<and> ls_tasks_executed (el_stats l') = 1"
proof -
  let ?w = "(net_script [])\<lparr>nt_next_fd := -1\<rparr>" and ?c = "http_client_new client_config_default :: net http_client"
  let ?l = "fst (loop_impl demo_loop_env loop_config_default undefined (?c, ?w))"
  obtain e c w where x: "execute demo_env http_request_default ?c ?w = Some (Inl e, c, w)" "nt_tx w = []"
    unfolding execute_def
    by (subst (asm) do_execute.simps)
      (simp add: exchange_def cleanup_idle_def http_client_new_def get_connection_def pool_find_def Let_def
        drop_stale_def open_connection_def tcp_create_def demo_env_def demo_os_def net_script_def)
  let ?rs = "[(http_request_default, 1 :: nat)]"
  have l: "el_task_queue ?l = []" "ls_tasks_executed (el_stats ?l) = 0"
    by (simp_all add: loop_impl_def demo_loop_env_def)
  have r: "runs_payloads demo_env demo_call demo_loop_env"
    by (auto simp: runs_payloads_def demo_loop_env_def)
  have p: "run_payloads demo_env demo_call (map (\<lambda>(req, cb). \<lparr>pl_request = req, pl_cb = cb\<rparr>) ?rs) (?c, ?w)
      = Some (c, demo_call 1 (Inl e) w)"
    using x by (simp add: payload_run_def)
  from async_requests_in_order [OF r l(1) p] obtain l' where
    "process_tasks demo_loop_env (execute_async http_request_default 1 ?l, (?c, ?w)) = (l', (c, demo_call 1 (Inl e) w))"
    "ls_tasks_executed (el_stats l') = 1"
    using l(2) by auto
  moreover have "nt_tx (demo_call 1 (Inl e) w) = ''failed''" using x(2) by (simp add: demo_call_def)
  ultimately show ?thesis by blast
qed

text \<open>C32: A request posted to an idle loop that is answered, by a response that is no redirect, is executed by
  the next iteration, and its callback is called once, with exactly that response, on the client the
  exchange left.\<close>

theorem async_request_answered:
  assumes "runs_payloads env call lenv" and "el_task_queue l = []"
    and "answered env (apply_defaults (cl_config c) (cl_cookies c) req) c w (ds @ later)"
    and "pieces_of code reason hs body ds" and "code < 300 \<or> 400 \<le> code"
  shows "\<exists>resp c' w' l'. process_tasks lenv (execute_async req cb l, (c, w)) = (l', (c', call cb (Inr resp) w'))
    \<and> response_is code reason hs body resp \<and> execute env req c w = Some (Inr resp, c', w')
    \<and> el_task_queue l' = [] \<and> ls_tasks_executed (el_stats l') = ls_tasks_executed (el_stats l) + 1"
proof -
  obtain resp c' w' where x: "execute env req c w = Some (Inr resp, c', w')" "response_is code reason hs body resp"
    using execute_answered [OF assms(3-5)] unfolding execute_def by blast
  have "run_payloads env call (el_task_queue (execute_async req cb l)) (c, w) = Some (c', call cb (Inr resp) w')"
    using assms(2) x(1) by (simp add: payload_run_def)
  from process_posted_payloads [OF assms(1) this] show ?thesis
    using x assms(2) by (auto simp: execute_async_def el_post_def)
qed

theorem async_request_answered_witness:
  "\<exists>l l' c w. process_tasks demo_loop_env (execute_async http_request_default 1 l,
      (http_client_new client_config_default, net_script [response_head 200 ''OK'' sample_headers @ ''hi''])) = (l', (c, w))
    \<and> drop (length (nt_tx w) - 4) (nt_tx w) = ''done'' \<and> ls_tasks_executed (el_stats l') = 1"
proof -
  let ?d = "response_head 200 ''OK'' sample_headers @ ''hi''"
  let ?c = "http_client_new client_config_default :: net http_client"
  let ?l = "fst (loop_impl demo_loop_env loop_config_default undefined (?c, net_script [?d]))"
  have "length ?d \<le> recv_buf_size \<and> ?d \<noteq> []" by code_simp
  then have a: "list_all (\<lambda>d. d \<noteq> [] \<and> length d \<le> recv_buf_size) ([?d] @ [])" by simp
  have p: "pieces_of 200 ''OK'' sample_headers ''hi'' [?d]" by (simp add: pieces_of_def sample_headers_ok)
  have r: "runs_payloads demo_env demo_call demo_loop_env"
    by (auto simp: runs_payloads_def demo_loop_env_def)
  have l: "el_task_queue ?l = []" "ls_tasks_executed (el_stats ?l) = 0"
    by (simp_all add: loop_impl_def demo_loop_env_def)
  from async_request_answered [OF r l(1) demo_request [OF a] p, of 1] obtain resp c' w' l' where
    "process_tasks demo_loop_env (execute_async http_request_default 1 ?l, (?c, net_script [?d]))
       = (l', (c', demo_call 1 (Inr resp) w'))" "ls_tasks_executed (el_stats l') = 1"
    using l(2) by auto
  moreover have "drop (length (nt_tx (demo_call 1 (Inr resp) w')) - 4) (nt_tx (demo_call 1 (Inr resp) w')) = ''done''"
    by (simp add: demo_call_def)
  ultimately show ?thesis by blast
qed

subsection \<open>The two branches of the socket\<close>

text \<open>C37: The Winsock branch of \<open>tcp_socket\<close> does what the POSIX branch does, over the system calls \<open>posix_api\<close>
  makes of Winsock's: results, states, statistics and the calls made agree in every operation, \<open>INVALID_SOCKET\<close>
  being the descriptor -1.\<close>

theorem winsock_refines_posix:
  "tcp_create (posix_api api) ww = (case win_create api ww of (r, ww1) \<Rightarrow> (map_sum id posix_view r, ww1))
   \<and> tcp_connect (posix_api api) host port (posix_view s) ww = view_out (win_connect api host port s ww)
   \<and> tcp_send (posix_api api) data (posix_view s) ww = view_out (win_send api data s ww)
   \<and> tcp_receive (posix_api api) room (posix_view s) ww = view_out (win_receive api room s ww)
   \<and> tcp_close (posix_api api) (posix_view s) ww = view_out (win_close api s ww)
   \<and> tcp_shutdown (posix_api api) snd_side rcv_side (posix_view s) ww = win_shutdown api snd_side rcv_side s ww
   \<and> tcp_set_options (posix_api api) opts (posix_view s) ww = view_out (win_set_options api opts s ww)
   \<and> tcp_set_non_blocking (posix_api api) e (posix_view s) ww = view_out (win_set_non_blocking api e s ww)
   \<and> tcp_local_address (posix_api api) (posix_view s) ww = win_local_address api s ww
   \<and> tcp_remote_address (posix_api api) (posix_view s) ww = win_remote_address api s ww
   \<and> tcp_destroy (posix_api api) (posix_view s) ww = win_destroy api s ww
   \<and> tcp_valid (posix_view s) = win_valid s"
  by (intro conjI)
    (auto simp: win_create_view win_connect_view win_send_view win_receive_view win_close_view win_shutdown_view
      win_set_options_view win_set_non_blocking_view win_address_view win_destroy_view win_valid_view split: prod.split)

end
