(* ===== verification/Byte_Span.thy ===== *)
theory Byte_Span
  imports Byte_Buffer
begin

text \<open>
  \<open>include/vynx_http/byte_span.h\<close>: a view of bytes in memory. The code checks nothing: an offset beyond
  the size gives a view whose size wraps around, and reading outside the memory has no result.
\<close>

record byte_span =
  sp_data :: nat
  sp_size :: nat

definition span_empty :: byte_span where
  "span_empty = \<lparr>sp_data = 0, sp_size = 0\<rparr>"

definition span_make :: "nat \<Rightarrow> nat \<Rightarrow> byte_span" where
  "span_make p n = \<lparr>sp_data = p, sp_size = n\<rparr>"

text \<open>An array, a vector, a string or a literal is viewed as it lies in memory: at an address, with its length.\<close>

definition span_of_array :: "nat \<Rightarrow> byte list \<Rightarrow> byte_span" where
  "span_of_array p arr = \<lparr>sp_data = p, sp_size = length arr\<rparr>"

definition span_of_vector :: "nat \<Rightarrow> byte list \<Rightarrow> byte_span" where
  "span_of_vector p vec = \<lparr>sp_data = p, sp_size = length vec\<rparr>"

definition span_of_string :: "nat \<Rightarrow> string \<Rightarrow> byte_span" where
  "span_of_string p sv = \<lparr>sp_data = p, sp_size = length sv\<rparr>"

definition span_literal :: "nat \<Rightarrow> nat \<Rightarrow> byte_span" where
  "span_literal str len = span_make str len"

definition span_end :: "byte_span \<Rightarrow> nat" where
  "span_end s = sp_data s + sp_size s"

definition span_is_empty :: "byte_span \<Rightarrow> bool" where
  "span_is_empty s \<longleftrightarrow> sp_size s = 0"

definition span_at :: "mem \<Rightarrow> byte_span \<Rightarrow> nat \<Rightarrow> byte option" where
  "span_at m s i = (if sp_data s + i < length m then Some (m ! (sp_data s + i)) else None)"

definition subspan :: "nat \<Rightarrow> nat \<Rightarrow> byte_span \<Rightarrow> byte_span" where
  "subspan offset count s = \<lparr>sp_data = sp_data s + offset, sp_size = count\<rparr>"

definition subspan_from :: "nat \<Rightarrow> byte_span \<Rightarrow> byte_span" where
  "subspan_from offset s =
     \<lparr>sp_data = sp_data s + offset, sp_size = unat (of_nat (sp_size s) - of_nat offset :: 64 word)\<rparr>"

definition span_bytes :: "mem \<Rightarrow> byte_span \<Rightarrow> byte list" where
  "span_bytes m s = mem_read (sp_data s) (sp_size s) m"

definition span_to_string_view :: "mem \<Rightarrow> byte_span \<Rightarrow> string" where
  "span_to_string_view m s = mem_read (sp_data s) (sp_size s) m"

definition span_eq :: "mem \<Rightarrow> byte_span \<Rightarrow> byte_span \<Rightarrow> bool" where
  "span_eq m a b \<longleftrightarrow> (if sp_size a \<noteq> sp_size b then False else span_bytes m a = span_bytes m b)"

definition span_neq :: "mem \<Rightarrow> byte_span \<Rightarrow> byte_span \<Rightarrow> bool" where
  "span_neq m a b \<longleftrightarrow> \<not> span_eq m a b"

definition span_find_byte :: "mem \<Rightarrow> byte \<Rightarrow> nat \<Rightarrow> byte_span \<Rightarrow> nat" where
  "span_find_byte m v pos s =
     (case List.find (\<lambda>i. m ! (sp_data s + i) = v) [pos..<sp_size s] of None \<Rightarrow> npos | Some i \<Rightarrow> i)"

definition span_find :: "mem \<Rightarrow> byte_span \<Rightarrow> nat \<Rightarrow> byte_span \<Rightarrow> nat" where
  "span_find m pat pos s =
     (if sp_size pat > sp_size s then npos
      else case List.find (\<lambda>i. mem_read (sp_data s + i) (sp_size pat) m = span_bytes m pat)
                  [pos..<Suc (sp_size s - sp_size pat)] of None \<Rightarrow> npos | Some i \<Rightarrow> i)"

subsection \<open>Facts\<close>

definition span_ok :: "mem \<Rightarrow> byte_span \<Rightarrow> bool" where
  "span_ok m s \<longleftrightarrow> sp_data s + sp_size s \<le> length m"

text \<open>A view shows the bytes that lie there, and views compare by them.\<close>

lemma span_of_string_bytes:
  "span_to_string_view (pre @ sv @ post) (span_of_string (length pre) sv) = sv"
  "span_bytes (pre @ sv @ post) (span_of_vector (length pre) sv) = sv"
  by (simp_all add: span_to_string_view_def span_of_string_def span_bytes_def span_of_vector_def mem_read_def)

lemma span_neq_iff:
  assumes "span_ok m a" and "span_ok m b"
  shows "span_neq m a b \<longleftrightarrow> span_bytes m a \<noteq> span_bytes m b"
proof -
  have "length (span_bytes m s) = sp_size s" if "span_ok m s" for s
    using that by (simp add: span_ok_def span_bytes_def mem_read_def)
  from this [OF assms(1)] this [OF assms(2)] show ?thesis by (auto simp: span_neq_def span_eq_def)
qed

lemma subspan_bytes:
  "offset + count \<le> sp_size s \<Longrightarrow> span_bytes m (subspan offset count s) = take count (drop offset (span_bytes m s))"
  by (simp add: span_bytes_def subspan_def mem_read_def drop_take add.commute min_def)

lemma subspan_from_bytes:
  assumes "offset \<le> sp_size s" and "sp_size s < 2 ^ 64"
  shows "span_bytes m (subspan_from offset s) = drop offset (span_bytes m s)"
proof -
  have "unat (of_nat (sp_size s) - of_nat offset :: 64 word) = sp_size s - offset"
    using assms by (simp add: unat_sub_if' unat_of_nat)
  then show ?thesis by (simp add: subspan_from_def span_bytes_def mem_read_def drop_take add.commute)
qed

text \<open>Past the end the size wraps around.\<close>

lemma subspan_from_wraps: "sp_size (subspan_from 1 span_empty) = 2 ^ 64 - 1"
  by (simp add: subspan_from_def span_empty_def unsigned_minus_1_eq_mask mask_eq_exp_minus_1)

lemma span_find_byte_first:
  assumes "span_find_byte m v pos s = i" and "i \<noteq> npos"
  shows "pos \<le> i \<and> i < sp_size s \<and> m ! (sp_data s + i) = v \<and>
         (\<forall>j. pos \<le> j \<and> j < i \<longrightarrow> m ! (sp_data s + j) \<noteq> v)"
proof -
  have found: "List.find (\<lambda>i. m ! (sp_data s + i) = v) [pos..<sp_size s] = Some i"
    using assms by (simp add: span_find_byte_def split: option.splits)
  then obtain k where k: "k < sp_size s - pos" "i = pos + k" "m ! (sp_data s + i) = v"
      and before: "\<And>j. j < k \<Longrightarrow> m ! (sp_data s + (pos + j)) \<noteq> v"
    by (auto simp: find_Some_iff)
  have "m ! (sp_data s + j) \<noteq> v" if "pos \<le> j" "j < i" for j
    using before[of "j - pos"] that k(2) by simp
  then show ?thesis using k by auto
qed

end
