(* ===== verification/Component_Tests.thy ===== *)
theory Component_Tests
  imports Service_Claims Loop_Claims Byte_Span Buffer_Pool Signal_Handler Dns_Resolver "HOL-Library.Code_Target_Nat"
begin

text \<open>
  The unit tests of the repository (\<open>src/tests\<close>), stated on the model: what each test expects of the
  program holds of the definitions. A test at fixed values is an evaluation; a test that only uses its
  values as a sample is stated for all of them. The tests that open sockets, create a poller or start
  threads are not here.
\<close>

definition text_lines :: "string list \<Rightarrow> string" where
  "text_lines ls = concat (map (\<lambda>l. l @ crlf) ls)"

subsection \<open>\<open>tests/http_types.cpp\<close>\<close>

lemma test_method_to_string_all:
  "map method_to_string [Method_get, Method_post, Method_put, Method_patch, Method_del, Method_head, Method_options,
     Method_trace, Method_connect]
   = [''GET'', ''POST'', ''PUT'', ''PATCH'', ''DELETE'', ''HEAD'', ''OPTIONS'', ''TRACE'', ''CONNECT'']"
  by code_simp

lemma test_parse_method:
  "map parse_http_method [''GET'', ''POST'', ''PUT'', ''PATCH'', ''DELETE'', ''HEAD'', ''OPTIONS'', ''TRACE'', ''CONNECT'']
   = map Inr [Method_get, Method_post, Method_put, Method_patch, Method_del, Method_head, Method_options,
       Method_trace, Method_connect]"
  by code_simp

lemma test_parse_method_case_insensitive:
  "map parse_http_method [''get'', ''Post'', ''delete''] = map Inr [Method_get, Method_post, Method_del]"
  by code_simp

lemma test_parse_method_invalid:
  "map parse_http_method [''INVALID'', []] = [Inl http_invalid_method, Inl http_invalid_method]"
  by code_simp

lemma test_headers_add:
  "hdr_empty [] \<and> hdr_size [] = 0 \<and> hdr_size (hdr_add ''Content-Type'' ''text/html'' []) = 1
   \<and> hdr_size (hdr_add ''Content-Length'' ''42'' (hdr_add ''Content-Type'' ''text/html'' [])) = 2
   \<and> hdr_size (hdr_add ''Set-Cookie'' ''b=2'' (hdr_add ''Set-Cookie'' ''a=1'' [])) = 2"
  by code_simp

lemma test_headers_set:
  "hdr_set ''Content-Type'' ''application/json'' (hdr_add ''Content-Type'' ''text/html'' [])
   = [\<lparr>hf_name = ''Content-Type'', hf_value = ''application/json''\<rparr>]
   \<and> hdr_size (hdr_set ''Content-Type'' ''text/html'' []) = 1"
  by code_simp

lemma test_headers_get_case_insensitive:
  "map (\<lambda>n. hdr_get n (hdr_add ''Content-Type'' ''text/html'' [])) [''content-type'', ''CONTENT-TYPE'', ''Content-Type'', ''Host'']
   = [Some ''text/html'', Some ''text/html'', Some ''text/html'', None]"
  by code_simp

lemma test_headers_contains_case_insensitive:
  "map (\<lambda>n. hdr_contains n (hdr_add ''X-Custom'' ''value'' [])) [''x-custom'', ''X-CUSTOM'', ''X-Other''] = [True, True, False]"
  by code_simp

lemma test_headers_remove:
  "hdr_remove ''x-remove'' (hdr_add ''X-Keep'' ''other'' (hdr_add ''X-Remove'' ''value'' []))
   = [\<lparr>hf_name = ''X-Keep'', hf_value = ''other''\<rparr>]
   \<and> hdr_size (hdr_remove ''X-NotExist'' (hdr_add ''X-Keep'' ''other'' [])) = 1"
  by code_simp

lemma test_headers_host:
  "hdr_host ''fallback'' [] = ''fallback'' \<and> hdr_host ''fallback'' (hdr_add ''Host'' ''example.com'' []) = ''example.com''"
  by code_simp

lemma test_headers_content_length:
  "hdr_content_length (hdr_add ''Content-Length'' ''12345'' []) = Some 12345 \<and> hdr_content_length [] = None
   \<and> hdr_content_length (hdr_add ''Content-Length'' ''not-a-number'' []) = None"
  by code_simp

lemma test_headers_is_chunked:
  "map (\<lambda>v. hdr_is_chunked (hdr_set ''Transfer-Encoding'' v [])) [''chunked'', ''Chunked'', ''CHUNKED'', ''identity'']
   = [True, True, True, False] \<and> \<not> hdr_is_chunked []"
  by code_simp

lemma test_headers_connection_keep_alive:
  "map (\<lambda>v. hdr_connection_keep_alive (hdr_add ''Connection'' v [])) [''keep-alive'', ''close'', ''Close'']
   = [True, False, False] \<and> hdr_connection_keep_alive []"
  by code_simp

lemma test_request_line:
  "rq_method http_request_default = Method_get
   \<and> request_line (http_request_default\<lparr>rq_uri := ''/index.html''\<rparr>) = ''GET /index.html HTTP/1.1'' @ crlf
   \<and> request_line (http_request_default\<lparr>rq_method := Method_post, rq_uri := ''/api/data''\<rparr>) = ''POST /api/data HTTP/1.1'' @ crlf"
  by (simp add: request_line_def http_request_default_def)

lemma test_serialize_minimal:
  "\<exists>b. serialize (http_request_default\<lparr>rq_uri := ''/'', rq_host := ''example.com'',
         rq_headers := hdr_set ''Host'' ''example.com'' []\<rparr>) = Some b
     \<and> bb_contents b = text_lines [''GET / HTTP/1.1'', ''Host: example.com'', []]"
  using serialize_view [of "http_request_default\<lparr>rq_uri := ''/'', rq_host := ''example.com'',
         rq_headers := hdr_set ''Host'' ''example.com'' []\<rparr>"]
  by (fastforce simp: http_request_default_def request_text_def request_line_def header_line_def uri_single_line_def text_lines_def)

lemma test_serialize_with_body:
  "\<exists>b. serialize (http_request_default\<lparr>rq_method := Method_post, rq_uri := ''/submit'', rq_host := ''example.com'',
         rq_headers := hdr_set ''Content-Length'' ''5'' (hdr_set ''Content-Type'' ''text/plain''
           (hdr_set ''Host'' ''example.com'' [])), rq_body := bb_from_data ''hello''\<rparr>) = Some b
     \<and> bb_contents b = text_lines [''POST /submit HTTP/1.1'', ''Host: example.com'', ''Content-Type: text/plain'',
         ''Content-Length: 5'', []] @ ''hello''"
proof -
  have "hdr_set ''Content-Length'' ''5'' (hdr_set ''Content-Type'' ''text/plain'' (hdr_set ''Host'' ''example.com'' []))
    = [\<lparr>hf_name = ''Host'', hf_value = ''example.com''\<rparr>, \<lparr>hf_name = ''Content-Type'', hf_value = ''text/plain''\<rparr>,
       \<lparr>hf_name = ''Content-Length'', hf_value = ''5''\<rparr>]"
    by code_simp
  then show ?thesis
    using serialize_view [of "http_request_default\<lparr>rq_method := Method_post, rq_uri := ''/submit'',
      rq_host := ''example.com'', rq_headers := hdr_set ''Content-Length'' ''5''
        (hdr_set ''Content-Type'' ''text/plain'' (hdr_set ''Host'' ''example.com'' [])), rq_body := bb_from_data ''hello''\<rparr>"]
    by (fastforce simp: http_request_default_def request_text_def request_line_def header_line_def uri_single_line_def text_lines_def)
qed

abbreviation status_response :: "16 word \<Rightarrow> byte_buffer http_response" where
  "status_response code \<equiv> response_default\<lparr>rs_status_code := code\<rparr>"

lemma test_response_status:
  "rs_status_code response_default = 0
   \<and> list_all (\<lambda>c. is_success (status_response c)) [200, 201, 204] \<and> \<not> list_ex (\<lambda>c. is_success (status_response c)) [301, 404, 500]
   \<and> list_all (\<lambda>c. is_redirect (status_response c)) [301, 302, 304] \<and> \<not> list_ex (\<lambda>c. is_redirect (status_response c)) [200, 404]
   \<and> map (\<lambda>c. resp_status (status_response c)) [200, 404, 500] = [200, 404, 500]"
  by (simp add: response_default_def is_success_def is_redirect_def resp_status_def)

lemma test_reason_phrase:
  "map reason_phrase [200, 201, 204, 301, 302, 304, 400, 401, 403, 404, 405, 408, 429, 500, 502, 503, 504, 999]
   = [''OK'', ''Created'', ''No Content'', ''Moved Permanently'', ''Found'', ''Not Modified'', ''Bad Request'',
      ''Unauthorized'', ''Forbidden'', ''Not Found'', ''Method Not Allowed'', ''Request Timeout'', ''Too Many Requests'',
      ''Internal Server Error'', ''Bad Gateway'', ''Service Unavailable'', ''Gateway Timeout'', ''Unknown'']"
  by code_simp

subsection \<open>\<open>tests/error_code.cpp\<close> and \<open>tests/result.cpp\<close>\<close>

lemma test_error_messages:
  "map (\<lambda>c. category_message (ec_value c)) [ec_ok, connection_refused, connection_timeout, tls_handshake_failed,
     http_parse_error, buffer_overflow, operation_cancelled]
   = [''success'', ''connection refused'', ''connection timeout'', ''tls handshake failed'', ''http parse error'',
      ''buffer overflow'', ''operation cancelled'']"
  by code_simp

lemma test_make_error_code:
  "category_name = ''vynx_http'' \<and> make_error_code ec_ok = (ec_value ec_ok, category_name)
   \<and> make_error_condition connection_refused = (ec_value connection_refused, category_name)
   \<and> ec_ok \<noteq> connection_refused \<and> ec_value ec_ok < ec_value connection_refused"
  by code_simp

lemma test_result:
  "(let r = Inr 42 :: int result; e = Inl connection_refused :: int result in
     res_ok r \<and> \<not> res_has_error r \<and> res_value r = Some 42 \<and> \<not> res_ok e \<and> res_has_error e
     \<and> res_error e = Some connection_refused \<and> res_value_or r 0 = 42 \<and> res_value_or e 99 = 99
     \<and> res_map (\<lambda>v. v * 2) (Inr 21) = (Inr 42 :: int result) \<and> res_map (\<lambda>v. v * 2) e = Inl connection_refused)"
  by code_simp

lemma test_result_void:
  "v_ok make_result_void \<and> \<not> v_has_error make_result_void \<and> \<not> v_ok operation_cancelled
   \<and> v_has_error operation_cancelled \<and> v_error operation_cancelled = Some operation_cancelled"
  by code_simp

subsection \<open>\<open>tests/platform.cpp\<close>\<close>

lemma test_event_flags:
  "(let combined = ev_or ev_read ev_write; masked = ev_and combined ev_read in
     map (has_flag combined) [ev_read, ev_write, ev_error] = [True, True, False]
     \<and> map (has_flag ev_read) [ev_read, ev_write] = [True, False]
     \<and> map (has_flag masked) [ev_read, ev_write] = [True, False]
     \<and> map (has_flag ev_none) [ev_read, ev_write] = [False, False])
   \<and> list_all (has_flag (fold ev_or [ev_write, ev_accept, ev_connect, ev_error, ev_hangup] ev_read))
      [ev_read, ev_write, ev_accept, ev_connect, ev_error, ev_hangup]"
  by code_simp

subsection \<open>\<open>tests/byte_span.cpp\<close>\<close>

text \<open>The arrays of a test lie one after the other in the memory.\<close>

abbreviation byte_values :: "nat list \<Rightarrow> byte list" where
  "byte_values ns \<equiv> map char_of ns"

lemma test_span_construction:
  "span_is_empty span_empty \<and> sp_size span_empty = 0 \<and> sp_data span_empty = 0
   \<and> sp_size (span_make 8 5) = 5 \<and> sp_data (span_make 8 5) = 8"
  by code_simp

lemma test_subspan:
  "subspan 1 3 (span_make 8 5) = span_make 9 3 \<and> subspan_from 2 (span_make 8 5) = span_make 10 3"
  by code_simp

lemma test_span_equality:
  "(let m = byte_values [1, 2, 1, 2, 1, 3] in
     span_eq m (span_make 0 2) (span_make 2 2) \<and> \<not> span_eq m (span_make 0 2) (span_make 4 2))"
  by code_simp

lemma test_span_to_vector: "span_bytes (byte_values [1, 2, 3]) (span_make 0 3) = byte_values [1, 2, 3]"
  by code_simp

lemma test_span_find:
  "(let m = byte_values [1, 2, 3, 4, 5, 2, 3]; s = span_make 0 5 in
     span_find_byte m (char_of (3::nat)) 0 s = 2 \<and> span_find_byte m (char_of (6::nat)) 0 s = npos
     \<and> span_find m (span_make 5 2) 0 s = 1)"
  by code_simp

subsection \<open>The cookie jar, in \<open>tests/http_parser.cpp\<close>\<close>

abbreviation test_cookie :: "string \<Rightarrow> string \<Rightarrow> string \<Rightarrow> cookie_entry" where
  "test_cookie name val path \<equiv>
     cookie_default\<lparr>ck_name := name, ck_value := val, ck_domain := ''example.com'', ck_path := path\<rparr>"

lemma test_set_cookie_entry: "jar_size [] = 0 \<and> jar_size (set_cookie (test_cookie ''session'' ''abc123'' ''/'') []) = 1"
  by code_simp

lemma test_set_cookie_replaces_same_domain_path:
  "jar_size (set_cookie (test_cookie ''session'' ''new'' ''/'') (set_cookie (test_cookie ''session'' ''old'' ''/'') [])) = 1
   \<and> build_cookie_header ''example.com'' ''/''
      (set_cookie (test_cookie ''session'' ''new'' ''/'') (set_cookie (test_cookie ''session'' ''old'' ''/'') [])) = ''session=new''"
  by code_simp

lemma test_cookie_header_matching_domain:
  "map (\<lambda>h. build_cookie_header h ''/'' (set_cookie (test_cookie ''id'' ''42'' ''/'') []))
     [''example.com'', ''sub.example.com'', ''other.com''] = [''id=42'', ''id=42'', []]"
  by code_simp

lemma test_cookie_header_matching_path:
  "map (\<lambda>path. build_cookie_header ''example.com'' path (set_cookie (test_cookie ''id'' ''42'' ''/api'') []))
     [''/api'', ''/api/sub'', ''/other''] = [''id=42'', ''id=42'', []]"
  by code_simp

lemma test_cookie_header_multiple:
  "build_cookie_header ''example.com'' ''/'' (set_cookie (test_cookie ''b'' ''2'' ''/'') (set_cookie (test_cookie ''a'' ''1'' ''/'') []))
   = ''a=1; b=2''"
  by code_simp

lemma test_set_cookie_from_string:
  "jar_size (set_cookie_line ''session=abc123; Domain=example.com; Path=/; Secure'' ''example.com'' []) = 1
   \<and> build_cookie_header ''example.com'' ''/''
      (set_cookie_line ''session=abc123; Domain=example.com; Path=/; Secure'' ''example.com'' []) = ''session=abc123''"
  by code_simp

lemma test_set_cookie_defaults_domain:
  "build_cookie_header ''myhost.com'' ''/'' (set_cookie_line ''token=xyz'' ''myhost.com'' []) = ''token=xyz''"
  by code_simp

lemma test_jar_clear:
  "jar_size (set_cookie_line ''b=2'' ''example.com'' (set_cookie_line ''a=1'' ''example.com'' [])) = 2
   \<and> jar_size (jar_clear (set_cookie_line ''b=2'' ''example.com'' (set_cookie_line ''a=1'' ''example.com'' []))) = 0"
  by code_simp

subsection \<open>\<open>tests/byte_buffer.cpp\<close>\<close>

lemma test_buffer_construction:
  "bb_empty (bb_new cap)" "bb_capacity (bb_new cap) = cap" "bb_capacity bb_default = default_capacity"
  "bb_size (bb_from_data bs) = length bs"
  by (simp_all add: bb_empty_def bb_new_def bb_capacity_def bb_default_def bb_from_data_def bb_size_def)

lemma test_buffer_move: "fst (bb_move b) = b" "bb_size (snd (bb_move b)) = 0"
  by (simp_all add: bb_move_def bb_moved_from_def bb_size_def)

lemma written_to_default:
  "\<exists>b. bb_write bs bb_default = Some b \<and> bb_live b \<and> bb_wf b \<and> bb_contents b = bs \<and> bb_size b = length bs"
  using bb_write_view [OF bb_live_default, of bs] length_bb_contents by fastforce

lemma test_buffer_write_and_read:
  "\<exists>b b'. bb_write bs bb_default = Some b \<and> bb_size b = length bs \<and> bb_read (length bs) b = (bs, b') \<and> bb_size b' = 0"
proof -
  obtain b where b: "bb_write bs bb_default = Some b" "bb_wf b" "bb_contents b = bs" "bb_size b = length bs"
    using written_to_default by blast
  obtain out b' where r: "bb_read (length bs) b = (out, b')" by fastforce
  show ?thesis using b r bb_read_view [OF b(2) r] length_bb_contents [of b'] by auto
qed

lemma test_buffer_write_from_buffer:
  "\<exists>src b. bb_write bs bb_default = Some src \<and> bb_write_buffer src bb_default = Some b \<and> bb_size b = length bs"
  using written_to_default [of bs] by (auto simp: bb_write_buffer_def)

lemma test_buffer_peek:
  "\<exists>b. bb_write bs bb_default = Some b \<and> bb_peek n b = take n bs \<and> bb_size b = length bs"
  using written_to_default [of bs] bb_peek_view by metis

lemma test_buffer_find:
  "bb_find_byte (char_of (3::nat)) 0 (bb_from_data (map char_of [1::nat, 2, 3, 4, 5])) = Some 2
   \<and> bb_find_byte (char_of (6::nat)) 0 (bb_from_data (map char_of [1::nat, 2, 3, 4, 5])) = Some npos
   \<and> bb_find (map char_of [2::nat, 3]) 0 (bb_from_data (map char_of [1::nat, 2, 3, 4, 5])) = 1"
  by code_simp

lemma test_buffer_compact:
  "(case bb_read 2 (bb_from_data (map char_of [1::nat, 2, 3, 4, 5])) of (_, b) \<Rightarrow>
      bb_size b = 3 \<and> bb_size (bb_compact b) = 3 \<and> fst (bb_read 3 (bb_compact b)) = map char_of [3::nat, 4, 5])"
  by code_simp

lemma test_buffer_reset: "bb_size (bb_reset b) = 0 \<and> bb_empty (bb_reset b)"
  by (simp add: bb_reset_def bb_size_def bb_empty_def)

lemma test_buffer_advance:
  "(case bb_advance_read 2 (bb_from_data (map char_of [1::nat, 2, 3])) of
      None \<Rightarrow> False | Some b \<Rightarrow> bb_size b = 1 \<and> bb_contents b = map char_of [3::nat])
   \<and> (case bb_advance_write 5 (bb_new 16) of None \<Rightarrow> False | Some b \<Rightarrow> bb_size b = 5 \<and> bb_available b = 11)"
  by code_simp

lemma test_buffer_ensure_capacity:
  "\<exists>b. bb_ensure_capacity 100 (bb_new 16) = Some b \<and> 100 \<le> bb_capacity b"
  using bb_ensure_capacity_view [OF bb_live_new, of 16 100] by (fastforce simp: bb_available_def)

subsection \<open>\<open>tests/buffer_pool.cpp\<close>\<close>

lemma test_pool_construction:
  "bp_size bp_default = 16" "pc_buffer_capacity (bp_config bp_default) = 4096" "bp_size (bp_new cfg) = pc_initial_size cfg"
  by (simp_all add: bp_size_def bp_default_def bp_new_def pool_config_default_def)

lemma test_pool_acquire_and_release:
  "(case bp_acquire bp_default of (b, p) \<Rightarrow> bp_size p = 15 \<and> bp_size (bp_release (Some b) p) = 16)"
  by (simp add: bp_acquire_def bp_release_def bp_size_def bp_default_def bp_new_def pool_config_default_def)

lemma test_pool_acquire_from_empty:
  "bp_size (snd (bp_acquire (bp_new (pool_config_default\<lparr>pc_initial_size := 0\<rparr>)))) = 0"
  by (simp add: bp_acquire_def bp_size_def bp_new_def)

lemma test_pool_release_null: "bp_size (bp_release None bp_default) = 16"
  by (simp add: bp_release_def bp_size_def bp_default_def bp_new_def pool_config_default_def)

lemma test_pool_exceed_max_size:
  "(let p = bp_new (pool_config_default\<lparr>pc_initial_size := 2, pc_max_size := 2\<rparr>);
       (b1, p1) = bp_acquire p; (b2, p2) = bp_acquire p1; (b3, p3) = bp_acquire p2 in
     bp_size (fold (\<lambda>b. bp_release (Some b)) [b1, b2, b3] p3) = 2)"
  by (simp add: bp_acquire_def bp_release_def bp_size_def bp_new_def pool_config_default_def Let_def numeral_2_eq_2)

lemma test_pool_clear: "bp_size (bp_clear p) = 0"
  by (simp add: bp_clear_def bp_size_def)

text \<open>A buffer that was written and given back comes out empty.\<close>

lemma test_pool_buffer_reset:
  "length (bp_pool p) < pc_max_size (bp_config p) \<Longrightarrow> bb_size (fst (bp_acquire (bp_release (Some b) p))) = 0"
  by (simp add: bp_acquire_def bp_release_def bb_reset_def bb_size_def)

lemma test_buffer_guard:
  "(case guard_new i (pools(i := bp_default)) of (g, ps) \<Rightarrow>
     bg_buffer g \<noteq> None \<and> bp_size (ps i) = 15 \<and> bp_size (guard_destroy g ps i) = 16)"
  by (simp add: guard_new_def guard_destroy_def bp_acquire_def bp_release_def bp_size_def bp_default_def bp_new_def
      pool_config_default_def)

lemma test_buffer_guard_move:
  "(case guard_new i (pools(i := bp_default)) of (g1, ps) \<Rightarrow> case guard_move g1 of (g2, g1') \<Rightarrow>
     bp_size (ps i) = 15 \<and> bp_size (guard_destroy g1' (guard_destroy g2 ps) i) = 16)"
  by (simp add: guard_new_def guard_move_def guard_destroy_def bp_acquire_def bp_release_def bp_size_def bp_default_def
      bp_new_def pool_config_default_def)

lemma test_buffer_guard_release:
  "(case guard_new i (pools(i := bp_default)) of (g, ps) \<Rightarrow> case guard_release g of (b, g') \<Rightarrow>
     b \<noteq> None \<and> bp_size (guard_destroy g' ps i) = 15)"
  by (simp add: guard_new_def guard_release_def guard_destroy_def bp_acquire_def bp_release_def bp_size_def bp_default_def
      bp_new_def pool_config_default_def)

subsection \<open>\<open>tests/timeout_manager.cpp\<close>\<close>

text \<open>On any loop: the tests run none.\<close>

abbreviation no_timeouts :: "'u timeout_manager option" where
  "no_timeouts \<equiv> set_event_loop True (Some tm_impl)"

lemmas timeout_defs = start_timeout_def cancel_timeout_def cancel_all_def reset_idle_def is_active_def active_count_def
  tm_get_stats_def set_event_loop_def tm_impl_def tm_start_def tm_cancel_def tm_cancel_all_def replace_active_def
  count_cancelled_def recount_def count_active_in_map_def tm_is_active_def make_key_def timeout_code_def
  deactivate_def v_has_error_def make_result_void_def

lemma test_timeout_defaults:
  "tm_create = Inr (Some tm_impl)" "tst_fired (tm_get_stats (Some tm_impl)) = 0"
  "tst_cancelled (tm_get_stats (Some tm_impl)) = 0" "active_count (Some tm_impl) = 0"
  by (simp_all add: tm_create_def timeout_defs)

lemma test_timeout_start_and_cancel:
  "(case start_timeout env 42 T_connect 100 cb no_timeouts s of (r, tm, (l, w)) \<Rightarrow>
      r = ec_ok \<and> is_active 42 T_connect tm \<and> active_count tm = 1
      \<and> (case cancel_timeout 42 T_connect tm l of (r', tm', l') \<Rightarrow>
          r' = ec_ok \<and> \<not> is_active 42 T_connect tm' \<and> active_count tm' = 0))"
  by (simp add: timeout_defs split: prod.split)

lemma test_timeout_cancel_all:
  "(case start_timeout env 42 T_connect 5000 cb no_timeouts s of (_, tm1, s1) \<Rightarrow>
    case start_timeout env 42 T_read 5000 cb tm1 s1 of (_, tm2, (l, w)) \<Rightarrow>
      active_count tm2 = 2 \<and> (case cancel_all 42 tm2 l of (_, tm3, _) \<Rightarrow> active_count tm3 = 0))"
  by (simp add: timeout_defs split: prod.split)

lemma test_timeout_reset_idle:
  "(case start_timeout env 42 T_idle 5000 cb no_timeouts s of (r, tm, s1) \<Rightarrow>
      r = ec_ok \<and> is_active 42 T_idle tm
      \<and> (case reset_idle env 42 5000 tm s1 of (r', tm', _) \<Rightarrow>
          r' = ec_ok \<and> is_active 42 T_idle tm' \<and> active_count tm' = 1))"
  by (simp add: timeout_defs split: prod.split)

lemma test_timeout_start_duplicate_replaces:
  "(case start_timeout env 42 T_connect 5000 cb no_timeouts s of (_, tm1, s1) \<Rightarrow>
    case start_timeout env 42 T_connect 5000 cb tm1 s1 of (_, tm2, _) \<Rightarrow>
      active_count tm2 = 1 \<and> tst_cancelled (tm_get_stats tm2) = 1)"
  by (simp add: timeout_defs split: prod.split)

lemma test_timeout_different_handles_independent:
  "(case start_timeout env 1 T_connect 5000 cb no_timeouts s of (_, tm1, s1) \<Rightarrow>
    case start_timeout env 2 T_connect 5000 cb tm1 s1 of (_, tm2, (l, w)) \<Rightarrow>
      active_count tm2 = 2
      \<and> (case cancel_timeout 1 T_connect tm2 l of (_, tm3, _) \<Rightarrow>
          active_count tm3 = 1 \<and> \<not> is_active 1 T_connect tm3 \<and> is_active 2 T_connect tm3))"
  by (simp add: timeout_defs split: prod.split)

lemma test_timeout_no_event_loop:
  "(case start_timeout env 42 T_connect 100 cb (Some tm_impl) s of (r, tm, _) \<Rightarrow>
      r = ec_ok \<and> is_active 42 T_connect tm \<and> active_count tm = 1)"
  by (simp add: timeout_defs split: prod.split)

subsection \<open>\<open>tests/signal_handler.cpp\<close> and \<open>tests/dns_resolver.cpp\<close>\<close>

lemma test_signal_defaults:
  "(case sig_create api a sx of (r, (sw, x)) \<Rightarrow>
     r = Inr (Some a) \<and> \<not> has_received (Some a) Sigint sw \<and> \<not> has_received (Some a) Sigterm sw
     \<and> signal_count (Some a) sw = 0 \<and> last_signal (Some a) sw = Sig_unknown
     \<and> fst (register_callback (Some a) Sigint cb sw) = ec_ok \<and> fst (unregister_callback (Some a) Sigint sw) = ec_ok)"
  by (simp add: sig_create_def has_received_def signal_count_def last_signal_def state_of_def signal_state_init_def
      register_callback_def unregister_callback_def make_result_void_def)

lemma test_dns_defaults:
  "(let r = dns_create dns_config_default; cfg = ds_config r in
     dc_primary_server cfg = ''8.8.8.8'' \<and> dc_secondary_server cfg = ''8.8.4.4'' \<and> dc_port cfg = 53
     \<and> dc_enable_ipv6 cfg \<and> dc_enable_canonical_names cfg
     \<and> ds_cache r = [] \<and> ds_hits r = 0 \<and> ds_misses r = 0 \<and> ds_expired r = 0)"
  by (simp add: dns_create_def dns_config_default_def Let_def)

end
