(* ===== verification/Http_Parser_Tests.thy ===== *)
theory Http_Parser_Tests
  imports Component_Tests
begin

text \<open>
  The tests of the response parser (\<open>src/tests/http_parser.cpp\<close>), stated on the model. The parser is run
  through its specification, the body buffer of the program being too large to evaluate;
  \<open>feeds_eval\<close> carries the result over to the program.
\<close>

subsection \<open>Running the parser\<close>

text \<open>The reads one after the other, whatever they return, with the results.\<close>

fun feeds :: "byte list list \<Rightarrow> byte_buffer http_parser \<Rightarrow> (vresult list \<times> byte_buffer http_parser) option" where
  "feeds [] p = Some ([], p)"
| "feeds (d # ds) p =
     (case feed d p of
        None \<Rightarrow> None
      | Some (r, p1) \<Rightarrow> map_option (\<lambda>(rs, p2). (r # rs, p2)) (feeds ds p1))"

fun spec_feeds :: "byte list list \<Rightarrow> spec_parser \<Rightarrow> vresult list \<times> spec_parser" where
  "spec_feeds [] p = ([], p)"
| "spec_feeds (d # ds) p =
     (case spec_feed d p of (r, p1) \<Rightarrow> case spec_feeds ds p1 of (rs, p2) \<Rightarrow> (r # rs, p2))"

definition after_feeds :: "byte list list \<Rightarrow> (vresult list \<Rightarrow> spec_parser \<Rightarrow> bool) \<Rightarrow> bool" where
  "after_feeds ds P \<longleftrightarrow> (\<exists>rs p. feeds ds http_parser_init = Some (rs, p) \<and> P rs (hp_abs p))"

lemma feeds_eval:
  "hp_live p \<Longrightarrow> \<exists>p'. feeds ds p = Some (fst (spec_feeds ds (hp_abs p)), p') \<and> hp_live p'
    \<and> hp_abs p' = snd (spec_feeds ds (hp_abs p))"
proof (induction ds arbitrary: p)
  case (Cons d ds)
  obtain r p1 where f: "feed d p = Some (r, p1)" "hp_live p1" "spec_feed d (hp_abs p) = (r, hp_abs p1)"
    using feed_refines [OF Cons.prems, of d] by blast
  then show ?case using Cons.IH [OF f(2)] by (auto split: prod.split)
qed simp

lemma after_feedsI: "(case spec_feeds ds spec_init of (rs, q) \<Rightarrow> P rs q) \<Longrightarrow> after_feeds ds P"
  using feeds_eval [OF hp_live_init, of ds] by (auto simp: after_feeds_def split: prod.splits)

subsection \<open>\<open>tests/http_parser.cpp\<close>\<close>

abbreviation hp_status :: "'b http_parser \<Rightarrow> 16 word" where
  "hp_status p \<equiv> rs_status_code (hp_response p)"

abbreviation hp_body :: "'b http_parser \<Rightarrow> 'b" where
  "hp_body p \<equiv> rs_body (hp_response p)"

abbreviation hp_headers :: "'b http_parser \<Rightarrow> http_headers" where
  "hp_headers p \<equiv> rs_headers (hp_response p)"

lemma test_simple_get_response:
  "after_feeds [text_lines [''HTTP/1.1 200 OK'', ''Content-Length: 5'', []] @ ''hello'']
    (\<lambda>rs p. rs = [ec_ok] \<and> hp_state p = St_complete \<and> hp_status p = 200 \<and> rs_reason (hp_response p) = ''OK''
      \<and> is_success (hp_response p))"
  by (rule after_feedsI) code_simp

lemma test_status_line_without_reason:
  "after_feeds [text_lines [''HTTP/1.1 204'', ''Content-Length: 0'', []]]
    (\<lambda>rs p. rs = [ec_ok] \<and> hp_state p = St_complete \<and> hp_status p = 204)"
  by (rule after_feedsI) code_simp

lemma test_http10_response:
  "after_feeds [text_lines [''HTTP/1.0 200 OK'', ''Content-Length: 0'', []]]
    (\<lambda>rs p. rs = [ec_ok] \<and> hp_state p = St_complete \<and> hp_status p = 200)"
  by (rule after_feedsI) code_simp

lemma test_invalid_version: "after_feeds [text_lines [''HTTP/2.0 200 OK'']] (\<lambda>rs p. hp_state p = St_error)"
  by (rule after_feedsI) code_simp

lemma test_missing_status_code: "after_feeds [text_lines [''HTTP/1.1'']] (\<lambda>rs p. hp_state p = St_error)"
  by (rule after_feedsI) code_simp

lemma test_status_404:
  "after_feeds [text_lines [''HTTP/1.1 404 Not Found'', ''Content-Length: 0'', []]]
    (\<lambda>rs p. rs = [ec_ok] \<and> hp_state p = St_complete \<and> hp_status p = 404 \<and> rs_reason (hp_response p) = ''Not Found'')"
  by (rule after_feedsI) code_simp

lemma test_headers_parsed:
  "after_feeds [text_lines [''HTTP/1.1 200 OK'', ''Content-Type: text/html'', ''X-Custom: value'', ''Content-Length: 0'', []]]
    (\<lambda>rs p. rs = [ec_ok] \<and> hp_state p = St_complete \<and> hdr_contains ''Content-Type'' (hp_headers p)
      \<and> hdr_get ''Content-Type'' (hp_headers p) = Some ''text/html'' \<and> hdr_contains ''X-Custom'' (hp_headers p)
      \<and> hdr_get ''X-Custom'' (hp_headers p) = Some ''value'')"
  by (rule after_feedsI) code_simp

lemma test_header_with_colon_in_value:
  "after_feeds [text_lines [''HTTP/1.1 200 OK'', ''Location: http://example.com:8080/path'', ''Content-Length: 0'', []]]
    (\<lambda>rs p. rs = [ec_ok] \<and> hdr_get ''Location'' (hp_headers p) = Some ''http://example.com:8080/path'')"
  by (rule after_feedsI) code_simp

lemma test_header_with_leading_whitespace:
  "after_feeds [text_lines [''HTTP/1.1 200 OK'', ''X-Value:   indented value'', ''Content-Length: 0'', []]]
    (\<lambda>rs p. rs = [ec_ok] \<and> hdr_get ''X-Value'' (hp_headers p) = Some ''indented value'')"
  by (rule after_feedsI) code_simp

lemma test_invalid_header_no_colon:
  "after_feeds [text_lines [''HTTP/1.1 200 OK'', ''BadHeader'', []]] (\<lambda>rs p. hp_state p = St_error)"
  by (rule after_feedsI) code_simp

lemma test_content_length_body:
  "after_feeds [text_lines [''HTTP/1.1 200 OK'', ''Content-Length: 13'', []] @ ''Hello, World!'']
    (\<lambda>rs p. rs = [ec_ok] \<and> hp_state p = St_complete \<and> length (hp_body p) = 13 \<and> hp_body p = ''Hello, World!'')"
  by (rule after_feedsI) code_simp

lemma test_content_length_zero:
  "after_feeds [text_lines [''HTTP/1.1 204 No Content'', ''Content-Length: 0'', []]]
    (\<lambda>rs p. rs = [ec_ok] \<and> hp_state p = St_complete \<and> length (hp_body p) = 0)"
  by (rule after_feedsI) code_simp

lemma test_content_length_body_large:
  "after_feeds [text_lines [''HTTP/1.1 200 OK'', ''Content-Length: 10000'', []] @ replicate 10000 (CHR ''X'')]
    (\<lambda>rs p. rs = [ec_ok] \<and> hp_state p = St_complete \<and> length (hp_body p) = 10000)"
proof (rule after_feedsI)
  let ?hs = "[\<lparr>hf_name = ''Content-Length'', hf_value = ''10000''\<rparr>]"
  have ok: "list_all field_ok ?hs" "\<not> hdr_is_chunked ?hs" "hdr_content_length ?hs = Some 10000"
    and h: "response_head 200 ''OK'' ?hs = text_lines [''HTTP/1.1 200 OK'', ''Content-Length: 10000'', []]"
    by code_simp+
  obtain q where "spec_feed (response_head 200 ''OK'' ?hs @ replicate 10000 (CHR ''X'')) spec_init = (ec_ok, q)"
      "hp_state q = St_complete" "length (rs_body (hp_response q)) = 10000"
    using spec_feed_length_body [of 200 "''OK''" ?hs "replicate 10000 (CHR ''X'')" "[]"] ok by auto
  then show "case spec_feeds [text_lines [''HTTP/1.1 200 OK'', ''Content-Length: 10000'', []] @ replicate 10000 (CHR ''X'')] spec_init of
      (rs, p) \<Rightarrow> rs = [ec_ok] \<and> hp_state p = St_complete \<and> length (hp_body p) = 10000"
    unfolding h [symmetric] by simp
qed

lemma test_chunked_body:
  "after_feeds [text_lines [''HTTP/1.1 200 OK'', ''Transfer-Encoding: chunked'', [], ''5'', ''Hello'', ''6'', '' World'', ''0'', []]]
    (\<lambda>rs p. rs = [ec_ok] \<and> hp_state p = St_complete \<and> hp_body p = ''Hello World'')"
  by (rule after_feedsI) code_simp

lemma test_chunked_single_chunk:
  "after_feeds [text_lines [''HTTP/1.1 200 OK'', ''Transfer-Encoding: chunked'', [], ''d'', ''Hello, World!'', ''0'', []]]
    (\<lambda>rs p. rs = [ec_ok] \<and> hp_state p = St_complete \<and> hp_body p = ''Hello, World!'')"
  by (rule after_feedsI) code_simp

lemma test_chunked_hex_uppercase:
  "after_feeds [text_lines [''HTTP/1.1 200 OK'', ''Transfer-Encoding: chunked'', [], ''A'', ''0123456789'', ''0'', []]]
    (\<lambda>rs p. rs = [ec_ok] \<and> hp_state p = St_complete \<and> hp_body p = ''0123456789'')"
  by (rule after_feedsI) code_simp

lemma test_chunked_empty_body:
  "after_feeds [text_lines [''HTTP/1.1 200 OK'', ''Transfer-Encoding: chunked'', [], ''0'', []]]
    (\<lambda>rs p. rs = [ec_ok] \<and> hp_state p = St_complete \<and> length (hp_body p) = 0)"
  by (rule after_feedsI) code_simp

lemma test_chunked_with_extension:
  "after_feeds [text_lines [''HTTP/1.1 200 OK'', ''Transfer-Encoding: chunked'', [], ''5;ext=value'', ''Hello'', ''0'', []]]
    (\<lambda>rs p. rs = [ec_ok] \<and> hp_state p = St_complete \<and> hp_body p = ''Hello'')"
  by (rule after_feedsI) code_simp

lemma test_incremental_feed:
  "after_feeds [text_lines [''HTTP/1.1 200 OK'']] (\<lambda>rs p. rs = [ec_ok] \<and> hp_state p = St_headers)
   \<and> after_feeds [text_lines [''HTTP/1.1 200 OK''], text_lines [''Content-Length: 5'', []]]
      (\<lambda>rs p. rs = [ec_ok, ec_ok] \<and> hp_state p = St_body_raw)
   \<and> after_feeds [text_lines [''HTTP/1.1 200 OK''], text_lines [''Content-Length: 5'', []], ''hello'']
      (\<lambda>rs p. rs = [ec_ok, ec_ok, ec_ok] \<and> hp_state p = St_complete \<and> length (hp_body p) = 5)"
  by (intro conjI after_feedsI) code_simp+

lemma test_byte_at_a_time:
  "after_feeds (map (\<lambda>c. [c]) (text_lines [''HTTP/1.1 200 OK'', ''Content-Length: 3'', []] @ ''abc''))
    (\<lambda>rs p. list_all (\<lambda>r. r = ec_ok) rs \<and> hp_state p = St_complete \<and> length (hp_body p) = 3)"
  by (rule after_feedsI) code_simp

lemma reset_parser:
  "hp_state (hp_reset p) = St_status_line" "hp_status (hp_reset p) = 0" "hp_headers (hp_reset p) = []"
  "bb_contents (hp_body (hp_reset p)) = []"
  by (simp_all add: hp_reset_def hdr_clear_def)

text \<open>A parser that is reset goes on as a new one.\<close>

lemma feeds_reset:
  assumes "hp_live p" and "after_feeds ds P"
  shows "\<exists>rs p'. feeds ds (hp_reset p) = Some (rs, p') \<and> P rs (hp_abs p')"
  using assms(2) feeds_eval [OF hp_live_init, of ds] feeds_eval [OF hp_reset_live [OF assms(1)], of ds]
  by (auto simp: after_feeds_def hp_abs_reset)

lemma test_reset:
  assumes "feeds [text_lines [''HTTP/1.1 200 OK'', ''Content-Length: 3'', []] @ ''abc''] http_parser_init = Some (rs, p)"
  shows "\<exists>rs' p'. feeds [text_lines [''HTTP/1.1 200 OK'', ''Content-Length: 3'', []] @ ''abc''] (hp_reset p) = Some (rs', p')
    \<and> rs' = [ec_ok] \<and> hp_state (hp_abs p') = St_complete \<and> hp_status (hp_abs p') = 200"
proof (rule feeds_reset)
  show "hp_live p"
    using feeds_eval [OF hp_live_init, of "[text_lines [''HTTP/1.1 200 OK'', ''Content-Length: 3'', []] @ ''abc'']"] assms
    by force
  show "after_feeds [text_lines [''HTTP/1.1 200 OK'', ''Content-Length: 3'', []] @ ''abc'']
    (\<lambda>rs q. rs = [ec_ok] \<and> hp_state q = St_complete \<and> hp_status q = 200)"
    by (rule after_feedsI) code_simp
qed

lemma parse_responseI:
  assumes "case spec_feed data spec_init of (r, q) \<Rightarrow> r = ec_ok \<and> hp_state q = St_complete \<and> P (hp_response q)"
  shows "\<exists>resp. parse_response data = Some (Inr resp) \<and> P (resp_map_body bb_contents resp)"
  using assms parse_response_spec [of data "snd (spec_feed data spec_init)"] by (auto split: prod.splits)

lemma parse_response_incompleteI:
  assumes "case spec_feed data spec_init of (r, q) \<Rightarrow> r = ec_ok \<and> hp_state q \<noteq> St_complete"
  shows "parse_response data = Some (Inl http_parse_error)"
proof -
  obtain p' where "feed data http_parser_init = Some (ec_ok, p')" "hp_state (hp_abs p') \<noteq> St_complete"
    using feed_eval [OF hp_live_init, of data] assms by (fastforce split: prod.splits)
  then show ?thesis by (auto simp: parse_response_def v_has_error_def)
qed

lemma test_parse_response_free_function:
  "\<exists>resp. parse_response (text_lines [''HTTP/1.1 200 OK'', ''Content-Length: 4'', []] @ ''test'') = Some (Inr resp)
    \<and> rs_status_code (resp_map_body bb_contents resp) = 200 \<and> length (rs_body (resp_map_body bb_contents resp)) = 4"
  by (rule parse_responseI) code_simp

lemma test_parse_response_incomplete:
  "parse_response (text_lines [''HTTP/1.1 200 OK'', ''Content-Length: 5'', []] @ ''hel'') = Some (Inl http_parse_error)"
  by (rule parse_response_incompleteI) code_simp

lemma test_response_is_chunked:
  "after_feeds [text_lines [''HTTP/1.1 200 OK'', ''Transfer-Encoding: chunked'', [], ''0'', []]]
    (\<lambda>rs p. resp_is_chunked (hp_response p))"
  by (rule after_feedsI) code_simp

lemma test_response_content_length:
  "after_feeds [text_lines [''HTTP/1.1 200 OK'', ''Content-Length: 42'', []]]
    (\<lambda>rs p. resp_content_length (hp_response p) = Some 42)"
  by (rule after_feedsI) code_simp

end
