(* ===== verification/Spec2Isabelle.thy ===== *)
theory Spec2Isabelle
  imports Thread_Claims Service_Claims Byte_Span Http_Parser_Tests
begin

text \<open>
  A verification library of vynx\_http, an HTTP/1.1 client in C++ (\<open>src/include/vynx_http\<close>, \<open>src/src\<close>).

  \<^bold>\<open>The program.\<close> \<open>http_client\<close> takes a request, fills in the default headers, finds or opens a connection in
  its keep-alive pool (\<open>tcp_socket\<close>, and \<open>tls_context\<close> for https), writes the serialised request, feeds what
  the connection delivers to \<open>http_parser\<close>, stores the cookies of the response in \<open>cookie_jar\<close> and follows
  redirects. The values it works on are \<open>http_request\<close>, \<open>http_response\<close>, \<open>http_headers\<close> and bodies in a
  \<open>byte_buffer\<close>; errors are values, \<open>result\<close> with an \<open>error_code\<close>. \<open>execute_async\<close> posts a request to the
  \<open>event_loop\<close>, which runs tasks, waits on a \<open>poller\<close> of the platform and fires timers; \<open>timeout_manager\<close>
  and \<open>register_loop_shutdown\<close> of \<open>signal_handler\<close> are clients of its timers. \<open>dns_resolver\<close> with
  \<open>happy_eyeballs\<close>, \<open>buffer_pool\<close>, \<open>logger\<close> and \<open>byte_span\<close> stand on their own.

  \<^bold>\<open>How the model corresponds to the code.\<close> A class is a record of its members, an operation a function on
  it of the same name, prefixed where the name is taken (\<open>bb_\<close> byte\_buffer, \<open>hdr_\<close> http\_headers, \<open>hp_\<close>
  http\_parser, \<open>tcp_\<close>, \<open>win_\<close>, \<open>tls_\<close>, \<open>kq_\<close>, \<open>el_\<close> event\_loop, \<open>tm_\<close> timeout\_manager, \<open>sig_\<close>, \<open>bp_\<close> buffer\_pool,
  \<open>span_\<close>). A \<open>result<T>\<close> is a sum with the error on the left; a \<open>result<void>\<close> is its error code. An object
  that can be moved from is an option. The outside world is a type variable, and what is not under src/
  (system calls, OpenSSL, clocks, callbacks) is a record of functions over it: \<open>os_api\<close>, \<open>ssl_api\<close>, \<open>env\<close>,
  \<open>epoll_api\<close>, \<open>kqueue_api\<close>, \<open>iocp_api\<close>, \<open>loop_env\<close>, \<open>signal_api\<close>, \<open>rt_app\<close>.

  \<^item> \<open>Prelude\<close>, \<open>Cpp_Std\<close>: shared lemmas; the parts of the C++ library the sources call.
  \<^item> \<open>Error_Code\<close>, \<open>Byte_Buffer\<close>, \<open>Byte_Span\<close>, \<open>Http_Method\<close>, \<open>Http_Headers\<close>, \<open>Http_Request\<close>,
    \<open>Http_Response\<close>: the data types, each after its header and source file. \<open>Byte_Queue\<close> is the interface
    of a byte queue (\<open>byte_sink\<close>, \<open>byte_queue\<close>), which \<open>Byte_Buffer\<close> provides as \<open>bq\<close>.
  \<^item> \<open>Http_Parser\<close>: \<open>http_parser.cpp\<close>. \<open>Http_Parser_Spec\<close>: the same loops over a body that is a plain list, and the
    simulation; \<open>Http_Parser_Props\<close> the invariant and the order of the states; \<open>Http_Parser_Segments\<close> the
    independence of the cuts; \<open>Http_Parser_Reach\<close> the parsers built by \<open>feed\<close> and \<open>reset\<close>;
    \<open>Http_Parser_Roundtrip\<close> rendered responses; \<open>Http_Reference\<close> a decoder of whole responses that shares
    no loop with the parser, and the proof that \<open>parse_response\<close> computes it.
  \<^item> \<open>Cookie_Jar\<close>, \<open>Url\<close>, \<open>Http_Client\<close>: \<open>http_client.cpp\<close>; \<open>Http_Client_Facts\<close> what it sends and returns,
    the redirect chain and the invariant of the pool; \<open>Client_Exchange\<close> a peer that answers, from the
    connection to the response; \<open>Async_Client\<close> \<open>execute_async\<close> over the loop.
  \<^item> \<open>Tcp_Socket\<close>, \<open>Tcp_Winsock\<close>, \<open>Tls_Context\<close>: the two branches of the socket, the second a refinement of
    the first, and the OpenSSL wrappers. \<open>Transport\<close> is the interface
    \<open>wire\<close> between a connection and the client; \<open>posix_stream\<close> and \<open>ssl_stream\<close> derive it from the
    documented behaviour of \<open>send\<close> and \<open>SSL_write\<close>, and \<open>client_stream\<close> uses both. A failed \<open>SSL_write\<close> may
    have sent a part of its bytes, a failed \<open>send\<close> has not (\<open>clean_wire\<close>).
  \<^item> \<open>Platform\<close>: \<open>platform.cpp\<close>, the pollers. \<open>Event_Loop\<close>: \<open>event_loop.cpp\<close>. \<open>Event_Loop_Facts\<close>: the
    states a loop reaches and their invariant \<open>loop_ok\<close>, and passes over the timers in the locales
    \<open>quiet_callbacks\<close> and \<open>stopping_callbacks\<close>. \<open>Loop_Threads\<close>: the thread in \<open>run\<close> step by step, among threads
    that call \<open>post\<close> and \<open>stop\<close>; the wait in the poller begins and ends in steps of its own, and one without a time
    limit need not end. \<open>Loop_Thread_Facts\<close> what holds in every interleaving of them; \<open>Loop_Runners\<close>
    threads that call \<open>run\<close> of one loop.
  \<^item> \<open>Timeout_Manager\<close>: \<open>timeout_manager.cpp\<close>. \<open>Timeout_Facts\<close>: its refinement of a set and the balance of
    its counters. \<open>Timeout_Link\<close>: what it needs of a loop, \<open>timer_store\<close>, which the loop provides as \<open>lts\<close>.
    \<open>Timeout_Threads\<close>: the manager shared by threads, one statement at a time, with its mutex and callbacks
    that may call it; \<open>replay\<close> is the sequential specification its operations are compared with.
  \<^item> \<open>Signal_Handler\<close>: \<open>signal_handler.cpp\<close>. \<open>Runtime\<close>: loop, timeouts and signals together, with the
    closures they leave in the timers; it provides \<open>quiet_callbacks\<close> (\<open>rtq\<close>) and \<open>stopping_callbacks\<close>
    (\<open>rts\<close>). \<open>Runtime_Facts\<close>, \<open>Runtime_Liveness\<close>: timeouts end at their deadlines, \<open>run\<close> ends on a signal.
  \<^item> \<open>Dns_Resolver\<close>, \<open>Dns_Facts\<close>, \<open>Buffer_Pool\<close>, \<open>Logger\<close>: the files of the same names; \<open>Dns_Threads\<close>: the
    resolver used by several threads.
  \<^item> \<open>Data_Claims\<close>, \<open>Http_Parser_Claims\<close>, \<open>Client_Claims\<close>, \<open>Loop_Claims\<close>, \<open>Thread_Claims\<close>,
    \<open>Service_Claims\<close>: the properties,
    each with a theorem that applies it at a concrete input; \<open>Demo_World\<close> holds the peer, the kernel and
    the OpenSSL the client is evaluated on. \<open>Component_Tests\<close>, \<open>Http_Parser_Tests\<close>: the unit tests of the
    repository, stated on the model.

  \<^bold>\<open>What is shown.\<close> On every string of bytes the parser returns what the decoder makes of it; it returns
  what a well-formed response says, does not depend on how the bytes are cut outside chunked bodies, and is
  bounded in the head of a response; the properties also pin down where it fails: a chunk cut after its size
  line; the theorems beside them, a body framed by the end of the stream and a reset after the body was taken.
  The client puts a front of the serialised request on the wire, on success exactly all of it, returns only framed
  responses, returns exactly the response of a peer that answers (\<open>answered\<close>; with a length in any cut that keeps the
  head within its limit, in chunks as one read, \<open>pieces_of\<close>), and leaves what follows unread; it follows redirects,
  sends a cookie back as it was set, keeps the pool consistent, uses TLS exactly for https, makes at most as many requests as its
  redirect budget allows and drops credentials when the host changes. The loop keeps its timers in order,
  wakes for them, and returns from \<open>run\<close> on a signal; tasks posted by other threads are run once
  and in order, and a stop from another thread ends the run in every fair schedule in which the waits with a time limit
  end and every wait has one (a wait without one may last for ever, since neither \<open>stop\<close> nor \<open>post\<close> wakes the
  poller: \<open>wait_stays\<close>); only threads whose tests
  of \<open>running\<close> overlap get into \<open>run\<close> together. Timeouts refine a set, are all
  accounted for, and end exactly at their deadlines; threads that share the manager see its operations one
  after the other although each is many steps, and its mutex comes back unless a callback calls the manager, which blocks it for ever;
  every event reaches the handler its socket has at that moment through kqueue, and none does through epoll or the completion port. The
  resolver's cache is bounded and answers as the system did but for ports and scopes, however many threads use it; requests posted to
  the loop run in order, and a request that is answered hands its response to the callback.

  \<^bold>\<open>Termination and bounds.\<close> No fuel is used. Loops over data are structural or have a measure. Three things
  may run for ever in the code and are options in the model: a write to a buffer of capacity 0 (so
  \<open>feed\<close> and \<open>execute\<close> are options; \<open>feed_total_refines\<close> shows that it returns on every parser built by \<open>feed\<close> and
  \<open>reset\<close>, \<open>release_then_reset_hangs\<close> that it need not once the response was taken), the receiving loop of the client, when the peer sends for ever (\<open>partial_function\<close>), and
  \<open>run\<close> (\<open>partial_function\<close>; \<open>run_returns_on_signal\<close> gives the conditions under which it returns).
  \<open>None\<close> also stands for behaviour C++ leaves undefined: a callback that changes the number of timers
  during a pass, an event for a null handler, a signal after its state was freed. Machine integers are
  words where the code depends on their width (ports, status codes, chunk sizes, event flags, timer
  identifiers, timeout keys, the \<open>int\<close> of a wait); sizes of objects in memory and counters are naturals,
  times are integers in nanoseconds. Statements about timer identifiers assume that fewer than 2 to the
  64 timers were ever scheduled.

  \<^bold>\<open>Not modelled.\<close> The asynchronous operations of \<open>tcp_socket\<close>, which are
  declared but defined nowhere. Other threads, except those that post to a loop, stop it, call
  \<open>run\<close> of it, or share a resolver or a timeout manager: there the sections of the loop and the resolver under a
  mutex are steps that interleave, those of the manager run one statement at a time under its mutex, an atomic is read and written in one step, and what the code leaves unprotected (the
  timers and handlers of a loop, the counter of misses) is taken to be free of races. What two threads do once
  both are in \<open>run\<close>. Exceptions of callbacks and failing allocations. The closures of a timeout
  manager after it was moved from, which refer to freed memory. In \<open>Runtime\<close> the application's
  timers and timeouts act on the world outside the loop only (its tasks and handlers may do anything the
  properties allow). The streams and the time format behind the logger, log messages of other components, and
  the tests that open sockets, create a poller or start threads.
\<close>

end
